(* ===== verification/Prelude.thy ===== *)
theory Prelude
  imports Main "HOL-Library.Word" "HOL-Library.Multiset" "HOL-Library.Monad_Syntax"
begin

unbundle bit_operations_syntax

section \<open>Shared types, byte order, packet memory and list lemmas\<close>

text \<open>
  The vocabulary of every other theory: the machine integers of the C code, the byte order
  conversions of \<^verbatim>\<open><arpa/inet.h>\<close> on a little-endian host, packet buffers as byte lists with
  the loads and stores that a struct overlay compiles to, and generic lemmas on lists.
  An operation that can abort the process (a failed assert, a null or dangling pointer) or
  that need not return has an option type, with None for "does not return normally".
\<close>

type_synonym u8 = "8 word"
type_synonym u16 = "16 word"
type_synonym u32 = "32 word"
type_synonym u64 = "64 word"

named_theorems mem_simps "loads after stores on packet buffers"
named_theorems frame_simps "fields that an operation leaves alone"

subsection \<open>Byte order\<close>

text \<open>ntohs and ntohl on a little-endian host reverse the bytes; htons and htonl are the same maps.\<close>

definition ntohs :: "u16 \<Rightarrow> u16" where
  "ntohs w = push_bit 8 (take_bit 8 w) OR take_bit 8 (drop_bit 8 w)"

definition ntohl :: "u32 \<Rightarrow> u32" where
  "ntohl w = push_bit 24 (take_bit 8 w) OR push_bit 16 (take_bit 8 (drop_bit 8 w)) OR
     push_bit 8 (take_bit 8 (drop_bit 16 w)) OR take_bit 8 (drop_bit 24 w)"

abbreviation htons :: "u16 \<Rightarrow> u16" where "htons \<equiv> ntohs"
abbreviation htonl :: "u32 \<Rightarrow> u32" where "htonl \<equiv> ntohl"

lemma bit_ntohs:
  "bit (ntohs w) n = (n < 16 \<and> bit w (if n < 8 then 8 + n else n - 8))"
  by (auto simp: ntohs_def bit_simps dest: bit_imp_le_length)

lemma bit_ntohl:
  "bit (ntohl w) n = (n < 32 \<and> bit w (if n < 8 then 24 + n else if n < 16 then 8 + n
     else if n < 24 then n - 8 else n - 24))"
  by (auto simp: ntohl_def bit_simps dest: bit_imp_le_length)

lemma ntohs_ntohs [simp]: "ntohs (ntohs w) = w"
  by (rule bit_word_eqI) (auto simp: bit_ntohs)

lemma ntohl_ntohl [simp]: "ntohl (ntohl w) = w"
  by (rule bit_word_eqI) (auto simp: bit_ntohl)

lemma ntohs_inject [simp]: "ntohs a = ntohs b \<longleftrightarrow> a = b"
  by (metis ntohs_ntohs)

lemma ntohl_inject [simp]: "ntohl a = ntohl b \<longleftrightarrow> a = b"
  by (metis ntohl_ntohl)

lemma ntohl_and: "ntohl (a AND b) = ntohl a AND ntohl b"
  by (rule bit_word_eqI) (auto simp: bit_ntohl bit_simps)

lemma ntohl_0 [simp]: "ntohl 0 = 0"
  by (rule bit_word_eqI) (auto simp: bit_ntohl)

lemma ntohl_eq_0 [simp]: "ntohl w = 0 \<longleftrightarrow> w = 0"
  using ntohl_inject [of w 0] by simp

lemma ntohs_0 [simp]: "ntohs 0 = 0"
  by (rule bit_word_eqI) (auto simp: bit_ntohs)

lemma unat_or_disjoint:
  fixes a b :: "'a::len word"
  assumes "\<And>n. \<not> bit a n \<or> \<not> bit b n"
  shows "unat (a OR b) = unat a + unat b"
  unfolding unsigned_or_eq
  by (rule disjunctive_add [symmetric]) (use assms in \<open>auto simp: bit_unsigned_iff\<close>)

lemma unat_u8: "unat (b :: u8) < 256"
  using unsigned_less [of b] by simp

lemma unat_u16: "unat (w :: u16) < 65536"
  using unsigned_less [of w] by simp

lemma unat_u32: "unat (w :: u32) < 4294967296"
  using unsigned_less [of w] by simp

lemma unat_add_small:
  fixes a b :: "'a::len word"
  assumes "unat a + unat b < 2 ^ LENGTH('a)"
  shows "unat (a + b) = unat a + unat b"
  using assms by (simp add: unat_word_ariths)

lemma unat_ntohs: "unat (ntohs w) = 256 * (unat w mod 256) + unat w div 256"
proof -
  have less: "unat w div 256 < 256" using unat_u16 [of w] by simp
  have "unat (push_bit 8 (take_bit 8 w)) = 256 * (unat w mod 256)"
    unfolding unsigned_push_bit_eq unsigned_take_bit_eq
    unfolding push_bit_eq_mult take_bit_eq_mod by simp
  moreover have "unat (take_bit 8 (drop_bit 8 w)) = unat w div 256"
    unfolding unsigned_take_bit_eq unsigned_drop_bit_eq
    unfolding drop_bit_eq_div take_bit_eq_mod using less by simp
  moreover have "unat (ntohs w) =
      unat (push_bit 8 (take_bit 8 w)) + unat (take_bit 8 (drop_bit 8 w))"
    unfolding ntohs_def by (rule unat_or_disjoint) (auto simp: bit_simps)
  ultimately show ?thesis by simp
qed

text \<open>Swapping the bytes multiplies by 256 in the ones' complement ring.\<close>

lemma unat_ntohs_mod: "unat (ntohs w) mod 65535 = (256 * unat w) mod 65535"
proof -
  have "256 * unat w = unat (ntohs w) + 65535 * (unat w div 256)"
    unfolding unat_ntohs using div_mult_mod_eq [of "unat w" 256] by linarith
  then show ?thesis by simp
qed

subsection \<open>Words in memory\<close>

definition w16 :: "u8 \<Rightarrow> u8 \<Rightarrow> u16" where
  "w16 b0 b1 = ucast b0 OR push_bit 8 (ucast b1)"

definition w32 :: "u8 \<Rightarrow> u8 \<Rightarrow> u8 \<Rightarrow> u8 \<Rightarrow> u32" where
  "w32 b0 b1 b2 b3 =
     ucast b0 OR push_bit 8 (ucast b1) OR push_bit 16 (ucast b2) OR push_bit 24 (ucast b3)"

lemma unat_w16: "unat (w16 b0 b1) = unat b0 + 256 * unat b1"
proof -
  have "unat (ucast b0 :: u16) = unat b0"
    unfolding unsigned_ucast_eq take_bit_eq_mod using unat_u8 [of b0] by simp
  moreover have "unat (push_bit 8 (ucast b1 :: u16)) = 256 * unat b1"
    unfolding unsigned_push_bit_eq unsigned_ucast_eq
    unfolding push_bit_eq_mult take_bit_eq_mod using unat_u8 [of b1] by simp
  moreover have "unat (w16 b0 b1) = unat (ucast b0 :: u16) + unat (push_bit 8 (ucast b1 :: u16))"
    unfolding w16_def
    by (rule unat_or_disjoint) (auto simp: bit_simps dest: bit_imp_le_length)
  ultimately show ?thesis by simp
qed

lemma w16_bytes [simp]: "w16 (ucast w) (ucast (drop_bit 8 w)) = w"
  by (rule bit_word_eqI) (auto simp: w16_def bit_simps)

lemma w32_bytes [simp]:
  "w32 (ucast w) (ucast (drop_bit 8 w)) (ucast (drop_bit 16 w)) (ucast (drop_bit 24 w)) = w"
proof (rule bit_word_eqI)
  fix n assume "n < LENGTH(32)"
  then show "bit (w32 (ucast w) (ucast (drop_bit 8 w)) (ucast (drop_bit 16 w))
      (ucast (drop_bit 24 w))) n = bit w n"
    by (cases "n < 24"; cases "n < 16"; cases "n < 8") (auto simp: w32_def bit_simps)
qed

text \<open>
  A packet buffer is the list of its bytes. A load past the end has no defined value in C;
  the model reads 0 there, and every property about the contents of a packet states the
  length it needs. A store past the end is dropped.
\<close>

type_synonym packet = "u8 list"

definition ld8 :: "packet \<Rightarrow> nat \<Rightarrow> u8" where
  "ld8 p i = (if i < length p then p ! i else 0)"

definition ld16 :: "packet \<Rightarrow> nat \<Rightarrow> u16" where
  "ld16 p i = w16 (ld8 p i) (ld8 p (i + 1))"

definition ld32 :: "packet \<Rightarrow> nat \<Rightarrow> u32" where
  "ld32 p i = w32 (ld8 p i) (ld8 p (i + 1)) (ld8 p (i + 2)) (ld8 p (i + 3))"

definition ld_bytes :: "packet \<Rightarrow> nat \<Rightarrow> nat \<Rightarrow> u8 list" where
  "ld_bytes p i n = map (\<lambda>k. ld8 p (i + k)) [0..<n]"

definition st8 :: "packet \<Rightarrow> nat \<Rightarrow> u8 \<Rightarrow> packet" where
  "st8 p i v = p[i := v]"

definition st16 :: "packet \<Rightarrow> nat \<Rightarrow> u16 \<Rightarrow> packet" where
  "st16 p i v = p[i := ucast v, i + 1 := ucast (drop_bit 8 v)]"

definition st32 :: "packet \<Rightarrow> nat \<Rightarrow> u32 \<Rightarrow> packet" where
  "st32 p i v = p[i := ucast v, i + 1 := ucast (drop_bit 8 v),
     i + 2 := ucast (drop_bit 16 v), i + 3 := ucast (drop_bit 24 v)]"

fun st_bytes :: "packet \<Rightarrow> nat \<Rightarrow> u8 list \<Rightarrow> packet" where
  "st_bytes p i [] = p"
| "st_bytes p i (b # bs) = st_bytes (p[i := b]) (Suc i) bs"

lemma length_st [simp]:
  "length (st8 p i v8) = length p" "length (st16 p i v16) = length p"
  "length (st32 p i v32) = length p"
  by (simp_all add: st8_def st16_def st32_def)

lemma length_st_bytes [simp]: "length (st_bytes p i bs) = length p"
  by (induction p i bs rule: st_bytes.induct) auto

lemma length_ld_bytes [simp]: "length (ld_bytes p i n) = n"
  by (simp add: ld_bytes_def)

lemma st16_st16 [simp]: "st16 (st16 p a v) a w = st16 p a w"
  by (simp add: st16_def list_update_swap [of "Suc a" a])

lemma ld8_update:
  "ld8 (p[i := v]) j = (if i = j \<and> j < length p then v else ld8 p j)"
  by (simp add: ld8_def)

lemma ld8_st8 [mem_simps]:
  "ld8 (st8 p i v) j = (if i = j \<and> j < length p then v else ld8 p j)"
  by (simp add: st8_def ld8_update)

lemma ld8_st16:
  "ld8 (st16 p i v) j = (if j < length p then
     (if j = i then ucast v else if j = i + 1 then ucast (drop_bit 8 v) else ld8 p j)
     else ld8 p j)"
  by (simp add: st16_def ld8_update)

lemma ld8_st32:
  "ld8 (st32 p i v) j = (if j < length p then
     (if j = i then ucast v else if j = i + 1 then ucast (drop_bit 8 v)
      else if j = i + 2 then ucast (drop_bit 16 v) else if j = i + 3 then ucast (drop_bit 24 v)
      else ld8 p j)
     else ld8 p j)"
  by (simp add: st32_def ld8_update)

lemma ld8_st_bytes:
  "ld8 (st_bytes p i bs) j =
     (if i \<le> j \<and> j < i + length bs \<and> j < length p then bs ! (j - i) else ld8 p j)"
proof (induction p i bs rule: st_bytes.induct)
  case (2 p i b bs)
  then show ?case
    by (cases "j = i") (auto simp: ld8_update nth_Cons')
qed auto

lemma ld8_st16_other [mem_simps]: "j < i \<or> i + 1 < j \<Longrightarrow> ld8 (st16 p i v) j = ld8 p j"
  by (auto simp: ld8_st16)

lemma ld8_st32_other [mem_simps]: "j < i \<or> i + 3 < j \<Longrightarrow> ld8 (st32 p i v) j = ld8 p j"
  by (auto simp: ld8_st32)

lemma ld8_st_bytes_other [mem_simps]:
  "j < i \<or> i + length bs \<le> j \<Longrightarrow> ld8 (st_bytes p i bs) j = ld8 p j"
  by (auto simp: ld8_st_bytes)

lemma ld16_st16_same [mem_simps]: "i + 1 < length p \<Longrightarrow> ld16 (st16 p i v) i = v"
  by (simp add: ld16_def ld8_st16)

lemma ld32_st32_same [mem_simps]: "i + 3 < length p \<Longrightarrow> ld32 (st32 p i v) i = v"
  by (simp add: ld32_def ld8_st32)

lemma ld16_other [mem_simps]:
  "j + 1 < i \<or> i < j \<Longrightarrow> ld16 (st8 p i v8) j = ld16 p j"
  "j + 1 < i \<or> i + 1 < j \<Longrightarrow> ld16 (st16 p i v16) j = ld16 p j"
  "j + 1 < i \<or> i + 3 < j \<Longrightarrow> ld16 (st32 p i v32) j = ld16 p j"
  "j + 1 < i \<or> i + length bs \<le> j \<Longrightarrow> ld16 (st_bytes p i bs) j = ld16 p j"
  by (auto simp: ld16_def ld8_st8 ld8_st16 ld8_st32 ld8_st_bytes)

lemma ld32_other [mem_simps]:
  "j + 3 < i \<or> i < j \<Longrightarrow> ld32 (st8 p i v8) j = ld32 p j"
  "j + 3 < i \<or> i + 1 < j \<Longrightarrow> ld32 (st16 p i v16) j = ld32 p j"
  "j + 3 < i \<or> i + 3 < j \<Longrightarrow> ld32 (st32 p i v32) j = ld32 p j"
  "j + 3 < i \<or> i + length bs \<le> j \<Longrightarrow> ld32 (st_bytes p i bs) j = ld32 p j"
  by (auto simp: ld32_def ld8_st8 ld8_st16 ld8_st32 ld8_st_bytes)

lemma ld_bytes_st_bytes_same [mem_simps]:
  "i + length bs \<le> length p \<Longrightarrow> n = length bs \<Longrightarrow> ld_bytes (st_bytes p i bs) i n = bs"
  by (auto simp: ld_bytes_def ld8_st_bytes intro!: nth_equalityI)

lemma ld_bytes_other [mem_simps]:
  "j + n \<le> i \<or> i < j \<Longrightarrow> ld_bytes (st8 p i v8) j n = ld_bytes p j n"
  "j + n \<le> i \<or> i + 1 < j \<Longrightarrow> ld_bytes (st16 p i v16) j n = ld_bytes p j n"
  "j + n \<le> i \<or> i + 3 < j \<Longrightarrow> ld_bytes (st32 p i v32) j n = ld_bytes p j n"
  "j + n \<le> i \<or> i + length bs \<le> j \<Longrightarrow> ld_bytes (st_bytes p i bs) j n = ld_bytes p j n"
  by (auto simp: ld_bytes_def ld8_st8 ld8_st16 ld8_st32 ld8_st_bytes)

text \<open>Appending bytes changes no load inside the packet.\<close>

lemma ld_append [mem_simps]:
  "i < length p \<Longrightarrow> ld8 (p @ q) i = ld8 p i"
  "i + 1 < length p \<Longrightarrow> ld16 (p @ q) i = ld16 p i"
  "i + 3 < length p \<Longrightarrow> ld32 (p @ q) i = ld32 p i"
  "i + n \<le> length p \<Longrightarrow> ld_bytes (p @ q) i n = ld_bytes p i n"
  by (auto simp: ld8_def ld16_def ld32_def ld_bytes_def nth_append)

subsection \<open>Lists walked by the code\<close>

text \<open>The first element with a property, as a walk that breaks at the first match finds it.\<close>

lemma find_Some_split:
  assumes "find P xs = Some x"
  shows "\<exists>ys zs. xs = ys @ x # zs \<and> P x \<and> (\<forall>y\<in>set ys. \<not> P y)"
  using assms
proof (induction xs)
  case (Cons y xs)
  show ?case
  proof (cases "P y")
    case True
    with Cons.prems show ?thesis by (intro exI [of _ "[]"] exI [of _ xs]) simp
  next
    case False
    with Cons obtain ys zs where "xs = ys @ x # zs" "P x" "\<forall>y\<in>set ys. \<not> P y" by auto
    with False show ?thesis by (intro exI [of _ "y # ys"] exI [of _ zs]) simp
  qed
qed simp

lemma find_SomeD: "find P xs = Some x \<Longrightarrow> x \<in> set xs \<and> P x"
  by (auto dest: find_Some_split)

lemma find_append: "find P (xs @ ys) = (case find P xs of None \<Rightarrow> find P ys | Some x \<Rightarrow> Some x)"
  by (induction xs) auto

lemma find_map: "find P (map f xs) = map_option f (find (P \<circ> f) xs)"
  by (induction xs) auto

lemma find_filter: "find P (filter Q xs) = find (\<lambda>x. Q x \<and> P x) xs"
  by (induction xs) auto

lemma find_replicate: "find P (replicate n x) = (if 0 < n \<and> P x then Some x else None)"
  by (induction n) auto

text \<open>Rewriting the first element with a property in place.\<close>

fun upd_first :: "('a \<Rightarrow> bool) \<Rightarrow> ('a \<Rightarrow> 'a) \<Rightarrow> 'a list \<Rightarrow> 'a list" where
  "upd_first P f [] = []"
| "upd_first P f (x # xs) = (if P x then f x # xs else x # upd_first P f xs)"

lemma length_upd_first [simp]: "length (upd_first P f xs) = length xs"
  by (induction xs) auto

lemma map_upd_first:
  "(\<And>x. P x \<Longrightarrow> g (f x) = g x) \<Longrightarrow> map g (upd_first P f xs) = map g xs"
  by (induction xs) auto

lemma find_upd_first:
  "(\<And>x. P x \<Longrightarrow> P (f x)) \<Longrightarrow> find P (upd_first P f xs) = map_option f (find P xs)"
  by (induction xs) auto

lemma find_upd_first_other:
  "(\<And>x. P x \<Longrightarrow> \<not> Q x \<and> \<not> Q (f x)) \<Longrightarrow> find Q (upd_first P f xs) = find Q xs"
  by (induction xs) auto

lemma upd_first_id: "\<forall>x\<in>set xs. \<not> P x \<Longrightarrow> upd_first P f xs = xs"
  by (induction xs) auto

lemma set_upd_first: "set (upd_first P f xs) \<subseteq> set xs \<union> f ` {x \<in> set xs. P x}"
  by (induction xs) auto

lemma find_distinct_key:
  "distinct (map k xs) \<Longrightarrow> x \<in> set xs \<Longrightarrow> find (\<lambda>y. k y = k x) xs = Some x"
  by (induction xs) (auto simp: rev_image_eqI)

lemma set_upd_firstD: "y \<in> set (upd_first P f xs) \<Longrightarrow> y \<in> set xs \<or> (\<exists>x\<in>set xs. P x \<and> y = f x)"
  by (induction xs) (auto split: if_splits)

text \<open>A walk that keeps the element with the greatest weight seen so far.\<close>

fun scan_max :: "('a \<Rightarrow> bool) \<Rightarrow> ('a \<Rightarrow> int) \<Rightarrow> 'a list \<Rightarrow> 'a option \<Rightarrow> int \<Rightarrow> 'a option" where
  "scan_max P w [] best k = best"
| "scan_max P w (x # xs) best k =
     (if P x \<and> k < w x then scan_max P w xs (Some x) (w x) else scan_max P w xs best k)"

definition max_elem :: "('a \<Rightarrow> bool) \<Rightarrow> ('a \<Rightarrow> int) \<Rightarrow> 'a list \<Rightarrow> 'a \<Rightarrow> bool" where
  "max_elem P w xs x \<longleftrightarrow> P x \<and> (\<forall>y\<in>set xs. P y \<longrightarrow> w y \<le> w x)"

lemma ex_max_elem:
  assumes "x \<in> set xs" "P x"
  shows "\<exists>y\<in>set xs. max_elem P w xs y"
proof -
  let ?S = "{y \<in> set xs. P y}"
  have "finite (w ` ?S)" "w ` ?S \<noteq> {}" using assms by auto
  from Max_in [OF this] obtain y where y: "y \<in> ?S" "w y = Max (w ` ?S)" by auto
  with Max_ge [OF \<open>finite (w ` ?S)\<close>] show ?thesis
    by (auto simp: max_elem_def intro!: bexI [of _ y])
qed

lemma find_max_elem_None: "find (max_elem P w xs) xs = None \<longleftrightarrow> (\<forall>x\<in>set xs. \<not> P x)"
proof
  show "\<forall>x\<in>set xs. \<not> P x" if "find (max_elem P w xs) xs = None"
    using that ex_max_elem [where P = P and w = w and xs = xs]
    unfolding find_None_iff by blast
qed (auto simp: find_None_iff max_elem_def)

lemma scan_max_spec:
  "scan_max P w xs best k =
     (case find (\<lambda>x. k < w x \<and> max_elem P w xs x) xs of None \<Rightarrow> best | Some x \<Rightarrow> Some x)"
proof (induction xs arbitrary: best k)
  case (Cons x xs)
  show ?case
  proof (cases "P x \<and> k < w x")
    case True
    have find: "find (\<lambda>y. k < w y \<and> max_elem P w (x # xs) y) xs =
        find (\<lambda>y. w x \<le> w y \<and> max_elem P w xs y) xs"
      using True by (intro find_cong refl) (auto simp: max_elem_def)
    show ?thesis
    proof (cases "max_elem P w (x # xs) x")
      case max: True
      then have "find (\<lambda>y. w x < w y \<and> max_elem P w xs y) xs = None"
        by (auto simp: find_None_iff max_elem_def)
      with True max show ?thesis by (simp add: Cons.IH)
    next
      case False
      with True obtain y where y: "y \<in> set xs" "P y" "w x < w y"
        by (auto simp: max_elem_def not_le)
      have eq: "find (\<lambda>y. w x \<le> w y \<and> max_elem P w xs y) xs =
          find (\<lambda>y. w x < w y \<and> max_elem P w xs y) xs"
        using y by (intro find_cong refl) (auto simp: max_elem_def)
      from ex_max_elem [where P = P, OF y(1,2), where w = w] y
      have "find (\<lambda>y. w x < w y \<and> max_elem P w xs y) xs \<noteq> None"
        by (auto simp: find_None_iff max_elem_def intro: less_le_trans)
      with True False find eq show ?thesis by (auto simp: Cons.IH)
    qed
  next
    case False
    then have "find (\<lambda>y. k < w y \<and> max_elem P w (x # xs) y) xs =
        find (\<lambda>y. k < w y \<and> max_elem P w xs y) xs"
      by (intro find_cong refl) (auto simp: max_elem_def)
    moreover from False have "\<not> (k < w x \<and> max_elem P w (x # xs) x)"
      by (auto simp: max_elem_def)
    ultimately have "find (\<lambda>y. k < w y \<and> max_elem P w (x # xs) y) (x # xs) =
        find (\<lambda>y. k < w y \<and> max_elem P w xs y) xs" by (simp only: find.simps if_False)
    then show ?thesis by (simp only: scan_max.simps False if_False Cons.IH)
  qed
qed simp

lemma scan_max_find:
  assumes "\<And>x. k < w x"
  shows "scan_max P w xs None k = find (max_elem P w xs) xs"
  using assms by (simp add: scan_max_spec split: option.splits)

text \<open>When the weights descend, the first element with the property has the greatest.\<close>

lemma find_max_elem_sorted:
  assumes "sorted_wrt (\<lambda>x y. w y \<le> w x) xs"
  shows "find (max_elem P w xs) xs = find P xs"
  using assms
proof (induction xs)
  case (Cons x xs)
  show ?case
  proof (cases "P x")
    case True
    with Cons.prems show ?thesis by (auto simp: max_elem_def)
  next
    case False
    then have "find (max_elem P w (x # xs)) xs = find (max_elem P w xs) xs"
      by (intro find_cong refl) (auto simp: max_elem_def)
    with False Cons show ?thesis by (auto simp: max_elem_def)
  qed
qed simp

end
