(* ===== verification/Node_List.thy ===== *)
theory Node_List
  imports Prelude
begin

section \<open>Doubly linked lists on the heap (\<^verbatim>\<open>or_utils.c\<close>, \<^verbatim>\<open>node_*\<close>)\<close>

text \<open>
  The pointer level of the router's tables: a heap of nodes with \<^verbatim>\<open>prev\<close>, \<^verbatim>\<open>next\<close> and \<^verbatim>\<open>data\<close>
  pointers and a heap of the blocks the data pointers own. A null pointer is None; using an
  address that is not allocated, or freeing one twice, makes the operation None. The
  predicate \<open>dlist\<close> says that a heap holds a list with given cells and values. The lemmas
  show that the operations act on the values as append, removal at a position, filter and
  length do, which is what lets the other theories keep the tables as lists.
\<close>

type_synonym addr = nat

record dnode =
  nd_prev :: "addr option"
  nd_next :: "addr option"
  nd_data :: "addr option"

record 'd heap =
  nodes :: "addr \<rightharpoonup> dnode"
  blocks :: "addr \<rightharpoonup> 'd"

subsection \<open>The operations\<close>

text \<open>\<open>a\<close> is the address that malloc returns.\<close>

definition node_create :: "addr \<Rightarrow> 'd heap \<Rightarrow> 'd heap" where
  "node_create a h = h\<lparr>nodes := (nodes h)(a \<mapsto> \<lparr>nd_prev = None, nd_next = None, nd_data = None\<rparr>)\<rparr>"

definition set_next :: "addr \<Rightarrow> addr option \<Rightarrow> 'd heap \<Rightarrow> 'd heap option" where
  "set_next a v h = do {
     nd \<leftarrow> nodes h a;
     Some (h\<lparr>nodes := (nodes h)(a \<mapsto> nd\<lparr>nd_next := v\<rparr>)\<rparr>)
   }"

definition set_prev :: "addr \<Rightarrow> addr option \<Rightarrow> 'd heap \<Rightarrow> 'd heap option" where
  "set_prev a v h = do {
     nd \<leftarrow> nodes h a;
     Some (h\<lparr>nodes := (nodes h)(a \<mapsto> nd\<lparr>nd_prev := v\<rparr>)\<rparr>)
   }"

definition set_data :: "addr \<Rightarrow> addr option \<Rightarrow> 'd heap \<Rightarrow> 'd heap option" where
  "set_data a v h = do {
     nd \<leftarrow> nodes h a;
     Some (h\<lparr>nodes := (nodes h)(a \<mapsto> nd\<lparr>nd_data := v\<rparr>)\<rparr>)
   }"

text \<open>free(NULL) does nothing; free of an address that is not allocated is a fault.\<close>

definition free_block :: "addr option \<Rightarrow> 'd heap \<Rightarrow> 'd heap option" where
  "free_block p h = (case p of None \<Rightarrow> Some h
     | Some d \<Rightarrow> (if blocks h d = None then None else Some (h\<lparr>blocks := (blocks h)(d := None)\<rparr>)))"

definition free_node :: "addr \<Rightarrow> 'd heap \<Rightarrow> 'd heap option" where
  "free_node a h = (if nodes h a = None then None else Some (h\<lparr>nodes := (nodes h)(a := None)\<rparr>))"

text \<open>free(n->data); free(n);\<close>

definition free_cell :: "addr \<Rightarrow> 'd heap \<Rightarrow> 'd heap option" where
  "free_cell n h = do {
     nd \<leftarrow> nodes h n;
     h \<leftarrow> free_block (nd_data nd) h;
     free_node n h
   }"

partial_function (option) last_node :: "'d heap \<Rightarrow> addr \<Rightarrow> addr option" where
  "last_node h cur = do {
     nd \<leftarrow> nodes h cur;
     (case nd_next nd of None \<Rightarrow> Some cur | Some b \<Rightarrow> last_node h b)
   }"

definition node_push_back :: "addr \<Rightarrow> addr \<Rightarrow> 'd heap \<Rightarrow> 'd heap option" where
  "node_push_back head n h = do {
     cur \<leftarrow> last_node h head;
     h \<leftarrow> set_next cur (Some n) h;
     set_prev n (Some cur) h
   }"

text \<open>The head pointer is passed by reference: the result is the new head and the new heap.\<close>

definition node_remove :: "addr option \<Rightarrow> addr \<Rightarrow> 'd heap \<Rightarrow> (addr option \<times> 'd heap) option" where
  "node_remove head n h = do {
     nd \<leftarrow> nodes h n;
     (case (nd_prev nd, nd_next nd) of
        (None, None) \<Rightarrow> do { h \<leftarrow> free_cell n h; Some (None, h) }
      | (None, Some b) \<Rightarrow> do { h \<leftarrow> set_prev b None h; h \<leftarrow> free_cell n h; Some (Some b, h) }
      | (Some a, None) \<Rightarrow> do { h \<leftarrow> set_next a None h; h \<leftarrow> free_cell n h; Some (head, h) }
      | (Some a, Some b) \<Rightarrow> do {
          h \<leftarrow> set_next a (Some b) h;
          h \<leftarrow> set_prev b (Some a) h;
          h \<leftarrow> free_cell n h;
          Some (head, h) })
   }"

partial_function (option) node_length_from :: "'d heap \<Rightarrow> addr option \<Rightarrow> int \<Rightarrow> int option" where
  "node_length_from h walker len = (case walker of
     None \<Rightarrow> Some len
   | Some a \<Rightarrow> do { nd \<leftarrow> nodes h a; node_length_from h (nd_next nd) (len + 1) })"

definition node_length :: "'d heap \<Rightarrow> addr option \<Rightarrow> int option" where
  "node_length h head = node_length_from h head 0"

text \<open>
  The deletion loop that the tables use (\<^verbatim>\<open>del_route\<close>, \<^verbatim>\<open>del_arp_cache\<close>, \<^verbatim>\<open>expire_arp_cache\<close>,
  ...): the successor is read before the current node is removed.
\<close>

partial_function (option) remove_loop ::
  "('d \<Rightarrow> bool) \<Rightarrow> addr option \<Rightarrow> addr option \<Rightarrow> 'd heap \<Rightarrow> (addr option \<times> 'd heap) option" where
  "remove_loop P head cur h = (case cur of
     None \<Rightarrow> Some (head, h)
   | Some a \<Rightarrow> do {
       nd \<leftarrow> nodes h a;
       d \<leftarrow> nd_data nd;
       x \<leftarrow> blocks h d;
       (if P x then do { (head, h) \<leftarrow> node_remove head a h; remove_loop P head (nd_next nd) h }
        else remove_loop P head (nd_next nd) h) })"

text \<open>
  The loop in \<^verbatim>\<open>iface_up\<close> and \<^verbatim>\<open>iface_down\<close> that is meant to clear the neighbours of an
  interface: it removes \<^verbatim>\<open>cur\<close> and does not advance.
\<close>

partial_function (option) clear_nbr_loop ::
  "addr option \<Rightarrow> addr option \<Rightarrow> 'd heap \<Rightarrow> (addr option \<times> 'd heap) option" where
  "clear_nbr_loop head cur h = (case cur of
     None \<Rightarrow> Some (head, h)
   | Some a \<Rightarrow> do { (head, h) \<leftarrow> node_remove head a h; clear_nbr_loop head cur h })"

subsection \<open>Lists on the heap\<close>

definition firstc :: "(addr \<times> addr) list \<Rightarrow> addr option \<Rightarrow> addr option" where
  "firstc cs q = (case cs of [] \<Rightarrow> q | c # _ \<Rightarrow> Some (fst c))"

definition lastp :: "addr option \<Rightarrow> (addr \<times> addr) list \<Rightarrow> addr option" where
  "lastp p cs = (if cs = [] then p else Some (fst (last cs)))"

text \<open>The cells \<open>(node, data)\<close> from the node after \<open>p\<close> up to the node before \<open>q\<close>.\<close>

fun dseg :: "(addr \<rightharpoonup> dnode) \<Rightarrow> addr option \<Rightarrow> (addr \<times> addr) list \<Rightarrow> addr option \<Rightarrow> bool" where
  "dseg N p [] q = True"
| "dseg N p ((a, d) # cs) q =
     (N a = Some \<lparr>nd_prev = p, nd_next = firstc cs q, nd_data = Some d\<rparr> \<and> dseg N (Some a) cs q)"

definition dlist :: "'d heap \<Rightarrow> addr option \<Rightarrow> (addr \<times> addr) list \<Rightarrow> 'd list \<Rightarrow> bool" where
  "dlist h head cs xs \<longleftrightarrow> distinct (map fst cs) \<and> distinct (map snd cs) \<and>
     head = firstc cs None \<and> dseg (nodes h) None cs None \<and>
     map (\<lambda>c. blocks h (snd c)) cs = map Some xs"

lemma firstc_simps [simp]: "firstc [] q = q" "firstc (c # cs) q = Some (fst c)"
  by (simp_all add: firstc_def)

lemma firstc_append [simp]: "firstc (xs @ ys) q = firstc xs (firstc ys q)"
  by (cases xs) simp_all

lemma lastp_simps [simp]: "lastp p [] = p" "lastp p (cs @ [c]) = Some (fst c)"
  by (simp_all add: lastp_def)

lemma lastp_Cons: "lastp p (c # cs) = lastp (Some (fst c)) cs"
  by (cases cs) (simp_all add: lastp_def)

lemma dseg_append [simp]:
  "dseg N p (xs @ ys) q \<longleftrightarrow> dseg N p xs (firstc ys q) \<and> dseg N (lastp p xs) ys q"
  by (induction N p xs "firstc ys q" rule: dseg.induct) (auto simp: lastp_Cons)

lemma dseg_upd [simp]:
  "a \<notin> fst ` set cs \<Longrightarrow> dseg (N(a := x)) p cs q = dseg N p cs q"
  by (induction N p cs q rule: dseg.induct) auto

lemma dseg_in_heap: "dseg N p cs q \<Longrightarrow> a \<in> fst ` set cs \<Longrightarrow> \<exists>nd. N a = Some nd"
  by (induction N p cs q rule: dseg.induct) auto


lemmas node_op_defs = set_next_def set_prev_def set_data_def free_cell_def free_block_def
  free_node_def

lemma last_node_dseg:
  "dseg (nodes h) p cs None \<Longrightarrow> cs \<noteq> [] \<Longrightarrow> last_node h (fst (hd cs)) = Some (fst (last cs))"
proof (induction cs arbitrary: p)
  case (Cons c cs)
  obtain a d where c: "c = (a, d)" by (cases c)
  show ?case
  proof (cases cs)
    case Nil
    with Cons.prems c show ?thesis by (simp add: last_node.simps)
  next
    case (Cons c' cs')
    with Cons.prems Cons.IH [of "Some a"] c show ?thesis
      by (subst last_node.simps) simp
  qed
qed simp

lemma map_blocks_upd [simp]:
  "d \<notin> snd ` set cs \<Longrightarrow>
     map (\<lambda>c. if snd c = d then x else B (snd c)) cs = map (\<lambda>c. B (snd c)) cs"
  by (auto intro: map_cong)

lemma node_push_back_dlist:
  assumes l: "dlist h (Some head) cs xs"
    and n: "nodes h n = Some \<lparr>nd_prev = None, nd_next = None, nd_data = Some d\<rparr>"
    and new: "n \<notin> fst ` set cs" "d \<notin> snd ` set cs" "blocks h d = Some x"
  shows "\<exists>h'. node_push_back head n h = Some h' \<and> dlist h' (Some head) (cs @ [(n, d)]) (xs @ [x]) \<and>
    blocks h' = blocks h"
proof -
  from l have "cs \<noteq> []" by (auto simp: dlist_def)
  then obtain us a e where cs: "cs = us @ [(a, e)]" by (metis rev_exhaust surj_pair)
  from l have hd: "head = fst (hd cs)" by (auto simp: dlist_def firstc_def split: list.splits)
  from l have seg: "dseg (nodes h) None cs None" by (simp add: dlist_def)
  then have last: "last_node h head = Some a"
    using last_node_dseg [OF seg \<open>cs \<noteq> []\<close>] hd cs by simp
  with l n new cs show ?thesis
    by (auto simp: node_push_back_def node_op_defs dlist_def)
qed

lemma node_remove_dlist:
  assumes l: "dlist h head (us @ (n, d) # vs) (xs @ x # ys)" and len: "length xs = length us"
  shows "\<exists>head' h'. node_remove head n h = Some (head', h') \<and> dlist h' head' (us @ vs) (xs @ ys) \<and>
    nodes h' n = None \<and> blocks h' = (blocks h)(d := None) \<and>
    (\<forall>a. a \<notin> fst ` set (us @ (n, d) # vs) \<longrightarrow> nodes h' a = nodes h a)"
proof -
  from l len have vals: "map Some xs = map (\<lambda>c. blocks h (snd c)) us" "blocks h d = Some x"
      "map Some ys = map (\<lambda>c. blocks h (snd c)) vs"
    by (auto simp: dlist_def append_eq_append_conv dest!: sym)
  note defs = node_remove_def node_op_defs dlist_def vals
  show ?thesis
  proof (cases us rule: rev_cases)
    case Nil
    then show ?thesis
      using l vals(2) by (cases vs) (auto simp: defs)
  next
    case (snoc us' c)
    then obtain b e where us: "us = us' @ [(b, e)]" by (cases c) auto
    show ?thesis
      using l vals(2) us by (cases vs) (auto simp: defs)
  qed
qed

lemma dlist_lengths: "dlist h head cs xs \<Longrightarrow> length cs = length xs"
  by (metis dlist_def length_map)

lemma dlist_cell:
  assumes l: "dlist h head (us @ (n, d) # vs) (xs @ x # ys)" and len: "length xs = length us"
  shows "nodes h n = Some \<lparr>nd_prev = lastp None us, nd_next = firstc vs None, nd_data = Some d\<rparr>"
    and "blocks h d = Some x"
proof -
  from l show "nodes h n =
      Some \<lparr>nd_prev = lastp None us, nd_next = firstc vs None, nd_data = Some d\<rparr>"
    by (simp add: dlist_def)
  from l len show "blocks h d = Some x"
    by (auto simp: dlist_def append_eq_append_conv)
qed

lemma remove_loop_dlist:
  assumes "dlist h head (us @ vs) (xs @ ys)" and "length xs = length us"
  shows "\<exists>head' h' ws. remove_loop P head (firstc vs None) h = Some (head', h') \<and>
    dlist h' head' (us @ ws) (xs @ filter (\<lambda>y. \<not> P y) ys)"
  using assms
proof (induction vs arbitrary: h head us xs ys)
  case Nil
  then have "ys = []" by (auto dest: dlist_lengths)
  with Nil show ?case by (auto simp: remove_loop.simps intro: exI [of _ "[]"])
next
  case (Cons c vs)
  obtain n d where c: "c = (n, d)" by (cases c)
  from Cons.prems dlist_lengths [OF Cons.prems(1)] obtain y ys' where ys: "ys = y # ys'"
    by (cases ys) auto
  note cell = dlist_cell [OF Cons.prems(1) [unfolded c ys] Cons.prems(2)]
  show ?case
  proof (cases "P y")
    case True
    from node_remove_dlist [OF Cons.prems(1) [unfolded c ys] Cons.prems(2)] obtain head1 h1
      where rem: "node_remove head n h = Some (head1, h1)" "dlist h1 head1 (us @ vs) (xs @ ys')"
      by auto
    from Cons.IH [OF rem(2) Cons.prems(2)] True rem(1) cell c ys show ?thesis
      by (subst remove_loop.simps) auto
  next
    case False
    from Cons.prems c ys have "dlist h head ((us @ [(n, d)]) @ vs) ((xs @ [y]) @ ys')" by simp
    from Cons.IH [OF this] Cons.prems(2) obtain head1 h1 ws
      where "remove_loop P head (firstc vs None) h = Some (head1, h1)"
        "dlist h1 head1 (us @ (n, d) # ws) (xs @ y # filter (\<lambda>y. \<not> P y) ys')" by auto
    with False cell c ys show ?thesis
      by (subst remove_loop.simps) (auto intro: exI [of _ "(n, d) # ws"])
  qed
qed

lemma node_length_from_dseg:
  "dseg (nodes h) p cs None \<Longrightarrow>
     node_length_from h (firstc cs None) k = Some (k + int (length cs))"
proof (induction cs arbitrary: p k)
  case Nil
  then show ?case by (simp add: node_length_from.simps)
next
  case (Cons c cs)
  then show ?case
    using Cons.IH [of "Some (fst c)" "k + 1"]
    by (cases c) (simp add: node_length_from.simps [of _ "Some _"])
qed

text \<open>
  Removing a node from a doubly linked list, at its head, its end or in between, takes
  exactly that element out of the list, keeps the links of the others intact and frees the
  node and its data.
\<close>

theorem node_remove_correct:
  assumes "dlist h head (us @ (n, d) # vs) (xs @ x # ys)" and "length xs = length us"
  shows "\<exists>head' h'. node_remove head n h = Some (head', h') \<and>
    dlist h' head' (us @ vs) (xs @ ys) \<and> nodes h' n = None \<and> blocks h' d = None"
  using node_remove_dlist [OF assms] by fastforce

text \<open>A heap with a list of three entries: nodes at 1, 2 and 3, their data at 11, 12 and 13.\<close>

definition heap3 :: "nat heap" where
  "heap3 = \<lparr>nodes = [1 \<mapsto> \<lparr>nd_prev = None, nd_next = Some 2, nd_data = Some 11\<rparr>,
      2 \<mapsto> \<lparr>nd_prev = Some 1, nd_next = Some 3, nd_data = Some 12\<rparr>,
      3 \<mapsto> \<lparr>nd_prev = Some 2, nd_next = None, nd_data = Some 13\<rparr>],
    blocks = [11 \<mapsto> 100, 12 \<mapsto> 101, 13 \<mapsto> 102]\<rparr>"

lemma dlist_heap3: "dlist heap3 (Some 1) [(1, 11), (2, 12), (3, 13)] [100, 101, 102]"
  by (simp add: dlist_def heap3_def)

theorem node_remove_correct_witness:
  "\<exists>head' h'. node_remove (Some 1) 2 heap3 = Some (head', h') \<and>
    dlist h' head' ([(1, 11)] @ [(3, 13)]) ([100] @ [102]) \<and>
    nodes h' 2 = None \<and> blocks h' 12 = None"
  using node_remove_correct [of heap3 "Some 1" "[(1, 11)]" 2 12 "[(3, 13)]" "[100]" 101 "[102]"]
    dlist_heap3 by simp

text \<open>
  C29. The deletion loop that the tables share (read the successor, then remove the node if it
  matches) turns the list of entries into its filter, whatever the predicate: no entry is
  skipped and no freed node is used.
\<close>

theorem remove_loop_filter:
  assumes "dlist h head cs xs"
  shows "\<exists>head' h' ws. remove_loop P head head h = Some (head', h') \<and>
    dlist h' head' ws (filter (\<lambda>x. \<not> P x) xs)"
  using remove_loop_dlist [of h head "[]" cs "[]" xs P] assms by (auto simp: dlist_def)

theorem remove_loop_filter_witness:
  "\<exists>head' h' ws. remove_loop odd (Some 1) (Some 1) heap3 = Some (head', h') \<and>
    dlist h' head' ws (filter (\<lambda>x. \<not> odd x) [100, 101, 102])"
  by (rule remove_loop_filter [OF dlist_heap3])

text \<open>
  C40. The loop with which \<^verbatim>\<open>iface_up\<close> and \<^verbatim>\<open>iface_down\<close> clear the neighbours of an interface
  never returns normally on a list that is not empty: it frees the first node and then uses
  it again.
\<close>

theorem clear_nbr_loop_faults:
  assumes l: "dlist h head cs xs" and ne: "cs \<noteq> []"
  shows "clear_nbr_loop head head h = None"
proof -
  from ne obtain n d vs where cs: "cs = (n, d) # vs" by (metis neq_Nil_conv surj_pair)
  with l dlist_lengths [OF l] obtain x ys where xs: "xs = x # ys" by (cases xs) auto
  have head: "head = Some n" using l cs by (simp add: dlist_def)
  from node_remove_dlist [of h head "[]" n d vs "[]" x ys] l cs xs obtain head1 h1
    where "node_remove head n h = Some (head1, h1)" "nodes h1 n = None" by auto
  then show ?thesis
    by (simp add: head clear_nbr_loop.simps [of _ "Some n"] node_remove_def)
qed

theorem clear_nbr_loop_faults_witness: "clear_nbr_loop (Some 1) (Some 1) heap3 = None"
  by (rule clear_nbr_loop_faults [OF dlist_heap3]) simp

end
