(* ===== verification/Data_Types.thy ===== *)
theory Data_Types
  imports Prelude
begin

section \<open>The data of the SCONE router (\<^verbatim>\<open>or_data_types.h\<close>)\<close>

text \<open>
  The structs of the router as records and the protocol constants. Addresses and masks are
  the raw words held in memory (network byte order), so the code's conversions with ntohl
  stay visible. A \<^verbatim>\<open>node*\<close> list is a list of its entries in order: the theory
  \<^verbatim>\<open>Node_List\<close> proves that the pointer operations on nodes act as these list operations.
  Fixed char arrays hold the string up to its terminating zero. Times are whole seconds.
\<close>

subsection \<open>Constants\<close>

definition ETH_TYPE_ARP :: u16 where "ETH_TYPE_ARP = 0x0806"
definition ETH_TYPE_IP :: u16 where "ETH_TYPE_IP = 0x0800"
definition ARP_HRD_ETHERNET :: u16 where "ARP_HRD_ETHERNET = 0x0001"
definition ARP_PRO_IP :: u16 where "ARP_PRO_IP = 0x0800"
definition ARP_OP_REQUEST :: u16 where "ARP_OP_REQUEST = 1"
definition ARP_OP_REPLY :: u16 where "ARP_OP_REPLY = 2"
definition IP_PROTO_ICMP :: u8 where "IP_PROTO_ICMP = 0x01"
definition IP_PROTO_TCP :: u8 where "IP_PROTO_TCP = 0x06"
definition IP_PROTO_UDP :: u8 where "IP_PROTO_UDP = 0x11"
definition IP_PROTO_PWOSPF :: u8 where "IP_PROTO_PWOSPF = 0x59"
definition IP_FRAG_DF :: u16 where "IP_FRAG_DF = 0x4000"
definition IP_FRAG_MF :: u16 where "IP_FRAG_MF = 0x2000"
definition IP_FRAG_OFFMASK :: u16 where "IP_FRAG_OFFMASK = 0x1fff"
definition ICMP_TYPE_DESTINATION_UNREACHABLE :: u8 where
  "ICMP_TYPE_DESTINATION_UNREACHABLE = 0x3"
definition ICMP_CODE_NET_UNREACHABLE :: u8 where "ICMP_CODE_NET_UNREACHABLE = 0x0"
definition ICMP_CODE_HOST_UNREACHABLE :: u8 where "ICMP_CODE_HOST_UNREACHABLE = 0x1"
definition ICMP_CODE_PROTOCOL_UNREACHABLE :: u8 where "ICMP_CODE_PROTOCOL_UNREACHABLE = 0x2"
definition ICMP_CODE_PORT_UNREACHABLE :: u8 where "ICMP_CODE_PORT_UNREACHABLE = 0x3"
definition ICMP_CODE_NET_UNKNOWN :: u8 where "ICMP_CODE_NET_UNKNOWN = 0x6"
definition ICMP_TYPE_TIME_EXCEEDED :: u8 where "ICMP_TYPE_TIME_EXCEEDED = 0xB"
definition ICMP_CODE_TTL_EXCEEDED :: u8 where "ICMP_CODE_TTL_EXCEEDED = 0x0"
definition ICMP_TYPE_ECHO_REQUEST :: u8 where "ICMP_TYPE_ECHO_REQUEST = 0x8"
definition ICMP_TYPE_ECHO_REPLY :: u8 where "ICMP_TYPE_ECHO_REPLY = 0x0"
definition ICMP_CODE_ECHO :: u8 where "ICMP_CODE_ECHO = 0x0"
definition PWOSPF_VERSION :: u8 where "PWOSPF_VERSION = 0x2"
definition PWOSPF_TYPE_HELLO :: u8 where "PWOSPF_TYPE_HELLO = 0x1"
definition PWOSPF_TYPE_LINK_STATE_UPDATE :: u8 where "PWOSPF_TYPE_LINK_STATE_UPDATE = 0x4"
definition PWOSPF_HELLO_TIP :: u32 where "PWOSPF_HELLO_TIP = 0xe0000005"
definition PWOSPF_NEIGHBOR_TIMEOUT :: u16 where "PWOSPF_NEIGHBOR_TIMEOUT = 5"
definition PWOSPF_LSUINT :: u32 where "PWOSPF_LSUINT = 30"

lemmas eth_consts = ETH_TYPE_ARP_def ETH_TYPE_IP_def
lemmas arp_consts = ARP_HRD_ETHERNET_def ARP_PRO_IP_def ARP_OP_REQUEST_def ARP_OP_REPLY_def
lemmas ip_consts = IP_PROTO_ICMP_def IP_PROTO_TCP_def IP_PROTO_UDP_def IP_PROTO_PWOSPF_def
  IP_FRAG_DF_def IP_FRAG_MF_def IP_FRAG_OFFMASK_def
lemmas icmp_consts = ICMP_TYPE_DESTINATION_UNREACHABLE_def ICMP_CODE_NET_UNREACHABLE_def
  ICMP_CODE_HOST_UNREACHABLE_def ICMP_CODE_PROTOCOL_UNREACHABLE_def
  ICMP_CODE_PORT_UNREACHABLE_def ICMP_CODE_NET_UNKNOWN_def ICMP_TYPE_TIME_EXCEEDED_def
  ICMP_CODE_TTL_EXCEEDED_def ICMP_TYPE_ECHO_REQUEST_def ICMP_TYPE_ECHO_REPLY_def
  ICMP_CODE_ECHO_def
lemmas pwospf_consts = PWOSPF_VERSION_def PWOSPF_TYPE_HELLO_def
  PWOSPF_TYPE_LINK_STATE_UPDATE_def PWOSPF_HELLO_TIP_def

subsection \<open>Header fields as offsets into a frame\<close>

text \<open>
  The packed headers \<^verbatim>\<open>eth_hdr\<close>, \<^verbatim>\<open>arp_hdr\<close>, \<^verbatim>\<open>ip_hdr\<close>, \<^verbatim>\<open>icmp_hdr\<close>, the NAT views of
  TCP, UDP and ICMP and the PWOSPF headers are byte offsets. Each header is addressed by
  the offset of its first byte, as the pointers returned by the \<^verbatim>\<open>get_..._hdr\<close> functions are.
\<close>

definition ETH_HDR_LEN :: nat where "ETH_HDR_LEN = 14"
definition sizeof_ip_hdr :: nat where "sizeof_ip_hdr = 20"
definition sizeof_arp_hdr :: nat where "sizeof_arp_hdr = 28"
definition sizeof_icmp_hdr :: nat where "sizeof_icmp_hdr = 4"
definition sizeof_nat_icmp_hdr :: nat where "sizeof_nat_icmp_hdr = 8"
definition sizeof_pwospf_hdr :: nat where "sizeof_pwospf_hdr = 24"
definition sizeof_pwospf_hello_hdr :: nat where "sizeof_pwospf_hello_hdr = 8"
definition sizeof_pwospf_lsu_hdr :: nat where "sizeof_pwospf_lsu_hdr = 8"
definition sizeof_pwospf_lsu_adv :: nat where "sizeof_pwospf_lsu_adv = 12"

lemmas hdr_sizes = ETH_HDR_LEN_def sizeof_ip_hdr_def sizeof_arp_hdr_def sizeof_icmp_hdr_def
  sizeof_nat_icmp_hdr_def sizeof_pwospf_hdr_def sizeof_pwospf_hello_hdr_def
  sizeof_pwospf_lsu_hdr_def sizeof_pwospf_lsu_adv_def

definition eth_dhost :: "packet \<Rightarrow> u8 list" where "eth_dhost p = ld_bytes p 0 6"
definition eth_shost :: "packet \<Rightarrow> u8 list" where "eth_shost p = ld_bytes p 6 6"
definition eth_type :: "packet \<Rightarrow> u16" where "eth_type p = ld16 p 12"

definition arp_op :: "packet \<Rightarrow> u16" where "arp_op p = ld16 p 20"
definition arp_sha :: "packet \<Rightarrow> u8 list" where "arp_sha p = ld_bytes p 22 6"
definition arp_sip :: "packet \<Rightarrow> u32" where "arp_sip p = ld32 p 28"
definition arp_tha :: "packet \<Rightarrow> u8 list" where "arp_tha p = ld_bytes p 32 6"
definition arp_tip :: "packet \<Rightarrow> u32" where "arp_tip p = ld32 p 38"

text \<open>On the little-endian host the bit field \<^verbatim>\<open>ip_hl:4\<close> is the low half of the first byte.\<close>

definition ip_hl :: "packet \<Rightarrow> nat \<Rightarrow> u8" where "ip_hl p ip = ld8 p ip AND 0x0F"
definition ip_v :: "packet \<Rightarrow> nat \<Rightarrow> u8" where "ip_v p ip = drop_bit 4 (ld8 p ip)"
definition ip_len :: "packet \<Rightarrow> nat \<Rightarrow> u16" where "ip_len p ip = ld16 p (ip + 2)"
definition ip_off :: "packet \<Rightarrow> nat \<Rightarrow> u16" where "ip_off p ip = ld16 p (ip + 6)"
definition ip_ttl :: "packet \<Rightarrow> nat \<Rightarrow> u8" where "ip_ttl p ip = ld8 p (ip + 8)"
definition ip_p :: "packet \<Rightarrow> nat \<Rightarrow> u8" where "ip_p p ip = ld8 p (ip + 9)"
definition ip_sum :: "packet \<Rightarrow> nat \<Rightarrow> u16" where "ip_sum p ip = ld16 p (ip + 10)"
definition ip_src :: "packet \<Rightarrow> nat \<Rightarrow> u32" where "ip_src p ip = ld32 p (ip + 12)"
definition ip_dst :: "packet \<Rightarrow> nat \<Rightarrow> u32" where "ip_dst p ip = ld32 p (ip + 16)"

lemmas ip_fields = ip_hl_def ip_v_def ip_len_def ip_off_def ip_ttl_def ip_p_def ip_sum_def
  ip_src_def ip_dst_def

text \<open>The pointer functions \<^verbatim>\<open>get_ip_hdr\<close>, \<^verbatim>\<open>get_icmp_hdr\<close> and the NAT and PWOSPF ones.\<close>

definition get_ip_hdr :: nat where "get_ip_hdr = ETH_HDR_LEN"
definition get_icmp_hdr :: nat where "get_icmp_hdr = get_ip_hdr + sizeof_ip_hdr"
definition get_nat_tcp_hdr :: nat where "get_nat_tcp_hdr = ETH_HDR_LEN + sizeof_ip_hdr"
definition get_nat_udp_hdr :: nat where "get_nat_udp_hdr = ETH_HDR_LEN + sizeof_ip_hdr"
definition get_nat_icmp_hdr :: nat where "get_nat_icmp_hdr = ETH_HDR_LEN + sizeof_ip_hdr"
definition get_nat_port_list_from_icmp_data :: nat where
  "get_nat_port_list_from_icmp_data =
     ETH_HDR_LEN + sizeof_ip_hdr + sizeof_nat_icmp_hdr + sizeof_ip_hdr"
definition get_ip_hdr_from_icmp_data :: nat where
  "get_ip_hdr_from_icmp_data = ETH_HDR_LEN + sizeof_ip_hdr + sizeof_nat_icmp_hdr"
definition get_icmp_hdr_from_icmp_data :: nat where
  "get_icmp_hdr_from_icmp_data =
     ETH_HDR_LEN + sizeof_ip_hdr + sizeof_nat_icmp_hdr + sizeof_ip_hdr"
definition get_pwospf_hdr :: nat where "get_pwospf_hdr = ETH_HDR_LEN + sizeof_ip_hdr"
definition get_pwospf_hello_hdr :: nat where
  "get_pwospf_hello_hdr = ETH_HDR_LEN + sizeof_ip_hdr + sizeof_pwospf_hdr"
definition get_pwospf_lsu_hdr :: nat where
  "get_pwospf_lsu_hdr = ETH_HDR_LEN + sizeof_ip_hdr + sizeof_pwospf_hdr"
definition get_pwospf_lsu_data :: nat where
  "get_pwospf_lsu_data =
     ETH_HDR_LEN + sizeof_ip_hdr + sizeof_pwospf_hdr + sizeof_pwospf_lsu_hdr"

lemmas hdr_offsets = get_ip_hdr_def get_icmp_hdr_def get_nat_tcp_hdr_def get_nat_udp_hdr_def
  get_nat_icmp_hdr_def get_nat_port_list_from_icmp_data_def get_ip_hdr_from_icmp_data_def
  get_icmp_hdr_from_icmp_data_def get_pwospf_hdr_def get_pwospf_hello_hdr_def
  get_pwospf_lsu_hdr_def get_pwospf_lsu_data_def hdr_sizes

subsection \<open>Table entries\<close>

record rtable_entry =
  re_ip :: u32
  re_gw :: u32
  re_mask :: u32
  re_iface :: string
  re_is_static :: bool
  re_is_active :: bool

record arp_cache_entry =
  ace_ip :: u32
  ace_ha :: "u8 list"
  ace_TTL :: int
  ace_is_static :: int

record arp_queue_entry =
  aqe_out_iface_name :: string
  aqe_next_hop :: u32
  aqe_requests :: int
  aqe_last_req_time :: int
  aqe_head :: "packet list"

record sping_queue_entry =
  sqe_packet :: packet
  sqe_arrival_time :: int

record nbr_router =
  nbr_router_id :: u32
  nbr_ip :: u32
  nbr_last_rcvd_hello :: int

record iface_entry =
  if_name :: string
  if_addr :: "u8 list"
  if_ip :: u32
  if_mask :: u32
  if_speed :: u32
  if_is_active :: bool
  if_last_sent_hello :: int
  if_nbr_routers :: "nbr_router list"
  if_is_wan :: u8

record pwospf_interface =
  pi_subnet :: u32
  pi_mask :: u32
  pi_router_id :: u32
  pi_is_active :: bool

text \<open>
  \<^verbatim>\<open>prev_router\<close> points to another entry of the router list. The list holds one router per
  identifier and identifiers are never rewritten, so the pointer is the identifier of the
  router it points to; following it to a router that has left the list is a dangling access.
\<close>

record pwospf_router =
  r_router_id :: u32
  r_area_id :: u32
  r_seq :: u16
  r_last_update :: int
  r_distance :: u32
  r_shortest_path_found :: bool
  r_interface_list :: "pwospf_interface list"
  r_prev_router :: "u32 option"

record pwospf_lsu_queue_entry =
  lqe_ip :: u32
  lqe_iface :: string
  lqe_packet :: packet

record nat_ip_port_pair =
  np_ip :: u32
  np_port :: u16
  np_checksum :: u16
  np_checksum_ip :: u16
  np_checksum_port :: u16

record nat_entry =
  ne_ext :: nat_ip_port_pair
  ne_int :: nat_ip_port_pair
  ne_last_hits :: u32
  ne_last_hits_time :: int
  ne_hits :: u32
  ne_hw_row :: u8
  ne_is_static :: bool

record local_ip_filter_entry =
  lif_ip :: u32
  lif_name :: string

text \<open>
  The registers of the forwarding hardware that the router writes, by their names in
  \<^verbatim>\<open>reg_defines.h\<close> (a generated file that is not in the repository), and the table sizes
  and base addresses of that file as parameters.
\<close>

datatype reg =
    INDIRECTWRDATA_A_HI | INDIRECTWRDATA_A_LOW | INDIRECTWRDATA_B_HI | INDIRECTWRDATA_B_LOW
  | INDIRECTREPLY_A_HI | INDIRECTREPLY_A_LOW | INDIRECTREPLY_B_HI | INDIRECTREPLY_B_LOW
  | INDIRECTADDRESS | INDIRECTCOMMAND | MAC_HI nat | MAC_LOW nat
  | PKT_SENT_TO_CPU_ARP_MISS_CNTR | PKT_FORWARDED_CNTR

record hw_config =
  lpm_tcam_width :: nat
  lpm_tcam_address :: u32
  arp_cam_width :: nat
  arp_cam_address :: u32
  dest_ip_cam_width :: nat
  dest_ip_cam_address :: u32

subsection \<open>The router state\<close>

text \<open>
  The tables and settings of \<^verbatim>\<open>struct router_state\<close>. Locks, condition variables and thread
  handles are left out: an operation is what one thread does while it holds its locks. Three
  fields record effects in the order they happen: \<^verbatim>\<open>rs_regs\<close> the register writes,
  \<^verbatim>\<open>rs_sent\<close> the frames handed to \<^verbatim>\<open>sr_integ_low_level_output\<close> with the interface name, and
  \<^verbatim>\<open>rs_tcp_in\<close> the IP packets handed to the TCP stack of the command line.
\<close>

record router_state =
  rs_router_id :: u32
  rs_area_id :: u32
  rs_hello_interval :: u16
  rs_lsu_interval :: u32
  rs_lsu_broadcast :: bool
  rs_dijkstra_dirty :: bool
  rs_is_netfpga :: bool
  rs_arp_ttl :: u32
  rs_nat_timeout :: u32
  rs_rtable :: "rtable_entry list"
  rs_arp_cache :: "arp_cache_entry list"
  rs_if_list :: "iface_entry list"
  rs_arp_queue :: "arp_queue_entry list"
  rs_sping_queue :: "sping_queue_entry list"
  rs_router_list :: "pwospf_router list"
  rs_lsu_queue :: "pwospf_lsu_queue_entry list"
  rs_nat_table :: "nat_entry list"
  rs_ip_filters :: "local_ip_filter_entry list"
  rs_hw :: hw_config
  rs_regs :: "(reg \<times> u32) list"
  rs_sent :: "(packet \<times> string) list"
  rs_tcp_in :: "packet list"

text \<open>The state before anything is set: a zeroed struct with empty lists.\<close>

definition zero_state :: "hw_config \<Rightarrow> router_state" where
  "zero_state hw = \<lparr>rs_router_id = 0, rs_area_id = 0, rs_hello_interval = 0,
     rs_lsu_interval = 0, rs_lsu_broadcast = False, rs_dijkstra_dirty = False,
     rs_is_netfpga = False, rs_arp_ttl = 0, rs_nat_timeout = 0, rs_rtable = [],
     rs_arp_cache = [], rs_if_list = [], rs_arp_queue = [], rs_sping_queue = [],
     rs_router_list = [], rs_lsu_queue = [], rs_nat_table = [], rs_ip_filters = [],
     rs_hw = hw, rs_regs = [], rs_sent = [],
     rs_tcp_in = []\<rparr>"

text \<open>Four-row tables at different base addresses, for concrete instances.\<close>

definition hw4 :: hw_config where
  "hw4 = \<lparr>lpm_tcam_width = 4, lpm_tcam_address = 0, arp_cam_width = 4,
     arp_cam_address = 0x10000000, dest_ip_cam_width = 4, dest_ip_cam_address = 0x20000000\<rparr>"

definition rs0 :: router_state where "rs0 = (zero_state hw4)\<lparr>rs_is_netfpga := True\<rparr>"

lemma rs0_simps [simp]:
  "rs_rtable rs0 = []" "rs_arp_cache rs0 = []" "rs_if_list rs0 = []" "rs_arp_queue rs0 = []"
  "rs_router_list rs0 = []" "rs_nat_table rs0 = []" "rs_ip_filters rs0 = []"
  "rs_lsu_queue rs0 = []" "rs_sping_queue rs0 = []" "rs_regs rs0 = []" "rs_sent rs0 = []"
  "rs_tcp_in rs0 = []" "rs_is_netfpga rs0" "rs_hw rs0 = hw4"
  by (simp_all add: rs0_def zero_state_def)

end
