(* ===== verification/Bubble_Sort.thy ===== *)
theory Bubble_Sort
  imports Prelude
begin

section \<open>The bubble sort of the tables\<close>

text \<open>
  \<^verbatim>\<open>trigger_rtable_modified\<close>, \<^verbatim>\<open>trigger_local_ip_filters_change\<close> and the NAT maintenance
  thread sort their list with the same loop: walk the list, swap the data of two
  neighbours when the first belongs behind the second, and repeat the walk until none was
  swapped. The loop need not stop for an arbitrary swap test, so its result is an option.
  The locale \<open>swap_below\<close> states what the test has to satisfy for the loop to return, and
  \<open>swap_order\<close> what it has to satisfy for the result to be the stable sort of the list.
\<close>

text \<open>One walk: the list after it and whether anything was swapped.\<close>

fun bubble_pass :: "('a \<Rightarrow> 'a \<Rightarrow> bool) \<Rightarrow> 'a list \<Rightarrow> 'a list \<times> bool" where
  "bubble_pass swap (a # b # xs) =
     (if swap a b then (let (ys, s) = bubble_pass swap (a # xs) in (b # ys, True))
      else (let (ys, s) = bubble_pass swap (b # xs) in (a # ys, s)))"
| "bubble_pass swap xs = (xs, False)"

partial_function (option) bubble_sort :: "('a \<Rightarrow> 'a \<Rightarrow> bool) \<Rightarrow> 'a list \<Rightarrow> 'a list option" where
  "bubble_sort swap xs =
     (case bubble_pass swap xs of
        (ys, swapped) \<Rightarrow> if swapped then bubble_sort swap ys else Some ys)"

text \<open>The number of pairs that stand in the wrong order.\<close>

fun inversions :: "('a \<Rightarrow> 'a \<Rightarrow> bool) \<Rightarrow> 'a list \<Rightarrow> nat" where
  "inversions swap [] = 0"
| "inversions swap (x # xs) = length (filter (swap x) xs) + inversions swap xs"

lemma mset_bubble_pass [simp]: "mset (fst (bubble_pass swap xs)) = mset xs"
  by (induction swap xs rule: bubble_pass.induct) (auto simp: split_beta)

lemma length_filter_mset:
  "mset xs = mset ys \<Longrightarrow> length (filter P xs) = length (filter P ys)"
  by (metis mset_filter size_mset)

lemma bubble_pass_sorted:
  "\<not> snd (bubble_pass swap xs) \<Longrightarrow> fst (bubble_pass swap xs) = xs \<and>
     successively (\<lambda>a b. \<not> swap a b) xs"
  by (induction swap xs rule: bubble_pass.induct) (auto simp: split_beta split: if_splits)

text \<open>
  The contract of an order test: it is asymmetric and its negation is transitive (a strict
  weak order).
\<close>

locale swap_order =
  fixes swap :: "'a \<Rightarrow> 'a \<Rightarrow> bool"
  assumes asym: "swap a b \<Longrightarrow> \<not> swap b a"
    and neg_trans: "\<not> swap a b \<Longrightarrow> \<not> swap b c \<Longrightarrow> \<not> swap a c"

text \<open>
  The contract of a swap test that only swaps what such an order has in the wrong order. It
  may leave a wrong pair alone, so the loop returns but need not sort.
\<close>

locale swap_below = order: swap_order lt for lt :: "'a \<Rightarrow> 'a \<Rightarrow> bool" +
  fixes test :: "'a \<Rightarrow> 'a \<Rightarrow> bool"
  assumes test_lt: "test a b \<Longrightarrow> lt a b"
begin

lemma inversions_pass_Cons:
  "inversions lt (fst (bubble_pass test (a # xs))) \<le> inversions lt (a # xs) \<and>
   (snd (bubble_pass test (a # xs)) \<longrightarrow>
     inversions lt (fst (bubble_pass test (a # xs))) < inversions lt (a # xs))"
proof (induction xs arbitrary: a)
  case (Cons b xs)
  have count: "length (filter (lt c) (fst (bubble_pass test ys))) = length (filter (lt c) ys)"
    for c ys by (rule length_filter_mset) simp
  show ?case
  proof (cases "test a b")
    case True
    from test_lt [OF True] order.asym have "lt a b" "\<not> lt b a" by blast+
    with True show ?thesis
      using Cons.IH [of a] count [of b "a # xs"] by (auto simp: split_beta)
  next
    case False
    then show ?thesis
      using Cons.IH [of b] count [of a "b # xs"] by (auto simp: split_beta)
  qed
qed simp

lemma inversions_pass:
  "snd (bubble_pass test xs) \<Longrightarrow>
     inversions lt (fst (bubble_pass test xs)) < inversions lt xs"
  using inversions_pass_Cons by (cases xs) auto

lemma bubble_sort_permutes: "\<exists>ys. bubble_sort test xs = Some ys \<and> mset ys = mset xs"
proof (induction "inversions lt xs" arbitrary: xs rule: less_induct)
  case less
  show ?case
  proof (cases "snd (bubble_pass test xs)")
    case True
    from less [OF inversions_pass [OF True]] True show ?thesis
      by (subst bubble_sort.simps) (auto simp: split_beta)
  next
    case False
    with bubble_pass_sorted [OF False] show ?thesis
      by (subst bubble_sort.simps) (simp add: split_beta)
  qed
qed

end

sublocale swap_order \<subseteq> own: swap_below swap swap
  by unfold_locales

context swap_order begin

lemma successively_not_swap:
  assumes "successively (\<lambda>a b. \<not> swap a b) xs"
  shows "sorted_wrt (\<lambda>a b. \<not> swap a b) xs"
proof -
  have "transp (\<lambda>a b. \<not> swap a b)" by (rule transpI) (rule neg_trans)
  from successively_conv_sorted_wrt [OF this] assms show ?thesis by simp
qed

text \<open>Elements that compare equal keep their order: a swap needs a strict difference.\<close>

lemma bubble_pass_stable:
  "filter (\<lambda>x. \<not> swap x c \<and> \<not> swap c x) (fst (bubble_pass swap (a # xs))) =
     filter (\<lambda>x. \<not> swap x c \<and> \<not> swap c x) (a # xs)"
proof (induction xs arbitrary: a)
  case (Cons b xs)
  have "\<not> swap a b" if "\<not> swap a c" "\<not> swap c b"
    using that neg_trans by blast
  then show ?case
    using Cons.IH [of a] Cons.IH [of b] by (cases "swap a b") (auto simp: split_beta)
qed simp

lemma bubble_sort_spec:
  assumes "bubble_sort swap xs = Some ys"
  shows "mset ys = mset xs \<and> sorted_wrt (\<lambda>a b. \<not> swap a b) ys \<and>
    (\<forall>c. filter (\<lambda>x. \<not> swap x c \<and> \<not> swap c x) ys = filter (\<lambda>x. \<not> swap x c \<and> \<not> swap c x) xs)"
  using assms
proof (induction "inversions swap xs" arbitrary: xs rule: less_induct)
  case less
  let ?zs = "fst (bubble_pass swap xs)"
  have stable: "filter (\<lambda>x. \<not> swap x c \<and> \<not> swap c x) ?zs =
      filter (\<lambda>x. \<not> swap x c \<and> \<not> swap c x) xs" for c
    using bubble_pass_stable by (cases xs) auto
  show ?case
  proof (cases "snd (bubble_pass swap xs)")
    case True
    with less.prems have "bubble_sort swap ?zs = Some ys"
      by (subst (asm) bubble_sort.simps) (simp add: split_beta)
    from less.hyps [OF own.inversions_pass [OF True] this] stable show ?thesis by simp
  next
    case False
    with less.prems have "ys = xs" using bubble_pass_sorted [OF False]
      by (subst (asm) bubble_sort.simps) (simp add: split_beta)
    with bubble_pass_sorted [OF False] successively_not_swap show ?thesis by simp
  qed
qed

lemma bubble_sort_total:
  "\<exists>ys. bubble_sort swap xs = Some ys \<and> mset ys = mset xs \<and>
     sorted_wrt (\<lambda>a b. \<not> swap a b) ys"
  using own.bubble_sort_permutes [of xs] bubble_sort_spec by blast

text \<open>Sorting a sorted list changes nothing.\<close>

lemma bubble_sort_sorted:
  assumes "sorted_wrt (\<lambda>a b. \<not> swap a b) xs"
  shows "bubble_sort swap xs = Some xs"
proof -
  have "bubble_pass swap xs = (xs, False)"
    using assms by (induction swap xs rule: bubble_pass.induct) (auto split: prod.splits)
  then show ?thesis by (subst bubble_sort.simps) simp
qed

end

text \<open>Comparing by a key of a linear order, larger keys first, is such a test.\<close>

lemma swap_order_key:
  fixes key :: "'a \<Rightarrow> 'k::linorder"
  assumes "\<And>a b. swap a b \<longleftrightarrow> key a < key b"
  shows "swap_order swap"
  by unfold_locales (auto simp: assms)

end
