(* ===== verification/Or_Netfpga.thy ===== *)
theory Or_Netfpga
  imports Data_Types Bubble_Sort "HOL-Library.List_Lexorder" "HOL-Library.Char_ord"
begin

section \<open>Ports, registers and the destination filters of the hardware (\<^verbatim>\<open>or_netfpga.c\<close>)\<close>

text \<open>
  The port names and their numbers, the register write that the other parts use, and the
  local IP filter table: lookups, insertion, and the sort and hardware update that follow
  every change.
\<close>

subsection \<open>Port names\<close>

definition ETH0 :: string where "ETH0 = ''eth0''"
definition ETH1 :: string where "ETH1 = ''eth1''"
definition CPU0 :: string where "CPU0 = ''cpu0''"
definition CPU1 :: string where "CPU1 = ''cpu1''"

lemmas port_names = ETH0_def ETH1_def CPU0_def CPU1_def

text \<open>An unknown name runs into \<^verbatim>\<open>assert(0)\<close>.\<close>

definition getPortNumber :: "string \<Rightarrow> u8 option" where
  "getPortNumber name =
     (if name = ETH0 then Some 0
      else if name = ETH1 then Some 1
      else None)"

definition getOneHotPortNumber :: "string \<Rightarrow> u32 option" where
  "getOneHotPortNumber name =
     (if name = ETH0 then Some 1
      else if name = ETH1 then Some 4
      else if name = CPU0 then Some 2
      else if name = CPU1 then Some 8
      else None)"

definition getIfaceFromOneHotPortNumber :: "nat \<Rightarrow> u32 \<Rightarrow> string" where
  "getIfaceFromOneHotPortNumber len port =
     (if port = 1 then take len ETH0
      else if port = 2 then take len CPU0
      else if port = 4 then take len ETH1
      else if port = 8 then take len CPU1
      else [])"

definition get_incoming_interface :: "nat \<Rightarrow> nat \<Rightarrow> string option" where
  "get_incoming_interface len queue =
     (if 3 < queue then None
      else if queue = 0 then Some (take len ETH0)
      else if queue = 1 then Some (take len ETH1)
      else Some [])"

lemma getOneHotPortNumber_nonzero: "getOneHotPortNumber name = Some p \<Longrightarrow> p \<noteq> 0"
  by (auto simp: getOneHotPortNumber_def split: if_splits)

text \<open>
  The one-hot port number of every port name decodes to that name again, so no two port
  names share a number.
\<close>

theorem one_hot_roundtrip:
  assumes "getOneHotPortNumber name = Some p" and "4 \<le> len"
  shows "getIfaceFromOneHotPortNumber len p = name"
  using assms
  by (auto simp: getOneHotPortNumber_def getIfaceFromOneHotPortNumber_def port_names
      split: if_splits)

theorem one_hot_roundtrip_witness:
  "getIfaceFromOneHotPortNumber 32 4 = ''eth1''"
  by (rule one_hot_roundtrip) (simp_all add: getOneHotPortNumber_def port_names)

subsection \<open>Registers\<close>

definition writeReg :: "reg \<Rightarrow> u32 \<Rightarrow> router_state \<Rightarrow> router_state" where
  "writeReg r v rs = rs\<lparr>rs_regs := rs_regs rs @ [(r, v)]\<rparr>"

lemma writeReg_rs_regs [simp]: "rs_regs (writeReg r v rs) = rs_regs rs @ [(r, v)]"
  by (simp add: writeReg_def)

lemma writeReg_frame [simp, frame_simps]:
  "rs_rtable (writeReg r v rs) = rs_rtable rs"
  "rs_arp_cache (writeReg r v rs) = rs_arp_cache rs"
  "rs_arp_queue (writeReg r v rs) = rs_arp_queue rs"
  "rs_arp_ttl (writeReg r v rs) = rs_arp_ttl rs"
  "rs_router_list (writeReg r v rs) = rs_router_list rs"
  "rs_router_id (writeReg r v rs) = rs_router_id rs"
  "rs_if_list (writeReg r v rs) = rs_if_list rs"
  "rs_ip_filters (writeReg r v rs) = rs_ip_filters rs"
  "rs_is_netfpga (writeReg r v rs) = rs_is_netfpga rs"
  "rs_hw (writeReg r v rs) = rs_hw rs"
  "rs_sent (writeReg r v rs) = rs_sent rs"
  by (simp_all add: writeReg_def)

text \<open>
  What an access does to the hardware (the indirect access of
  \<^verbatim>\<open>output_port_lookup_cpu_regs.v\<close>): a register holds what was written to it; bit 0 of the
  command register starts a command on the row that the address register names, which bit 4
  makes a read into the reply registers and otherwise stores the data registers in the row.
  The state is the registers and the tables by address. A command is over before the next
  access of the program.
\<close>

type_synonym hw_state = "(reg \<Rightarrow> u32) \<times> (u32 \<Rightarrow> (reg \<Rightarrow> u32))"

definition hw_reply :: "(reg \<Rightarrow> u32) \<Rightarrow> (reg \<Rightarrow> u32) \<Rightarrow> (reg \<Rightarrow> u32)" where
  "hw_reply row R = R(
     INDIRECTREPLY_A_HI := row INDIRECTWRDATA_A_HI, INDIRECTREPLY_A_LOW := row INDIRECTWRDATA_A_LOW,
     INDIRECTREPLY_B_HI := row INDIRECTWRDATA_B_HI, INDIRECTREPLY_B_LOW := row INDIRECTWRDATA_B_LOW)"

fun hw_write :: "hw_state \<Rightarrow> reg \<times> u32 \<Rightarrow> hw_state" where
  "hw_write (R, T) (r, v) =
     (if r = INDIRECTCOMMAND \<and> bit v 0
      then (if bit v 4 then (hw_reply (T (R INDIRECTADDRESS)) R, T)
            else (R, T(R INDIRECTADDRESS := R)))
      else (R(r := v), T))"

definition hw_replay :: "(reg \<times> u32) list \<Rightarrow> hw_state \<Rightarrow> hw_state" where
  "hw_replay ws S = foldl hw_write S ws"

lemma hw_replay_append: "hw_replay (ws @ vs) S = hw_replay vs (hw_replay ws S)"
  by (simp add: hw_replay_def)

lemma hw_replay_simps [simp]:
  "hw_replay [] S = S" "hw_replay (w # ws) S = hw_replay ws (hw_write S w)"
  by (simp_all add: hw_replay_def)

text \<open>
  The interface of a hardware table: writing a row stores it at its address and nowhere else.
  A table written row by row then holds the rows that were written.
\<close>

locale hw_table =
  fixes write_row :: "'row \<Rightarrow> nat \<Rightarrow> router_state \<Rightarrow> router_state"
    and base :: "hw_config \<Rightarrow> u32"
    and row_of :: "(reg \<Rightarrow> u32) \<Rightarrow> 'row"
  assumes other: "a \<noteq> base (rs_hw rs) OR of_nat i \<Longrightarrow>
      snd (hw_replay (rs_regs (write_row r i rs)) S) a = snd (hw_replay (rs_regs rs) S) a"
    and same: "row_of (snd (hw_replay (rs_regs (write_row r i rs)) S) (base (rs_hw rs) OR of_nat i)) = r"
    and hw: "rs_hw (write_row r i rs) = rs_hw rs"
begin

lemma hw_fold: "rs_hw (fold (case_prod write_row) xs rs) = rs_hw rs"
  by (induction xs arbitrary: rs) (auto simp: hw)

lemma other_fold:
  "a \<notin> (\<lambda>i. base (rs_hw rs) OR of_nat i) ` set is \<Longrightarrow>
     snd (hw_replay (rs_regs (fold (case_prod write_row) (zip rows is) rs)) S) a =
     snd (hw_replay (rs_regs rs) S) a"
proof (induction rows "is" arbitrary: rs rule: list_induct2')
  case (4 r rows i "is")
  then show ?case by (simp add: hw other)
qed auto

lemma rows_fold:
  assumes "distinct (map (\<lambda>i. base (rs_hw rs) OR of_nat i) is)" and "length rows = length is"
  shows "map (\<lambda>i. row_of (snd (hw_replay (rs_regs
      (fold (case_prod write_row) (zip rows is) rs)) S) (base (rs_hw rs) OR of_nat i))) is = rows"
  using assms(2,1)
proof (induction rows "is" arbitrary: rs rule: list_induct2)
  case (Cons r rows i "is")
  let ?rs = "write_row r i rs"
  from Cons.prems have "base (rs_hw ?rs) OR of_nat i \<notin> (\<lambda>i. base (rs_hw ?rs) OR of_nat i) ` set is"
    by (auto simp: hw)
  moreover from Cons have "map (\<lambda>j. row_of (snd (hw_replay (rs_regs
      (fold (case_prod write_row) (zip rows is) ?rs)) S) (base (rs_hw rs) OR of_nat j))) is = rows"
    using Cons.IH [of ?rs] by (simp add: hw)
  ultimately show ?case using other_fold [of _ ?rs "is" rows S] same [of r i rs S]
    by (simp add: hw)
qed simp

end

subsection \<open>The local IP filters\<close>

definition get_local_ip_filter_by_name ::
  "router_state \<Rightarrow> string option \<Rightarrow> local_ip_filter_entry option" where
  "get_local_ip_filter_by_name rs name =
     (case name of None \<Rightarrow> None
      | Some nm \<Rightarrow> find (\<lambda>e. lif_name e = nm) (rs_ip_filters rs))"

definition get_local_ip_filter_by_ip ::
  "router_state \<Rightarrow> u32 option \<Rightarrow> local_ip_filter_entry option" where
  "get_local_ip_filter_by_ip rs ip =
     (case ip of None \<Rightarrow> None
      | Some a \<Rightarrow> find (\<lambda>e. lif_ip e = a) (rs_ip_filters rs))"

text \<open>
  The C standard fixes only the sign of what strcmp returns, and the sort swaps two entries
  when it returns exactly 1. The operations take strcmp as an argument; its two usual
  implementations are the sign and the difference of the first bytes that differ.
\<close>

definition strcmp_sign :: "string \<Rightarrow> string \<Rightarrow> int" where
  "strcmp_sign a b = (if a = b then 0 else if a < b then -1 else 1)"

fun strcmp_diff :: "string \<Rightarrow> string \<Rightarrow> int" where
  "strcmp_diff [] [] = 0"
| "strcmp_diff (x # xs) [] = int (of_char x)"
| "strcmp_diff [] (y # ys) = - int (of_char y)"
| "strcmp_diff (x # xs) (y # ys) =
     (if x = y then strcmp_diff xs ys else int (of_char x) - int (of_char y))"

text \<open>One row of the filter CAM.\<close>

definition write_filter_row :: "u32 \<Rightarrow> nat \<Rightarrow> router_state \<Rightarrow> router_state" where
  "write_filter_row ip i rs =
     writeReg INDIRECTCOMMAND 1
       (writeReg INDIRECTADDRESS (dest_ip_cam_address (rs_hw rs) OR of_nat i)
         (writeReg INDIRECTWRDATA_B_LOW ip rs))"

fun write_filter_rows ::
  "local_ip_filter_entry list \<Rightarrow> nat list \<Rightarrow> router_state \<Rightarrow> router_state" where
  "write_filter_rows cur [] rs = rs"
| "write_filter_rows (e # cur) (i # is) rs =
     write_filter_rows cur is (write_filter_row (ntohl (lif_ip e)) i rs)"
| "write_filter_rows [] (i # is) rs = write_filter_rows [] is (write_filter_row 0 i rs)"

definition trigger_local_ip_filters_change ::
  "(string \<Rightarrow> string \<Rightarrow> int) \<Rightarrow> router_state \<Rightarrow> router_state option" where
  "trigger_local_ip_filters_change strcmp rs = do {
     l \<leftarrow> bubble_sort (\<lambda>a b. strcmp (lif_name a) (lif_name b) = 1) (rs_ip_filters rs);
     let rs = rs\<lparr>rs_ip_filters := l\<rparr>;
     Some (if rs_is_netfpga rs
           then write_filter_rows l [0..<dest_ip_cam_width (rs_hw rs)] rs else rs)
   }"

definition LOCAL_IP_FILTER_ENTRY_NAME_LEN :: nat where "LOCAL_IP_FILTER_ENTRY_NAME_LEN = 32"

text \<open>The result is the return code and the new state.\<close>

definition add_local_ip_filter ::
  "(string \<Rightarrow> string \<Rightarrow> int) \<Rightarrow> router_state \<Rightarrow> u32 \<Rightarrow> string \<Rightarrow> (int \<times> router_state) option" where
  "add_local_ip_filter strcmp rs ip name =
     (if get_local_ip_filter_by_ip rs (Some ip) \<noteq> None \<or>
         get_local_ip_filter_by_name rs (Some name) \<noteq> None
      then Some (1, rs)
      else do {
        let entry = \<lparr>lif_ip = ip, lif_name = take (LOCAL_IP_FILTER_ENTRY_NAME_LEN - 1) name\<rparr>;
        rs \<leftarrow> trigger_local_ip_filters_change strcmp
                (rs\<lparr>rs_ip_filters := rs_ip_filters rs @ [entry]\<rparr>);
        Some (0, rs)
      })"

interpretation filter_cam: hw_table write_filter_row dest_ip_cam_address
  "\<lambda>R. R INDIRECTWRDATA_B_LOW"
proof
  fix r i rs a S
  show "a \<noteq> dest_ip_cam_address (rs_hw rs) OR of_nat i \<Longrightarrow>
      snd (hw_replay (rs_regs (write_filter_row r i rs)) S) a = snd (hw_replay (rs_regs rs) S) a"
    "snd (hw_replay (rs_regs (write_filter_row r i rs)) S) (dest_ip_cam_address (rs_hw rs) OR of_nat i)
       INDIRECTWRDATA_B_LOW = r"
    by (cases "hw_replay (rs_regs rs) S"; simp add: write_filter_row_def hw_replay_append)+
  show "rs_hw (write_filter_row r i rs) = rs_hw rs" by (simp add: write_filter_row_def)
qed

text \<open>What the sort needs of strcmp to return at all.\<close>

locale strcmp_result =
  fixes strcmp :: "string \<Rightarrow> string \<Rightarrow> int"
  assumes pos: "0 < strcmp a b \<Longrightarrow> b < a"
begin

lemma swap_below_names:
  "swap_below (\<lambda>a b. lif_name b < lif_name a) (\<lambda>a b. strcmp (lif_name a) (lif_name b) = 1)"
  by unfold_locales (auto intro: pos)

lemma filters_permutes:
  "\<exists>ys. bubble_sort (\<lambda>a b. strcmp (lif_name a) (lif_name b) = 1) xs = Some ys \<and>
     mset ys = mset xs"
  by (rule swap_below.bubble_sort_permutes [OF swap_below_names])

end

lemma strcmp_diff_pos: "0 < strcmp_diff a b \<Longrightarrow> b < a"
  by (induction a b rule: strcmp_diff.induct)
    (auto simp: less_char_def split: if_splits)

interpretation strcmp_sign: strcmp_result strcmp_sign
  by unfold_locales (auto simp: strcmp_sign_def split: if_splits)

interpretation strcmp_diff: strcmp_result strcmp_diff
  by unfold_locales (rule strcmp_diff_pos)

interpretation filter_order: swap_order "\<lambda>a b. strcmp_sign (lif_name a) (lif_name b) = 1"
  by unfold_locales (auto simp: strcmp_sign_def split: if_splits)

lemma write_filter_rows_frame [simp, frame_simps]:
  "rs_ip_filters (write_filter_rows cur is rs) = rs_ip_filters rs"
  "rs_is_netfpga (write_filter_rows cur is rs) = rs_is_netfpga rs"
  "rs_if_list (write_filter_rows cur is rs) = rs_if_list rs"
  "rs_rtable (write_filter_rows cur is rs) = rs_rtable rs"
  "rs_arp_cache (write_filter_rows cur is rs) = rs_arp_cache rs"
  "rs_hw (write_filter_rows cur is rs) = rs_hw rs"
  by (induction cur "is" rs rule: write_filter_rows.induct) (auto simp: write_filter_row_def)

lemma trigger_filters_Some:
  assumes "trigger_local_ip_filters_change strcmp rs = Some rs'"
  shows "bubble_sort (\<lambda>a b. strcmp (lif_name a) (lif_name b) = 1) (rs_ip_filters rs) =
    Some (rs_ip_filters rs')"
  using assms
  by (auto simp: trigger_local_ip_filters_change_def Let_def bind_eq_Some_conv split: if_splits)

lemma trigger_filters_returns:
  assumes "strcmp_result strcmp"
  shows "\<exists>rs'. trigger_local_ip_filters_change strcmp rs = Some rs' \<and>
    mset (rs_ip_filters rs') = mset (rs_ip_filters rs)"
  using strcmp_result.filters_permutes [OF assms, of "rs_ip_filters rs"]
  by (auto simp: trigger_local_ip_filters_change_def Let_def)

text \<open>
  Whatever values a conforming strcmp returns, the sort of the local IP filters stops, and
  the filters afterwards are the same ones.
\<close>

theorem filters_change_returns:
  assumes "\<And>a b. 0 < strcmp a b \<Longrightarrow> b < a"
  shows "\<exists>rs'. trigger_local_ip_filters_change strcmp rs = Some rs' \<and>
    mset (rs_ip_filters rs') = mset (rs_ip_filters rs)"
  by (rule trigger_filters_returns) (unfold_locales, rule assms)

theorem filters_change_returns_witness:
  "\<exists>rs'. trigger_local_ip_filters_change strcmp_diff rs0 = Some rs' \<and>
    mset (rs_ip_filters rs') = mset (rs_ip_filters rs0)"
  by (rule filters_change_returns) (rule strcmp_diff_pos)

text \<open>
  The order of the names is the one the comment at the sort states when strcmp returns the
  sign, and is missed when it returns a byte difference: "eth0" stays before "cpu0".
\<close>

lemma filters_change_sorts:
  assumes "trigger_local_ip_filters_change strcmp_sign rs = Some rs'"
  shows "sorted (map lif_name (rs_ip_filters rs'))"
proof -
  from filter_order.bubble_sort_spec [OF trigger_filters_Some [OF assms]]
  have "sorted_wrt (\<lambda>a b. \<not> strcmp_sign (lif_name a) (lif_name b) = 1) (rs_ip_filters rs')"
    by blast
  then show ?thesis
    unfolding sorted_map
    by (rule sorted_wrt_mono_rel [rotated]) (auto simp: strcmp_sign_def split: if_splits)
qed

text \<open>The names and addresses of the filters are unique, and names fit their array.\<close>

definition filters_ok :: "local_ip_filter_entry list \<Rightarrow> bool" where
  "filters_ok fs \<longleftrightarrow> distinct (map lif_name fs) \<and> distinct (map lif_ip fs) \<and>
     (\<forall>f\<in>set fs. length (lif_name f) < LOCAL_IP_FILTER_ENTRY_NAME_LEN)"

lemma filters_ok_mset: "mset fs = mset gs \<Longrightarrow> filters_ok fs = filters_ok gs"
proof -
  assume eq: "mset fs = mset gs"
  then have "mset (map lif_name fs) = mset (map lif_name gs)"
      "mset (map lif_ip fs) = mset (map lif_ip gs)" "set fs = set gs"
    by (auto dest: mset_eq_setD)
  then show ?thesis
    unfolding filters_ok_def by (metis mset_eq_imp_distinct_iff)
qed

text \<open>
  Adding a local IP filter whose name fits its array either reports 1 and changes nothing,
  exactly when the name or the address is already in the table, or stores the filter so that
  both lookups find it; every other filter is kept, and names and addresses stay unique.
\<close>

theorem add_local_ip_filter_spec:
  assumes ok: "filters_ok (rs_ip_filters rs)" and len: "length name < 32"
    and cmp: "\<And>a b. 0 < strcmp a b \<Longrightarrow> b < a"
  shows "\<exists>rc rs'. add_local_ip_filter strcmp rs ip name = Some (rc, rs') \<and>
    filters_ok (rs_ip_filters rs') \<and>
    (if name \<in> lif_name ` set (rs_ip_filters rs) \<or> ip \<in> lif_ip ` set (rs_ip_filters rs)
     then rc = 1 \<and> rs' = rs
     else rc = 0 \<and> set (rs_ip_filters rs') =
         insert \<lparr>lif_ip = ip, lif_name = name\<rparr> (set (rs_ip_filters rs)) \<and>
       get_local_ip_filter_by_name rs' (Some name) = Some \<lparr>lif_ip = ip, lif_name = name\<rparr> \<and>
       get_local_ip_filter_by_ip rs' (Some ip) = Some \<lparr>lif_ip = ip, lif_name = name\<rparr>)"
proof (cases "name \<in> lif_name ` set (rs_ip_filters rs) \<or> ip \<in> lif_ip ` set (rs_ip_filters rs)")
  case True
  then have "get_local_ip_filter_by_ip rs (Some ip) \<noteq> None \<or>
      get_local_ip_filter_by_name rs (Some name) \<noteq> None"
    by (auto simp: get_local_ip_filter_by_ip_def get_local_ip_filter_by_name_def find_None_iff)
  with ok True show ?thesis by (simp add: add_local_ip_filter_def)
next
  case False
  let ?e = "\<lparr>lif_ip = ip, lif_name = name\<rparr>"
  from False have nf: "get_local_ip_filter_by_ip rs (Some ip) = None"
      "get_local_ip_filter_by_name rs (Some name) = None"
    by (auto simp: get_local_ip_filter_by_ip_def get_local_ip_filter_by_name_def find_None_iff)
  from len have fits: "take (LOCAL_IP_FILTER_ENTRY_NAME_LEN - 1) name = name"
    by (simp add: LOCAL_IP_FILTER_ENTRY_NAME_LEN_def)
  have "strcmp_result strcmp" by unfold_locales (rule cmp)
  from trigger_filters_returns [OF this] obtain rs'
    where t: "trigger_local_ip_filters_change strcmp
        (rs\<lparr>rs_ip_filters := rs_ip_filters rs @ [?e]\<rparr>) = Some rs'"
      and m: "mset (rs_ip_filters rs') = mset (rs_ip_filters rs @ [?e])"
    by fastforce
  have ok': "filters_ok (rs_ip_filters rs')"
    unfolding filters_ok_mset [OF m] using ok False len
    by (auto simp: filters_ok_def LOCAL_IP_FILTER_ENTRY_NAME_LEN_def)
  have set': "set (rs_ip_filters rs') = insert ?e (set (rs_ip_filters rs))"
    using mset_eq_setD [OF m] by simp
  have "find (\<lambda>e. lif_name e = lif_name ?e) (rs_ip_filters rs') = Some ?e"
      "find (\<lambda>e. lif_ip e = lif_ip ?e) (rs_ip_filters rs') = Some ?e"
    using ok' set' by (intro find_distinct_key; simp add: filters_ok_def)+
  with t nf fits ok' set' False show ?thesis
    by (simp add: add_local_ip_filter_def get_local_ip_filter_by_ip_def
        get_local_ip_filter_by_name_def)
qed

theorem add_local_ip_filter_spec_witness:
  "\<exists>rc rs'. add_local_ip_filter strcmp_diff rs0 7 ''eth0'' = Some (rc, rs') \<and> rc = 0 \<and>
    get_local_ip_filter_by_name rs' (Some ''eth0'') = Some \<lparr>lif_ip = 7, lif_name = ''eth0''\<rparr>"
  using add_local_ip_filter_spec [of rs0 "''eth0''" strcmp_diff 7] strcmp_diff_pos
  by (auto simp: filters_ok_def)

end
