(* ===== verification/Or_Rtable.thy ===== *)
theory Or_Rtable
  imports Or_Netfpga
begin

section \<open>The routing table (\<^verbatim>\<open>or_rtable.c\<close>)\<close>

text \<open>
  Longest prefix match, the changes to the table, the sort that follows each of them and the
  copy of the table to the TCAM of the forwarding hardware. The lemmas show that the lookup
  is a longest prefix match, what each change does to the set of routes, and that the rows
  written to the TCAM make its first-match lookup agree with the software's lookup.
\<close>

subsection \<open>Lookup\<close>

text \<open>The loop that counts the bits of the mask.\<close>

fun count_bits_loop :: "u32 \<Rightarrow> nat list \<Rightarrow> int \<Rightarrow> int" where
  "count_bits_loop msk [] n = n"
| "count_bits_loop msk (i # is) n =
     count_bits_loop msk is (if drop_bit i msk AND 1 \<noteq> 0 then n + 1 else n)"

definition count_bits :: "u32 \<Rightarrow> int" where
  "count_bits msk = count_bits_loop msk [0..<32] 0"

definition route_matches :: "u32 \<Rightarrow> rtable_entry \<Rightarrow> bool" where
  "route_matches destination re =
     (let msk = ntohl (re_mask re);
          ip = ntohl (re_ip re) AND msk;
          dest_ip = ntohl destination AND msk
      in ip = dest_ip)"

fun get_next_hop_loop ::
  "u32 \<Rightarrow> rtable_entry list \<Rightarrow> rtable_entry option \<Rightarrow> int \<Rightarrow> rtable_entry option" where
  "get_next_hop_loop destination [] lpm most_bits_matched = lpm"
| "get_next_hop_loop destination (re # n) lpm most_bits_matched =
     (if re_is_active re \<and> route_matches destination re \<and>
         count_bits (ntohl (re_mask re)) > most_bits_matched
      then get_next_hop_loop destination n (Some re) (count_bits (ntohl (re_mask re)))
      else get_next_hop_loop destination n lpm most_bits_matched)"

text \<open>None is the return value 1 (no match); otherwise next hop and interface are set.\<close>

definition get_next_hop :: "nat \<Rightarrow> router_state \<Rightarrow> u32 \<Rightarrow> (u32 \<times> string) option" where
  "get_next_hop len rs destination =
     (case get_next_hop_loop destination (rs_rtable rs) None (-1) of
        None \<Rightarrow> None
      | Some lpm \<Rightarrow> Some (if re_gw lpm = 0 then destination else re_gw lpm,
                          take len (re_iface lpm)))"

subsection \<open>Sorting and the copy to the hardware\<close>

definition route_swap :: "rtable_entry \<Rightarrow> rtable_entry \<Rightarrow> bool" where
  "route_swap a b \<longleftrightarrow>
     ntohl (re_mask a) < ntohl (re_mask b) \<or>
     (re_mask a = re_mask b \<and> ntohl (re_ip a) < ntohl (re_ip b)) \<or>
     (re_mask a = re_mask b \<and> re_ip a = re_ip b \<and> \<not> re_is_static a \<and> re_is_static b)"

definition write_rtable_row ::
  "u32 \<Rightarrow> u32 \<Rightarrow> u32 \<Rightarrow> u32 \<Rightarrow> nat \<Rightarrow> router_state \<Rightarrow> router_state" where
  "write_rtable_row ip msk gw port i rs =
     (let rs = writeReg INDIRECTWRDATA_A_HI ip rs;
          rs = writeReg INDIRECTWRDATA_B_HI msk rs;
          rs = writeReg INDIRECTWRDATA_A_LOW gw rs;
          rs = writeReg INDIRECTWRDATA_B_LOW port rs;
          rs = writeReg INDIRECTADDRESS (lpm_tcam_address (rs_hw rs) OR of_nat i) rs
      in writeReg INDIRECTCOMMAND 1 rs)"

definition next_active :: "rtable_entry list \<Rightarrow> rtable_entry list" where
  "next_active = dropWhile (\<lambda>e. \<not> re_is_active e)"

fun write_rtable_rows ::
  "rtable_entry list \<Rightarrow> nat list \<Rightarrow> router_state \<Rightarrow> router_state option" where
  "write_rtable_rows cur [] rs = Some rs"
| "write_rtable_rows (entry # cur) (i # is) rs = do {
     port \<leftarrow> getOneHotPortNumber (re_iface entry);
     write_rtable_rows (next_active cur) is
       (write_rtable_row (ntohl (re_ip entry)) (ntohl (re_mask entry)) (ntohl (re_gw entry)) port
         i rs)
   }"
| "write_rtable_rows [] (i # is) rs = write_rtable_rows [] is (write_rtable_row 0 0 0 0 i rs)"

definition write_rtable_to_hw :: "router_state \<Rightarrow> router_state option" where
  "write_rtable_to_hw rs =
     write_rtable_rows (next_active (rs_rtable rs)) [0..<lpm_tcam_width (rs_hw rs)] rs"

definition trigger_rtable_modified :: "router_state \<Rightarrow> router_state option" where
  "trigger_rtable_modified rs = do {
     l \<leftarrow> bubble_sort route_swap (rs_rtable rs);
     let rs = rs\<lparr>rs_rtable := l\<rparr>;
     (if rs_is_netfpga rs then write_rtable_to_hw rs else Some rs)
   }"

subsection \<open>Changes\<close>

definition IF_LEN :: nat where "IF_LEN = 32"

text \<open>An operation's result is its return value and the new state.\<close>

definition add_route ::
  "router_state \<Rightarrow> u32 \<Rightarrow> u32 \<Rightarrow> u32 \<Rightarrow> string \<Rightarrow> (int \<times> router_state) option" where
  "add_route rs dest gateway msk interface = do {
     let entry = \<lparr>re_ip = dest, re_gw = gateway, re_mask = msk, re_iface = take IF_LEN interface,
                  re_is_static = True, re_is_active = True\<rparr>;
     rs \<leftarrow> trigger_rtable_modified (rs\<lparr>rs_rtable := rs_rtable rs @ [entry]\<rparr>);
     Some (0, rs)
   }"

fun del_route_loop ::
  "u32 \<Rightarrow> u32 \<Rightarrow> rtable_entry list \<Rightarrow> int \<Rightarrow> rtable_entry list \<times> int" where
  "del_route_loop dest msk [] removed = ([], removed)"
| "del_route_loop dest msk (entry # cur) removed =
     (if dest = re_ip entry \<and> msk = re_mask entry
      then del_route_loop dest msk cur (removed + 1)
      else (let (l, n) = del_route_loop dest msk cur removed in (entry # l, n)))"

definition del_route :: "router_state \<Rightarrow> u32 \<Rightarrow> u32 \<Rightarrow> (int \<times> router_state) option" where
  "del_route rs dest msk = do {
     let (l, removed) = del_route_loop dest msk (rs_rtable rs) 0;
     rs \<leftarrow> trigger_rtable_modified (rs\<lparr>rs_rtable := l\<rparr>);
     Some (removed, rs)
   }"

text \<open>\<^verbatim>\<open>strncmp(entry->iface, interface, strlen(interface)) == 0\<close>\<close>

definition iface_prefix :: "string \<Rightarrow> rtable_entry \<Rightarrow> bool" where
  "iface_prefix interface entry \<longleftrightarrow> take (length interface) (re_iface entry) = interface"

fun deactivate_routes_loop :: "string \<Rightarrow> rtable_entry list \<Rightarrow> rtable_entry list" where
  "deactivate_routes_loop interface [] = []"
| "deactivate_routes_loop interface (entry # cur) =
     (if iface_prefix interface entry then
        (if re_is_static entry
         then entry\<lparr>re_is_active := False\<rparr> # deactivate_routes_loop interface cur
         else deactivate_routes_loop interface cur)
      else entry # deactivate_routes_loop interface cur)"

definition deactivate_routes :: "router_state \<Rightarrow> string \<Rightarrow> (int \<times> router_state) option" where
  "deactivate_routes rs interface = do {
     rs \<leftarrow> trigger_rtable_modified
             (rs\<lparr>rs_rtable := deactivate_routes_loop interface (rs_rtable rs)\<rparr>);
     Some (0, rs)
   }"

definition activate_routes :: "router_state \<Rightarrow> string \<Rightarrow> (int \<times> router_state) option" where
  "activate_routes rs interface = do {
     rs \<leftarrow> trigger_rtable_modified
             (rs\<lparr>rs_rtable := map (\<lambda>entry. if iface_prefix interface entry
                                     then entry\<lparr>re_is_active := True\<rparr> else entry) (rs_rtable rs)\<rparr>);
     Some (0, rs)
   }"

subsection \<open>The order of the table\<close>

text \<open>The sort key of a route; a table is sorted when the keys descend.\<close>

datatype route_key = Route_key (rk_mask: u32) (rk_ip: u32) (rk_static: bool)

instantiation route_key :: linorder
begin

definition less_route_key :: "route_key \<Rightarrow> route_key \<Rightarrow> bool" where
  "a < b \<longleftrightarrow> rk_mask a < rk_mask b \<or> (rk_mask a = rk_mask b \<and> rk_ip a < rk_ip b) \<or>
     (rk_mask a = rk_mask b \<and> rk_ip a = rk_ip b \<and> \<not> rk_static a \<and> rk_static b)"

definition less_eq_route_key :: "route_key \<Rightarrow> route_key \<Rightarrow> bool" where
  "a \<le> b \<longleftrightarrow> a = b \<or> a < (b :: route_key)"

instance
  by standard (auto simp: less_route_key_def less_eq_route_key_def intro: route_key.expand)

end

definition route_key :: "rtable_entry \<Rightarrow> route_key" where
  "route_key e = Route_key (ntohl (re_mask e)) (ntohl (re_ip e)) (re_is_static e)"

lemma route_swap_key: "route_swap a b \<longleftrightarrow> route_key a < route_key b"
  by (auto simp: route_swap_def route_key_def less_route_key_def)

interpretation routes: swap_order route_swap
  by (rule swap_order_key [where key = route_key]) (rule route_swap_key)

definition table_sorted :: "rtable_entry list \<Rightarrow> bool" where
  "table_sorted l \<longleftrightarrow> sorted_wrt (\<lambda>a b. route_key b \<le> route_key a) l"

lemma route_sort:
  "\<exists>l'. bubble_sort route_swap l = Some l' \<and> mset l' = mset l \<and> table_sorted l'"
  using routes.bubble_sort_total [of l]
  by (auto simp: table_sorted_def route_swap_key not_less)

lemma trigger_rtable_spec:
  "\<exists>l. mset l = mset (rs_rtable rs) \<and> table_sorted l \<and>
     bubble_sort route_swap (rs_rtable rs) = Some l \<and>
     trigger_rtable_modified rs =
       (if rs_is_netfpga rs then write_rtable_to_hw (rs\<lparr>rs_rtable := l\<rparr>)
        else Some (rs\<lparr>rs_rtable := l\<rparr>))"
  using route_sort [of "rs_rtable rs"] by (auto simp: trigger_rtable_modified_def Let_def)

lemma write_rtable_row_frame [simp, frame_simps]:
  "rs_rtable (write_rtable_row ip m gw port i rs) = rs_rtable rs"
  "rs_hw (write_rtable_row ip m gw port i rs) = rs_hw rs"
  by (simp_all add: write_rtable_row_def Let_def)

lemma write_rtable_rows_frame:
  "write_rtable_rows cur is rs = Some rs' \<Longrightarrow> rs_rtable rs' = rs_rtable rs \<and> rs_hw rs' = rs_hw rs"
  by (induction cur "is" rs rule: write_rtable_rows.induct) (auto simp: bind_eq_Some_conv)

lemma write_rtable_to_hw_frame:
  "write_rtable_to_hw rs = Some rs' \<Longrightarrow> rs_rtable rs' = rs_rtable rs \<and> rs_hw rs' = rs_hw rs"
  unfolding write_rtable_to_hw_def by (rule write_rtable_rows_frame)

lemma trigger_rtable_Some:
  assumes "trigger_rtable_modified rs = Some rs'"
  shows "bubble_sort route_swap (rs_rtable rs) = Some (rs_rtable rs')"
    and "mset (rs_rtable rs') = mset (rs_rtable rs)" and "table_sorted (rs_rtable rs')"
    and "rs_hw rs' = rs_hw rs"
    and "rs_is_netfpga rs \<Longrightarrow> write_rtable_to_hw (rs\<lparr>rs_rtable := rs_rtable rs'\<rparr>) = Some rs'"
proof -
  from trigger_rtable_spec [of rs] obtain l where l: "mset l = mset (rs_rtable rs)"
      "table_sorted l" "bubble_sort route_swap (rs_rtable rs) = Some l"
      "trigger_rtable_modified rs =
         (if rs_is_netfpga rs then write_rtable_to_hw (rs\<lparr>rs_rtable := l\<rparr>)
          else Some (rs\<lparr>rs_rtable := l\<rparr>))" by blast
  with assms have rs': "rs_rtable rs' = l \<and> rs_hw rs' = rs_hw rs"
    by (auto split: if_splits dest: write_rtable_to_hw_frame)
  with l assms show "bubble_sort route_swap (rs_rtable rs) = Some (rs_rtable rs')"
      "mset (rs_rtable rs') = mset (rs_rtable rs)" "table_sorted (rs_rtable rs')"
      "rs_hw rs' = rs_hw rs"
      "rs_is_netfpga rs \<Longrightarrow> write_rtable_to_hw (rs\<lparr>rs_rtable := rs_rtable rs'\<rparr>) = Some rs'"
    by simp_all
qed

subsection \<open>Longest prefix match\<close>

text \<open>The route that wins: the first active matching one with the most mask bits.\<close>

definition is_lpm :: "u32 \<Rightarrow> rtable_entry list \<Rightarrow> rtable_entry \<Rightarrow> bool" where
  "is_lpm d = max_elem (\<lambda>e. re_is_active e \<and> route_matches d e)
     (\<lambda>e. count_bits (ntohl (re_mask e)))"

lemma get_next_hop_loop_scan:
  "get_next_hop_loop d n lpm k = scan_max (\<lambda>e. re_is_active e \<and> route_matches d e)
     (\<lambda>e. count_bits (ntohl (re_mask e))) n lpm k"
  by (induction n arbitrary: lpm k) auto

lemma count_bits_loop_ge: "n \<le> count_bits_loop m is n"
proof (induction "is" arbitrary: n)
  case (Cons i "is")
  from Cons.IH [of n] Cons.IH [of "n + 1"] show ?case by auto
qed simp

lemma count_bits_nonneg: "0 \<le> count_bits m"
  unfolding count_bits_def by (rule count_bits_loop_ge)

lemma get_next_hop_loop_lpm: "get_next_hop_loop d l None (-1) = find (is_lpm d l) l"
  unfolding get_next_hop_loop_scan is_lpm_def
  by (rule scan_max_find) (use count_bits_nonneg in \<open>auto intro: less_le_trans [of _ 0]\<close>)

lemma get_next_hop_None:
  "get_next_hop len rs d = None \<longleftrightarrow>
     (\<forall>e\<in>set (rs_rtable rs). \<not> (re_is_active e \<and> route_matches d e))"
proof -
  have "get_next_hop len rs d = None \<longleftrightarrow> find (is_lpm d (rs_rtable rs)) (rs_rtable rs) = None"
    by (simp add: get_next_hop_def get_next_hop_loop_lpm split: option.splits)
  then show ?thesis by (simp add: is_lpm_def find_max_elem_None)
qed

text \<open>A change of the routes returns when every active route has a port of the hardware.\<close>

lemma next_active_Cons: "next_active l = e # l' \<Longrightarrow> re_is_active e"
  using hd_dropWhile [of "\<lambda>e. \<not> re_is_active e" l] by (auto simp: next_active_def)

lemma next_active_idem [simp]: "next_active (next_active l) = next_active l"
  by (simp add: next_active_def)

lemma set_next_active: "set (next_active l) \<subseteq> set l"
  unfolding next_active_def by (auto dest: set_dropWhileD)

lemma write_rtable_rows_returns:
  assumes "\<forall>e\<in>set cur. re_is_active e \<longrightarrow> getOneHotPortNumber (re_iface e) \<noteq> None"
    and "next_active cur = cur"
  shows "\<exists>rs'. write_rtable_rows cur is rs = Some rs'"
  using assms
proof (induction cur "is" rs rule: write_rtable_rows.induct)
  case (2 e cur i "is" rs)
  from 2(3) have "re_is_active e" by (rule next_active_Cons)
  with 2(2) obtain port where port: "getOneHotPortNumber (re_iface e) = Some port" by auto
  have "\<forall>e\<in>set (next_active cur). re_is_active e \<longrightarrow> getOneHotPortNumber (re_iface e) \<noteq> None"
    using 2(2) set_next_active [of cur] by auto
  from 2(1) [OF port this next_active_idem] port show ?case by simp
qed simp_all

lemma trigger_rtable_returns:
  assumes "\<forall>e\<in>set (rs_rtable rs). re_is_active e \<longrightarrow> getOneHotPortNumber (re_iface e) \<noteq> None"
  shows "\<exists>rs'. trigger_rtable_modified rs = Some rs'"
proof -
  from trigger_rtable_spec [of rs] obtain l where l: "mset l = mset (rs_rtable rs)"
      "trigger_rtable_modified rs =
         (if rs_is_netfpga rs then write_rtable_to_hw (rs\<lparr>rs_rtable := l\<rparr>)
          else Some (rs\<lparr>rs_rtable := l\<rparr>))" by blast
  have "\<forall>e\<in>set (next_active l). re_is_active e \<longrightarrow> getOneHotPortNumber (re_iface e) \<noteq> None"
    using assms set_next_active [of l] mset_eq_setD [OF l(1)] by auto
  from write_rtable_rows_returns [OF this next_active_idem] l(2) show ?thesis
    by (simp add: write_rtable_to_hw_def)
qed

text \<open>
  C3. \<^verbatim>\<open>get_next_hop\<close> is a longest prefix match: it finds nothing exactly when no active route
  covers the destination, and otherwise the answer comes from the first of the active routes
  covering it whose mask has the most bits; a zero gateway stands for the destination.
\<close>

theorem get_next_hop_longest_prefix:
  "case get_next_hop len rs d of
     None \<Rightarrow> \<forall>e\<in>set (rs_rtable rs). \<not> (re_is_active e \<and> route_matches d e)
   | Some (hop, interface) \<Rightarrow> \<exists>ps e qs. rs_rtable rs = ps @ e # qs \<and>
       is_lpm d (rs_rtable rs) e \<and> (\<forall>p\<in>set ps. \<not> is_lpm d (rs_rtable rs) p) \<and>
       hop = (if re_gw e = 0 then d else re_gw e) \<and> interface = take len (re_iface e)"
proof (cases "find (is_lpm d (rs_rtable rs)) (rs_rtable rs)")
  case None
  then have none: "get_next_hop len rs d = None"
    by (simp add: get_next_hop_def get_next_hop_loop_lpm)
  with get_next_hop_None [of len rs d] show ?thesis by simp
next
  case (Some e)
  from find_Some_split [OF this] Some show ?thesis
    by (fastforce simp: get_next_hop_def get_next_hop_loop_lpm)
qed

text \<open>
  C20. After a change of the routes the sort stops and leaves the same routes, ordered by
  descending mask, then address, then static before dynamic; routes that agree on all three
  keep their order.
\<close>

theorem trigger_rtable_sorts:
  "\<exists>l. bubble_sort route_swap (rs_rtable rs) = Some l \<and> mset l = mset (rs_rtable rs) \<and>
     sorted_wrt (\<lambda>a b. route_key b \<le> route_key a) l \<and>
     (\<forall>k. filter (\<lambda>e. route_key e = k) l = filter (\<lambda>e. route_key e = k) (rs_rtable rs)) \<and>
     (\<not> rs_is_netfpga rs \<longrightarrow> trigger_rtable_modified rs = Some (rs\<lparr>rs_rtable := l\<rparr>))"
proof -
  from trigger_rtable_spec [of rs] obtain l where l: "mset l = mset (rs_rtable rs)"
      "table_sorted l" "bubble_sort route_swap (rs_rtable rs) = Some l"
      "\<not> rs_is_netfpga rs \<Longrightarrow> trigger_rtable_modified rs = Some (rs\<lparr>rs_rtable := l\<rparr>)" by auto
  have eq: "\<not> route_swap x c \<and> \<not> route_swap c x \<longleftrightarrow> route_key x = route_key c" for x c
    by (auto simp: route_swap_key)
  have "filter (\<lambda>e. route_key e = k) l = filter (\<lambda>e. route_key e = k) (rs_rtable rs)" for k
  proof (cases "\<exists>c\<in>set l. route_key c = k")
    case True
    with routes.bubble_sort_spec [OF l(3)] show ?thesis by (auto simp: eq)
  next
    case False
    with mset_eq_setD [OF l(1)] show ?thesis by (auto simp: filter_empty_conv)
  qed
  with l show ?thesis by (auto simp: table_sorted_def)
qed

theorem trigger_rtable_sorts_witness:
  "\<exists>l. bubble_sort route_swap (rs_rtable (zero_state hw4)) = Some l \<and>
    trigger_rtable_modified (zero_state hw4) = Some ((zero_state hw4)\<lparr>rs_rtable := l\<rparr>)"
  using trigger_rtable_sorts [of "zero_state hw4"] by (auto simp: zero_state_def)

subsection \<open>The changes as operations on the set of routes\<close>

lemma del_route_loop_filter:
  "del_route_loop d m l n =
     (filter (\<lambda>e. \<not> (d = re_ip e \<and> m = re_mask e)) l,
      n + int (length (filter (\<lambda>e. d = re_ip e \<and> m = re_mask e) l)))"
  by (induction l arbitrary: n) auto

text \<open>
  \<^verbatim>\<open>del_route\<close> removes every route with the given destination and mask and no other, and
  returns how many there were.
\<close>

theorem del_route_spec:
  assumes "del_route rs d m = Some (n, rs')"
  shows "mset (rs_rtable rs') =
      mset (filter (\<lambda>e. \<not> (d = re_ip e \<and> m = re_mask e)) (rs_rtable rs)) \<and>
    n = int (length (filter (\<lambda>e. d = re_ip e \<and> m = re_mask e) (rs_rtable rs))) \<and>
    table_sorted (rs_rtable rs')"
  using assms
  by (auto simp: del_route_def del_route_loop_filter bind_eq_Some_conv
      dest: trigger_rtable_Some(2,3))

text \<open>Three routes, on a router without the hardware.\<close>

definition routes3 :: "rtable_entry list" where
  "routes3 =
     [\<lparr>re_ip = 10, re_gw = 0, re_mask = 255, re_iface = ''eth0'', re_is_static = False,
       re_is_active = True\<rparr>,
      \<lparr>re_ip = 10, re_gw = 7, re_mask = 65535, re_iface = ''eth1'', re_is_static = True,
       re_is_active = True\<rparr>,
      \<lparr>re_ip = 10, re_gw = 9, re_mask = 255, re_iface = ''eth0'', re_is_static = True,
       re_is_active = True\<rparr>]"

definition rs_soft :: router_state where
  "rs_soft = (zero_state hw4)\<lparr>rs_rtable := routes3\<rparr>"

lemma rs_soft_simps [simp]: "rs_rtable rs_soft = routes3" "\<not> rs_is_netfpga rs_soft"
  by (simp_all add: rs_soft_def zero_state_def)

lemma trigger_rtable_soft:
  "\<not> rs_is_netfpga rs \<Longrightarrow> \<exists>rs'. trigger_rtable_modified rs = Some rs' \<and> \<not> rs_is_netfpga rs'"
  using trigger_rtable_spec [of rs] by auto

theorem del_route_spec_witness:
  "\<exists>n rs'. del_route rs_soft 10 255 = Some (n, rs') \<and> n = 2 \<and> length (rs_rtable rs') = 1"
proof -
  obtain n rs' where "del_route rs_soft 10 255 = Some (n, rs')"
    using trigger_rtable_soft [of "rs_soft\<lparr>rs_rtable := fst (del_route_loop 10 255 routes3 0)\<rparr>"]
    by (auto simp: del_route_def split_beta)
  moreover from del_route_spec [OF this]
  have "n = 2" "size (mset (rs_rtable rs')) = 1" by (simp_all add: routes3_def)
  ultimately show ?thesis by auto
qed

text \<open>
  \<^verbatim>\<open>add_route\<close> always reports success (also for a route that is already there, which its
  comment rules out) and adds one active static route to the table.
\<close>

theorem add_route_spec:
  assumes "add_route rs d gw m interface = Some (rc, rs')" and "length interface < 32"
  shows "rc = 0 \<and> mset (rs_rtable rs') = add_mset
      \<lparr>re_ip = d, re_gw = gw, re_mask = m, re_iface = interface, re_is_static = True,
        re_is_active = True\<rparr> (mset (rs_rtable rs)) \<and> table_sorted (rs_rtable rs')"
  using assms
  by (auto simp: add_route_def bind_eq_Some_conv IF_LEN_def dest: trigger_rtable_Some(2,3))

theorem add_route_spec_witness:
  "\<exists>rc rs'. add_route rs_soft 10 7 65535 ''eth1'' = Some (rc, rs') \<and> rc = 0 \<and>
    length (rs_rtable rs') = 4"
proof -
  obtain rc rs' where add: "add_route rs_soft 10 7 65535 ''eth1'' = Some (rc, rs')"
    using trigger_rtable_soft [of "rs_soft\<lparr>rs_rtable := routes3 @ [\<lparr>re_ip = 10, re_gw = 7,
      re_mask = 65535, re_iface = ''eth1'', re_is_static = True, re_is_active = True\<rparr>]\<rparr>"]
    by (auto simp: add_route_def IF_LEN_def)
  from add_route_spec [OF this]
  have "rc = 0" "mset (rs_rtable rs') = add_mset \<lparr>re_ip = 10, re_gw = 7, re_mask = 65535,
      re_iface = ''eth1'', re_is_static = True, re_is_active = True\<rparr> (mset routes3)" by simp_all
  moreover from this(2) have "size (mset (rs_rtable rs')) = 4"
    by (simp only: size_add_mset) (simp add: routes3_def)
  ultimately have "length (rs_rtable rs') = 4" by (metis size_mset)
  with add \<open>rc = 0\<close> show ?thesis by auto
qed

lemma deactivate_loop_conv:
  "deactivate_routes_loop nm l =
     map (\<lambda>e. if iface_prefix nm e then e\<lparr>re_is_active := False\<rparr> else e)
       (filter (\<lambda>e. iface_prefix nm e \<longrightarrow> re_is_static e) l)"
  by (induction l) auto

lemma deactivate_routes_mset:
  assumes "deactivate_routes rs nm = Some (rc, rs')"
  shows "mset (rs_rtable rs') =
    image_mset (\<lambda>e. if iface_prefix nm e then e\<lparr>re_is_active := False\<rparr> else e)
      (filter_mset (\<lambda>e. iface_prefix nm e \<longrightarrow> re_is_static e) (mset (rs_rtable rs)))"
  using assms
  by (auto simp: deactivate_routes_def deactivate_loop_conv bind_eq_Some_conv
      dest!: trigger_rtable_Some(2))

lemma activate_routes_mset:
  assumes "activate_routes rs nm = Some (rc, rs')"
  shows "mset (rs_rtable rs') =
    image_mset (\<lambda>e. if iface_prefix nm e then e\<lparr>re_is_active := True\<rparr> else e) (mset (rs_rtable rs))"
  using assms
  by (auto simp: activate_routes_def bind_eq_Some_conv dest!: trigger_rtable_Some(2))

lemma iface_prefix_update [simp]:
  "iface_prefix nm (e\<lparr>re_is_active := b\<rparr>) = iface_prefix nm e"
  by (simp add: iface_prefix_def)

text \<open>
  C19. Once the routes of an interface are deactivated no lookup answers with an interface
  whose name starts with that name, and activating them again brings back exactly its static
  routes: the routes of other interfaces never change and its dynamic routes are gone.
\<close>

theorem deactivate_activate_routes:
  assumes down: "deactivate_routes rs nm = Some (rc, rs1)"
    and up: "activate_routes rs1 nm = Some (rc', rs2)"
  shows "(\<forall>len d hop interface. get_next_hop len rs1 d = Some (hop, interface) \<longrightarrow>
      take (length nm) interface \<noteq> nm \<or> len < length nm) \<and>
    mset (rs_rtable rs2) =
      image_mset (\<lambda>e. if iface_prefix nm e then e\<lparr>re_is_active := True\<rparr> else e)
        (filter_mset (\<lambda>e. iface_prefix nm e \<longrightarrow> re_is_static e) (mset (rs_rtable rs)))"
proof (intro conjI allI impI)
  fix len d hop interface
  assume "get_next_hop len rs1 d = Some (hop, interface)"
  then have "find (is_lpm d (rs_rtable rs1)) (rs_rtable rs1) \<noteq> None"
    by (auto simp: get_next_hop_def get_next_hop_loop_lpm split: option.splits)
  then obtain e where e: "find (is_lpm d (rs_rtable rs1)) (rs_rtable rs1) = Some e" by blast
  with \<open>get_next_hop len rs1 d = _\<close> have "interface = take len (re_iface e)"
    by (simp add: get_next_hop_def get_next_hop_loop_lpm)
  moreover from find_SomeD [OF e] have "e \<in># mset (rs_rtable rs1)" "re_is_active e"
    by (auto simp: is_lpm_def max_elem_def)
  then have "\<not> iface_prefix nm e"
    unfolding deactivate_routes_mset [OF down] by auto
  ultimately show "take (length nm) interface \<noteq> nm \<or> len < length nm"
    by (auto simp: iface_prefix_def min_def)
next
  show "mset (rs_rtable rs2) =
      image_mset (\<lambda>e. if iface_prefix nm e then e\<lparr>re_is_active := True\<rparr> else e)
        (filter_mset (\<lambda>e. iface_prefix nm e \<longrightarrow> re_is_static e) (mset (rs_rtable rs)))"
    unfolding activate_routes_mset [OF up] deactivate_routes_mset [OF down]
    by (auto simp: image_mset.compositionality comp_def intro: image_mset_cong)
qed

theorem deactivate_activate_routes_witness:
  "\<exists>rs1 rs2. deactivate_routes rs_soft ''eth0'' = Some (0, rs1) \<and>
    activate_routes rs1 ''eth0'' = Some (0, rs2) \<and> length (rs_rtable rs2) = 2"
proof -
  obtain rs1 where down: "deactivate_routes rs_soft ''eth0'' = Some (0, rs1)"
      and soft: "\<not> rs_is_netfpga rs1"
    using trigger_rtable_soft [of "rs_soft\<lparr>rs_rtable := deactivate_routes_loop ''eth0'' routes3\<rparr>"]
    by (auto simp: deactivate_routes_def)
  obtain rs2 where up: "activate_routes rs1 ''eth0'' = Some (0, rs2)"
    using trigger_rtable_soft [of "rs1\<lparr>rs_rtable := map (\<lambda>entry. if iface_prefix ''eth0'' entry
        then entry\<lparr>re_is_active := True\<rparr> else entry) (rs_rtable rs1)\<rparr>"] soft
    by (auto simp: activate_routes_def)
  from deactivate_activate_routes [OF down up]
  have "size (mset (rs_rtable rs2)) = 2" by (simp add: routes3_def iface_prefix_def)
  with down up show ?thesis by auto
qed

subsection \<open>The TCAM of the forwarding hardware\<close>

text \<open>
  A row of the table in \<^verbatim>\<open>ip_lpm.v\<close>, read from the registers stored for it, and its lookup: the
  lowest row whose address agrees with the destination on the bits of its mask; a next hop of
  0 is replaced by the destination.
\<close>

record tcam_row =
  tr_ip :: u32
  tr_mask :: u32
  tr_next_hop :: u32
  tr_port :: u32

definition tcam_row_of :: "(reg \<Rightarrow> u32) \<Rightarrow> tcam_row" where
  "tcam_row_of R = \<lparr>tr_ip = R INDIRECTWRDATA_A_HI, tr_mask = R INDIRECTWRDATA_B_HI,
     tr_next_hop = R INDIRECTWRDATA_A_LOW, tr_port = R INDIRECTWRDATA_B_LOW\<rparr>"

definition tcam_match :: "u32 \<Rightarrow> tcam_row \<Rightarrow> bool" where
  "tcam_match dst r \<longleftrightarrow> tr_ip r AND tr_mask r = dst AND tr_mask r"

definition tcam_lookup :: "tcam_row list \<Rightarrow> u32 \<Rightarrow> (u32 \<times> u32) option" where
  "tcam_lookup rows dst = (case find (tcam_match dst) rows of
     None \<Rightarrow> None
   | Some r \<Rightarrow> Some (if tr_next_hop r = 0 then dst else tr_next_hop r, tr_port r))"

definition lpm_rows :: "router_state \<Rightarrow> (reg \<times> u32) list \<Rightarrow> tcam_row list" where
  "lpm_rows rs ws =
     map (\<lambda>i. tcam_row_of (snd (hw_replay ws (\<lambda>_. 0, \<lambda>_ _. 0)) (lpm_tcam_address (rs_hw rs) OR of_nat i)))
       [0..<lpm_tcam_width (rs_hw rs)]"

text \<open>The rows of the table have addresses of their own.\<close>

definition lpm_addresses_ok :: "hw_config \<Rightarrow> bool" where
  "lpm_addresses_ok hw \<longleftrightarrow>
     distinct (map (\<lambda>i. lpm_tcam_address hw OR of_nat i) [0..<lpm_tcam_width hw])"

definition row_of_route :: "rtable_entry \<Rightarrow> tcam_row" where
  "row_of_route e = \<lparr>tr_ip = ntohl (re_ip e), tr_mask = ntohl (re_mask e),
     tr_next_hop = ntohl (re_gw e),
     tr_port = (case getOneHotPortNumber (re_iface e) of None \<Rightarrow> 0 | Some p \<Rightarrow> p)\<rparr>"

definition zero_row :: tcam_row where
  "zero_row = \<lparr>tr_ip = 0, tr_mask = 0, tr_next_hop = 0, tr_port = 0\<rparr>"

text \<open>The rows written from a list of active routes to the row numbers \<open>is\<close>.\<close>

fun rows_for :: "rtable_entry list \<Rightarrow> nat list \<Rightarrow> tcam_row list" where
  "rows_for l [] = []"
| "rows_for (e # l) (i # is) = row_of_route e # rows_for l is"
| "rows_for [] (i # is) = zero_row # rows_for [] is"

lemma rows_for_eq:
  "rows_for l is = map row_of_route (take (length is) l) @ replicate (length is - length l) zero_row"
  by (induction l "is" rule: rows_for.induct) auto

definition write_tcam_row :: "tcam_row \<Rightarrow> nat \<Rightarrow> router_state \<Rightarrow> router_state" where
  "write_tcam_row r = write_rtable_row (tr_ip r) (tr_mask r) (tr_next_hop r) (tr_port r)"

interpretation lpm_tcam: hw_table write_tcam_row lpm_tcam_address tcam_row_of
proof
  fix r i rs a S
  show "a \<noteq> lpm_tcam_address (rs_hw rs) OR of_nat i \<Longrightarrow>
      snd (hw_replay (rs_regs (write_tcam_row r i rs)) S) a = snd (hw_replay (rs_regs rs) S) a"
    "tcam_row_of (snd (hw_replay (rs_regs (write_tcam_row r i rs)) S)
       (lpm_tcam_address (rs_hw rs) OR of_nat i)) = r"
    by (cases "hw_replay (rs_regs rs) S";
        simp add: write_tcam_row_def write_rtable_row_def Let_def hw_replay_append tcam_row_of_def)+
  show "rs_hw (write_tcam_row r i rs) = rs_hw rs" by (simp add: write_tcam_row_def)
qed

lemma filter_next_active [simp]: "filter re_is_active (next_active l) = filter re_is_active l"
  by (induction l) (auto simp: next_active_def)

lemma write_rtable_rows_fold:
  "write_rtable_rows cur is rs = Some rs' \<Longrightarrow> next_active cur = cur \<Longrightarrow>
     rs' = fold (case_prod write_tcam_row) (zip (rows_for (filter re_is_active cur) is) is) rs"
proof (induction cur "is" rs rule: write_rtable_rows.induct)
  case (2 e cur i "is" rs)
  from 2(3) have "re_is_active e" by (rule next_active_Cons)
  with 2 show ?case
    by (auto simp: bind_eq_Some_conv write_tcam_row_def row_of_route_def)
qed (simp_all add: write_tcam_row_def zero_row_def)

lemma length_rows_for [simp]: "length (rows_for l is) = length is"
  by (simp add: rows_for_eq)

text \<open>The masks of prefixes: \<open>k\<close> ones followed by zeros.\<close>

definition prefix_mask :: "nat \<Rightarrow> u32" where
  "prefix_mask k = push_bit (32 - k) (-1)"

lemma and_1_bit: "drop_bit i (m :: u32) AND 1 \<noteq> 0 \<longleftrightarrow> bit m i"
  by (simp add: and_one_eq bit_iff_odd_drop_bit odd_iff_mod_2_eq_one)

lemma count_bits_loop_length:
  "count_bits_loop m is n = n + int (length (filter (bit m) is))"
  by (induction "is" arbitrary: n) (auto simp: and_1_bit)

lemma bit_prefix_mask: "k \<le> 32 \<Longrightarrow> bit (prefix_mask k) i \<longleftrightarrow> 32 - k \<le> i \<and> i < 32"
  by (auto simp: prefix_mask_def bit_simps)

lemma count_bits_prefix_mask: "k \<le> 32 \<Longrightarrow> count_bits (prefix_mask k) = int k"
proof -
  assume k: "k \<le> 32"
  have "[0..<32] = [0..<32 - k] @ [32 - k..<32]"
    using k by (metis upt_add_eq_append diff_le_self le0 le_add_diff_inverse2 plus_nat.add_0)
  then have "filter (bit (prefix_mask k)) [0..<32] = [32 - k..<32]"
    using k by (simp add: bit_prefix_mask filter_id_conv filter_empty_conv)
  with k show ?thesis by (simp add: count_bits_def count_bits_loop_length)
qed

lemma prefix_mask_le:
  assumes "j \<le> 32" "k \<le> 32" "prefix_mask j \<le> prefix_mask k"
  shows "j \<le> k"
proof (rule ccontr)
  assume "\<not> j \<le> k"
  with assms(1,2) have "prefix_mask k AND prefix_mask j = prefix_mask k"
    by (intro bit_word_eqI) (auto simp: bit_and_iff bit_prefix_mask)
  then have "prefix_mask k \<le> prefix_mask j" by (metis word_and_le1)
  with assms(3) have "prefix_mask j = prefix_mask k" by simp
  then have "bit (prefix_mask j) (32 - j) = bit (prefix_mask k) (32 - j)" by simp
  with assms(1,2) \<open>\<not> j \<le> k\<close> show False by (simp add: bit_prefix_mask)
qed
text \<open>Every route has a prefix mask and, when it is active, an interface with a port number.\<close>

definition masks_ok :: "rtable_entry list \<Rightarrow> bool" where
  "masks_ok l \<longleftrightarrow> (\<forall>e\<in>set l. ntohl (re_mask e) \<in> prefix_mask ` {0..32})"

lemma count_bits_mono:
  assumes "x \<in> prefix_mask ` {0..32}" "y \<in> prefix_mask ` {0..32}" "x \<le> y"
  shows "count_bits x \<le> count_bits y"
  using assms by (auto simp: count_bits_prefix_mask dest: prefix_mask_le [rotated 2])

lemma route_key_mask: "route_key b \<le> route_key a \<Longrightarrow> ntohl (re_mask b) \<le> ntohl (re_mask a)"
  by (auto simp: route_key_def less_eq_route_key_def less_route_key_def)

text \<open>In a sorted table the first route that covers the destination is the longest match.\<close>

lemma lpm_first_match:
  assumes "table_sorted l" and "masks_ok l"
  shows "find (is_lpm d l) l = find (\<lambda>e. re_is_active e \<and> route_matches d e) l"
  unfolding is_lpm_def
proof (rule find_max_elem_sorted)
  show "sorted_wrt (\<lambda>a b. count_bits (ntohl (re_mask b)) \<le> count_bits (ntohl (re_mask a))) l"
    using assms(1) unfolding table_sorted_def
    by (rule sorted_wrt_mono_rel [rotated])
      (use assms(2) in \<open>auto simp: masks_ok_def intro!: count_bits_mono route_key_mask\<close>)
qed

lemma write_rtable_rows_ports:
  "write_rtable_rows cur is rs = Some rs' \<Longrightarrow> next_active cur = cur \<Longrightarrow>
     e \<in> set (take (length is) (filter re_is_active cur)) \<Longrightarrow>
     getOneHotPortNumber (re_iface e) \<noteq> None"
proof (induction cur "is" rs rule: write_rtable_rows.induct)
  case (2 e' cur i "is" rs)
  from 2(3) have "re_is_active e'" by (rule next_active_Cons)
  with 2 show ?case by (auto simp: bind_eq_Some_conv)
qed simp_all

lemma tcam_match_route: "tcam_match (ntohl d) (row_of_route e) = route_matches d e"
  by (simp add: tcam_match_def row_of_route_def route_matches_def Let_def)

text \<open>After every change the first rows of the TCAM are the active routes and the others are zero.\<close>

lemma trigger_rtable_rows:
  assumes hw: "rs_is_netfpga rs" "lpm_addresses_ok (rs_hw rs)"
    and trigger: "trigger_rtable_modified rs = Some rs'"
    and fits: "length (filter re_is_active (rs_rtable rs)) \<le> lpm_tcam_width (rs_hw rs)"
  defines "A \<equiv> filter re_is_active (rs_rtable rs')" and "w \<equiv> lpm_tcam_width (rs_hw rs)"
  shows "length A \<le> w"
    and "map (\<lambda>i. tcam_row_of (snd (hw_replay (rs_regs rs') S) (lpm_tcam_address (rs_hw rs) OR of_nat i))) [0..<w] =
      map row_of_route A @ replicate (w - length A) zero_row"
    and "e \<in> set A \<Longrightarrow> getOneHotPortNumber (re_iface e) \<noteq> None" and "rs_hw rs' = rs_hw rs"
proof -
  let ?l = "rs_rtable rs'"
  note t = trigger_rtable_Some [OF trigger]
  from t(5) [OF hw(1)] have wr: "write_rtable_rows (next_active ?l) [0..<w]
      (rs\<lparr>rs_rtable := ?l\<rparr>) = Some rs'" by (simp add: write_rtable_to_hw_def w_def)
  have "mset A = mset (filter re_is_active (rs_rtable rs))" using t(2) by (simp add: A_def)
  then show len: "length A \<le> w" using fits unfolding w_def by (metis size_mset)
  have "map (\<lambda>i. tcam_row_of (snd (hw_replay (rs_regs rs') S) (lpm_tcam_address (rs_hw rs) OR of_nat i))) [0..<w] =
      rows_for A [0..<w]"
    using write_rtable_rows_fold [OF wr next_active_idem] hw(2)
      lpm_tcam.rows_fold [of "rs\<lparr>rs_rtable := ?l\<rparr>" "[0..<w]" "rows_for A [0..<w]"]
    by (simp add: lpm_addresses_ok_def A_def w_def)
  then show "map (\<lambda>i. tcam_row_of (snd (hw_replay (rs_regs rs') S) (lpm_tcam_address (rs_hw rs) OR of_nat i))) [0..<w] =
      map row_of_route A @ replicate (w - length A) zero_row"
    using len by (simp add: rows_for_eq)
  show "getOneHotPortNumber (re_iface e) \<noteq> None" if "e \<in> set A"
    using write_rtable_rows_ports [OF wr next_active_idem, of e] that len by (simp add: A_def)
  show "rs_hw rs' = rs_hw rs"
    using arg_cong [OF write_rtable_rows_fold [OF wr next_active_idem], of rs_hw]
    by (simp only: lpm_tcam.hw_fold) simp
qed

text \<open>
  C1. The hardware forwards as the software routes: when the routes have prefix masks and the
  active ones fit the TCAM, then after every change of the table the TCAM, filled by the
  register writes alone, answers each destination with the next hop and the port of the
  interface that \<^verbatim>\<open>get_next_hop\<close> finds, and with port 0 or a miss when there is no route.
\<close>

theorem hardware_agrees_with_software:
  assumes hw: "rs_is_netfpga rs" "lpm_addresses_ok (rs_hw rs)"
    and trigger: "trigger_rtable_modified rs = Some rs'"
    and masks: "masks_ok (rs_rtable rs)"
    and fits: "length (filter re_is_active (rs_rtable rs)) \<le> lpm_tcam_width (rs_hw rs)"
  shows "case get_next_hop 32 rs' d of
      None \<Rightarrow> (case tcam_lookup (lpm_rows rs (rs_regs rs')) (ntohl d) of
                None \<Rightarrow> True | Some (_, port) \<Rightarrow> port = 0)
    | Some (hop, interface) \<Rightarrow> (\<exists>port. getOneHotPortNumber interface = Some port \<and>
        tcam_lookup (lpm_rows rs (rs_regs rs')) (ntohl d) = Some (ntohl hop, port))"
proof -
  let ?l = "rs_rtable rs'" and ?w = "lpm_tcam_width (rs_hw rs)"
  let ?A = "filter re_is_active ?l"
  note t = trigger_rtable_Some [OF trigger]
  note hwt = trigger_rtable_rows [OF hw trigger fits]
  have rows: "lpm_rows rs (rs_regs rs') = map row_of_route ?A @ replicate (?w - length ?A) zero_row"
    using hwt(2) [of "(\<lambda>_. 0, \<lambda>_ _. 0)"] by (simp add: lpm_rows_def)
  have ports: "getOneHotPortNumber (re_iface e) \<noteq> None" if "e \<in> set ?A" for e
    by (rule hwt(3) [OF that])
  have "masks_ok ?l" using masks mset_eq_setD [OF t(2)] by (simp add: masks_ok_def)
  from lpm_first_match [OF t(3) this]
  have find: "find (is_lpm d ?l) ?l = find (route_matches d) ?A" by (simp add: find_filter)
  show ?thesis
  proof (cases "find (route_matches d) ?A")
    case None
    then have "get_next_hop 32 rs' d = None"
      by (simp add: get_next_hop_def get_next_hop_loop_lpm find)
    moreover have "find (tcam_match (ntohl d)) (lpm_rows rs (rs_regs rs')) \<in> {None, Some zero_row}"
      using None by (simp add: rows find_append find_map comp_def tcam_match_route find_replicate)
    ultimately show ?thesis by (auto simp: tcam_lookup_def zero_row_def)
  next
    case (Some e)
    from find_SomeD [OF this] ports obtain port
      where port: "getOneHotPortNumber (re_iface e) = Some port" by auto
    then have "take 32 (re_iface e) = re_iface e"
      by (auto simp: getOneHotPortNumber_def port_names split: if_splits)
    moreover from Some have "find (tcam_match (ntohl d)) (lpm_rows rs (rs_regs rs')) =
        Some (row_of_route e)"
      by (simp add: rows find_append find_map comp_def tcam_match_route)
    ultimately show ?thesis
      using Some port
      by (simp add: get_next_hop_def get_next_hop_loop_lpm find tcam_lookup_def row_of_route_def)
  qed
qed

text \<open>A router with the hardware and two routes, the shorter prefix first.\<close>

definition rs_hard :: router_state where
  "rs_hard = rs0\<lparr>rs_rtable :=
     [\<lparr>re_ip = 0, re_gw = 0x0100000a, re_mask = 0, re_iface = ''eth0'', re_is_static = True,
       re_is_active = True\<rparr>,
      \<lparr>re_ip = 0x0000a8c0, re_gw = 0, re_mask = 0x0000ffff, re_iface = ''eth1'',
       re_is_static = True, re_is_active = True\<rparr>]\<rparr>"

lemma rs_hard_simps [simp]: "rs_is_netfpga rs_hard" "rs_hw rs_hard = hw4"
  by (simp_all add: rs_hard_def)

theorem hardware_agrees_with_software_witness:
  "\<exists>rs'. trigger_rtable_modified rs_hard = Some rs' \<and>
    (case get_next_hop 32 rs' 0x0500a8c0 of
      None \<Rightarrow> (case tcam_lookup (lpm_rows rs_hard (rs_regs rs')) (ntohl 0x0500a8c0) of
                None \<Rightarrow> True | Some (_, port) \<Rightarrow> port = 0)
    | Some (hop, interface) \<Rightarrow> (\<exists>port. getOneHotPortNumber interface = Some port \<and>
        tcam_lookup (lpm_rows rs_hard (rs_regs rs')) (ntohl 0x0500a8c0) = Some (ntohl hop, port)))"
proof -
  obtain rs' where t: "trigger_rtable_modified rs_hard = Some rs'"
    using trigger_rtable_returns [of rs_hard]
    by (auto simp: rs_hard_def getOneHotPortNumber_def port_names)
  have "lpm_addresses_ok (rs_hw rs_hard)"
    by (simp add: lpm_addresses_ok_def hw4_def upt_rec)
  moreover have "masks_ok (rs_rtable rs_hard)"
  proof -
    have "ntohl 0 = prefix_mask 0" "ntohl 0x0000ffff = prefix_mask 16"
      by (simp_all add: prefix_mask_def ntohl_def mask_eq_exp_minus_1)
    then show ?thesis by (auto simp: masks_ok_def rs_hard_def)
  qed
  moreover have "length (filter re_is_active (rs_rtable rs_hard)) \<le> lpm_tcam_width (rs_hw rs_hard)"
    by (simp add: rs_hard_def hw4_def)
  ultimately show ?thesis
    using hardware_agrees_with_software [OF rs_hard_simps(1) _ t, where d = "0x0500a8c0"] t by blast
qed

theorem get_next_hop_longest_prefix_witness:
  "\<exists>hop interface. get_next_hop 32 rs_soft 10 = Some (hop, interface) \<and>
     (\<exists>e\<in>set routes3. is_lpm 10 routes3 e \<and> interface = take 32 (re_iface e))"
proof -
  have "\<exists>e\<in>set routes3. re_is_active e \<and> route_matches 10 e"
    by (simp add: routes3_def route_matches_def Let_def)
  then have "get_next_hop 32 rs_soft 10 \<noteq> None" by (auto simp: get_next_hop_None)
  then obtain hop interface where gn: "get_next_hop 32 rs_soft 10 = Some (hop, interface)" by auto
  from get_next_hop_longest_prefix [where len = 32 and rs = rs_soft and d = 10]
  obtain ps e qs where "routes3 = ps @ e # qs" "is_lpm 10 routes3 e"
      "interface = take 32 (re_iface e)" unfolding gn by auto
  with gn show ?thesis by (metis in_set_conv_decomp)
qed

end
