(* ===== verification/Checksum.thy ===== *)
theory Checksum
  imports Data_Types
begin

section \<open>Internet checksums (\<^verbatim>\<open>or_ip.c\<close>, \<^verbatim>\<open>or_icmp.c\<close>, \<^verbatim>\<open>or_pwospf.c\<close>, \<^verbatim>\<open>or_nat.c\<close>)\<close>

text \<open>
  The routines that compute and verify ones' complement checksums, at the widths of the code
  (64-bit sums when computing, a 32-bit sum truncated to 16 bits when verifying), and the
  incremental update of NAT. The lemmas reduce each of them to arithmetic modulo 65535.
\<close>

subsection \<open>The routines\<close>

text \<open>The loop over 16-bit words; \<open>use\<close> says which of them are added.\<close>

fun sum_shorts :: "(nat \<Rightarrow> bool) \<Rightarrow> packet \<Rightarrow> nat \<Rightarrow> nat list \<Rightarrow> u64 \<Rightarrow> u64" where
  "sum_shorts use p s_ptr [] acc = acc"
| "sum_shorts use p s_ptr (i # is) acc =
     sum_shorts use p s_ptr is (if use i then acc + ucast (ntohs (ld16 p (s_ptr + 2 * i))) else acc)"

text \<open>Sum the carries and complement.\<close>

definition fold_carries :: "u64 \<Rightarrow> u16" where
  "fold_carries acc =
     (let sum = drop_bit 16 acc + (acc AND 0xFFFF);
          sum = sum + drop_bit 16 sum;
          s_sum = ucast (sum AND 0xFFFF) :: u16
      in NOT s_sum)"

text \<open>The checksum field is set to 0 in the packet; the result is in host order.\<close>

definition compute_ip_checksum :: "packet \<Rightarrow> nat \<Rightarrow> u16 \<times> packet" where
  "compute_ip_checksum p iphdr =
     (let p = st16 p (iphdr + 10) 0;
          numShorts = unat (ip_hl p iphdr) * 2
      in (fold_carries (sum_shorts (\<lambda>i. i \<noteq> 5) p iphdr [0..<numShorts] 0), p))"

definition compute_icmp_checksum :: "packet \<Rightarrow> nat \<Rightarrow> int \<Rightarrow> u16 \<times> packet" where
  "compute_icmp_checksum p icmp payload_len =
     (let p = st16 p (icmp + 2) 0;
          numShorts = nat ((int sizeof_icmp_hdr + payload_len) div 2)
      in (fold_carries (sum_shorts (\<lambda>i. i \<noteq> 1) p icmp [0..<numShorts] 0), p))"

definition compute_pwospf_checksum :: "packet \<Rightarrow> nat \<Rightarrow> u16 \<times> packet" where
  "compute_pwospf_checksum p pwospf =
     (let p = st16 p (pwospf + 12) 0;
          numShorts = unat (ntohs (ld16 p (pwospf + 2))) div 2
      in (fold_carries (sum_shorts (\<lambda>i. i < 8 \<or> 11 < i) p pwospf [0..<numShorts] 0), p))"

fun verify_loop :: "packet \<Rightarrow> nat \<Rightarrow> nat list \<Rightarrow> u32 \<Rightarrow> u32" where
  "verify_loop p data [] sum_2_comp = sum_2_comp"
| "verify_loop p data (i # is) sum_2_comp =
     verify_loop p data is (sum_2_comp + ucast (ntohs (ld16 p (data + 2 * i))))"

definition verify_checksum :: "packet \<Rightarrow> nat \<Rightarrow> nat \<Rightarrow> int" where
  "verify_checksum p data data_length =
     (let len = data_length div 2;
          sum_2_comp = verify_loop p data [0..<len] 0;
          sum_1_comp = ucast (drop_bit 16 sum_2_comp + (sum_2_comp AND 0xFFFF)) :: u16
      in if sum_1_comp = 0xFFFF then 0 else 1)"

text \<open>\<^verbatim>\<open>old + pos\<close> is an int sum; the subtraction wraps at 32 bits.\<close>

definition nat_checksum :: "u16 \<Rightarrow> u16 \<Rightarrow> u16 \<Rightarrow> u16" where
  "nat_checksum old pos neg =
     (let word = ucast old + ucast pos :: u32;
          word = drop_bit 16 word + (word AND 0xFFFF);
          word = word - ucast neg;
          word = (if word > 0xFFFF then word - 1 else word)
      in ucast (word AND 0xFFFF))"

text \<open>The checksums cached for an address and port; the sums fit in 32 bits.\<close>

definition compute_nat_checksums :: "nat_ip_port_pair \<Rightarrow> nat_ip_port_pair" where
  "compute_nat_checksums pair =
     (let s0 = ntohs (ucast (np_ip pair)); s1 = ntohs (ucast (drop_bit 16 (np_ip pair)));
          fold = (\<lambda>acc :: u32. let sum = drop_bit 16 acc + (acc AND 0xFFFF);
                                  sum = sum + drop_bit 16 sum
                              in NOT (ucast (sum AND 0xFFFF) :: u16));
          pair = pair\<lparr>np_checksum := htons (fold (ucast s0 + ucast s1 + ucast (ntohs (np_port pair))))\<rparr>;
          pair = pair\<lparr>np_checksum_ip := htons (fold (ucast s0 + ucast s1))\<rparr>
      in pair\<lparr>np_checksum_port := NOT (np_port pair)\<rparr>)"

subsection \<open>Sums modulo 65535\<close>

text \<open>The ones' complement value of a sum.\<close>

definition csum :: "nat \<Rightarrow> nat" where
  "csum N = (if N = 0 then 0 else if N mod 65535 = 0 then 65535 else N mod 65535)"

lemma csum_le: "csum N \<le> 65535"
  using mod_less_divisor [of 65535 N] by (simp add: csum_def less_imp_le)

lemma csum_mod [simp]: "csum N mod 65535 = N mod 65535"
  by (simp add: csum_def)

lemma csum_eq_0 [simp]: "csum N = 0 \<longleftrightarrow> N = 0"
  by (simp add: csum_def)

text \<open>Two numbers below \<open>2 ^ 16\<close> with the same residue are equal or the two zeros.\<close>

lemma residue_cases:
  assumes "(a :: nat) \<le> 65535" "b \<le> 65535" "a mod 65535 = b mod 65535"
  shows "a = b \<or> {a, b} = {0, 65535}"
proof (cases "a = 65535 \<or> b = 65535")
  case True
  then show ?thesis using assms by (auto simp: le_less mod_less)
next
  case False
  with assms show ?thesis by simp
qed

lemma fold_csum_parts:
  assumes a: "a \<le> 65535" and b: "b \<le> 65535" and f: "f = a + (b :: nat)"
  shows "(f + f div 65536) mod 65536 = csum (65536 * a + b)"
proof -
  have N: "65536 * a + b = 65535 * a + f" using f by simp
  have mod: "(65536 * a + b) mod 65535 = f mod 65535" unfolding N by (rule mod_mult_self4)
  show ?thesis
  proof (cases "f \<le> 65535")
    case True
    then have "(f + f div 65536) mod 65536 = f" by simp
    moreover have "csum (65536 * a + b) = f"
    proof (cases "f = 65535 \<or> f = 0")
      case True
      with mod f show ?thesis by (auto simp: csum_def)
    next
      case False
      with True mod f show ?thesis by (simp add: csum_def)
    qed
    ultimately show ?thesis by simp
  next
    case False
    then have "f div 65536 = 1" using a b f by (intro div_nat_eqI) auto
    moreover have "(f + 1) mod 65536 = (f + 1 - 65536) mod 65536"
      by (rule le_mod_geq) (use False in linarith)
    moreover have "(f + 1 - 65536) mod 65536 = f + 1 - 65536"
      by (rule mod_less) (use a b f in linarith)
    ultimately have res: "(f + f div 65536) mod 65536 = f - 65535" by simp
    have "f - 65535 \<le> 65535" "0 < f - 65535" using a b f False by auto
    moreover have "f mod 65535 = (f - 65535) mod 65535"
      by (rule le_mod_geq) (use False in linarith)
    then have "csum (65536 * a + b) mod 65535 = (f - 65535) mod 65535" using mod by simp
    moreover have "csum (65536 * a + b) \<noteq> 0" using False f by auto
    ultimately have "csum (65536 * a + b) = f - 65535"
      using residue_cases [OF csum_le] by (metis doubleton_eq_iff less_irrefl)
    with res show ?thesis by simp
  qed
qed

lemma verify_fold:
  assumes a: "a < 65535" and b: "b < (65536 :: nat)"
  shows "(a + b) mod 65536 = 65535 \<longleftrightarrow> csum (65536 * a + b) = 65535"
proof (cases "a + b < 65536")
  case True
  then have "csum (65536 * a + b) = (a + b) mod 65536"
    using fold_csum_parts [of a b "a + b"] by simp
  then show ?thesis by simp
next
  case False
  then have d: "(a + b) div 65536 = 1" using a b by (intro div_nat_eqI) auto
  from False have "(a + b) mod 65536 = (a + b - 65536) mod 65536"
    "(a + b + 1) mod 65536 = (a + b + 1 - 65536) mod 65536" by (intro le_mod_geq; linarith)+
  moreover have "(a + b - 65536) mod 65536 = a + b - 65536"
    "(a + b + 1 - 65536) mod 65536 = a + b + 1 - 65536" using a b by (intro mod_less; linarith)+
  ultimately show ?thesis
    using fold_csum_parts [of a b "a + b"] a b d False by simp arith
qed

lemma fold_csum:
  assumes "N < 2 ^ 32"
  shows "(N div 65536 + N mod 65536 + (N div 65536 + N mod 65536) div 65536) mod 65536 = csum N"
proof -
  have "N div 65536 \<le> 65535"
    using assms by (simp add: less_Suc_eq_le [symmetric] div_less_iff_less_mult)
  moreover have "N mod 65536 \<le> 65535" using mod_less_divisor [of 65536 N] by linarith
  ultimately show ?thesis
    using fold_csum_parts [of "N div 65536" "N mod 65536", OF _ _ refl]
      mult_div_mod_eq [of 65536 N] by simp
qed

text \<open>Bit operations of the fold as arithmetic.\<close>

lemma unat_shift_16: "unat (drop_bit 16 (w :: 'a::len word)) = unat w div 65536"
  unfolding unat_drop_bit_eq by (simp add: drop_bit_eq_div)

lemma unat_and_FFFF: "unat ((w :: 'a::len word) AND 0xFFFF) = unat w mod 65536"
proof -
  have "w AND 0xFFFF = take_bit 16 w"
    by (simp add: take_bit_eq_mask mask_eq_exp_minus_1)
  then show ?thesis
    unfolding \<open>w AND 0xFFFF = take_bit 16 w\<close> unsigned_take_bit_eq by (simp add: take_bit_eq_mod)
qed

lemma unat_not_u16: "unat (NOT (w :: u16)) = 65535 - unat w"
proof -
  have "NOT w = - 1 - w" by (simp add: not_eq_complement)
  moreover have "unat (- 1 - w) = unat (- 1 :: u16) - unat w"
    by (rule unat_sub) (rule word_order.extremum)
  ultimately show ?thesis by (simp add: unsigned_minus_1_eq_mask mask_eq_exp_minus_1)
qed

lemma unat_ucast_u16: "unat (ucast (w :: 'a::len word) :: u16) = unat w mod 65536"
  unfolding unsigned_ucast_eq by (simp add: take_bit_eq_mod)

lemma unat_ucast_up:
  "unat (ucast (x :: u16) :: u64) = unat x" "unat (ucast (x :: u16) :: u32) = unat x"
  unfolding unsigned_ucast_eq take_bit_eq_mod using unat_u16 [of x] by simp_all

lemma unat_fold_carries:
  assumes "unat acc < 2 ^ 32"
  shows "unat (fold_carries acc) = 65535 - csum (unat acc)"
proof -
  let ?N = "unat acc"
  let ?s = "drop_bit 16 acc + (acc AND 0xFFFF)"
  have div: "?N div 65536 < 65536" using assms by (simp add: div_less_iff_less_mult)
  have mod: "?N mod 65536 < 65536" by simp
  have s: "unat ?s = ?N div 65536 + ?N mod 65536"
    using div mod by (subst unat_add_small) (simp_all add: unat_shift_16 unat_and_FFFF)
  have "unat ?s div 65536 < 65536" using s div mod by (simp add: div_less_iff_less_mult)
  then have "unat ?s + unat ?s div 65536 < 18446744073709551616"
    unfolding s using div mod by linarith
  then have "unat (?s + drop_bit 16 ?s) = unat ?s + unat ?s div 65536"
    by (subst unat_add_small) (simp_all add: unat_shift_16)
  then have "unat (ucast ((?s + drop_bit 16 ?s) AND 0xFFFF) :: u16) = csum ?N"
    unfolding unat_ucast_u16 unat_and_FFFF mod_mod_trivial using fold_csum [OF assms] s by simp
  then show ?thesis by (simp add: fold_carries_def Let_def unat_not_u16)
qed

text \<open>The sum of the 16-bit words in host order, as a number.\<close>

definition shorts_sum :: "(nat \<Rightarrow> bool) \<Rightarrow> packet \<Rightarrow> nat \<Rightarrow> nat list \<Rightarrow> nat" where
  "shorts_sum use p s_ptr is =
     sum_list (map (\<lambda>i. unat (ntohs (ld16 p (s_ptr + 2 * i)))) (filter use is))"

lemma shorts_sum_le: "shorts_sum use p s_ptr is \<le> 65535 * length is"
proof (induction "is")
  case (Cons i "is")
  from Cons unat_u16 [of "ntohs (ld16 p (s_ptr + 2 * i))"] show ?case
    by (auto simp: shorts_sum_def)
qed (simp add: shorts_sum_def)

lemma unat_sum_shorts:
  "unat acc + 65535 * length is < 2 ^ 64 \<Longrightarrow>
     unat (sum_shorts use p s_ptr is acc) = unat acc + shorts_sum use p s_ptr is"
proof (induction "is" arbitrary: acc)
  case (Cons i "is")
  let ?x = "ntohs (ld16 p (s_ptr + 2 * i))"
  have x: "unat ?x \<le> 65535" using unat_u16 [of ?x] by simp
  then have "unat (acc + ucast ?x) = unat acc + unat ?x"
    using Cons.prems by (subst unat_add_small) (simp_all add: unat_ucast_up)
  with Cons x show ?case by (simp add: shorts_sum_def)
qed (simp add: shorts_sum_def)

lemma unat_verify_loop:
  "unat acc + 65535 * length is < 2 ^ 32 \<Longrightarrow>
     unat (verify_loop p data is acc) = unat acc + shorts_sum (\<lambda>_. True) p data is"
proof (induction "is" arbitrary: acc)
  case (Cons i "is")
  let ?x = "ntohs (ld16 p (data + 2 * i))"
  have x: "unat ?x \<le> 65535" using unat_u16 [of ?x] by simp
  then have "unat (acc + ucast ?x) = unat acc + unat ?x"
    using Cons.prems by (subst unat_add_small) (simp_all add: unat_ucast_up)
  with Cons x show ?case by (simp add: shorts_sum_def)
qed (simp add: shorts_sum_def)

lemma shorts_sum_split:
  assumes "k < n"
  shows "shorts_sum (\<lambda>_. True) p s_ptr [0..<n] =
    shorts_sum (\<lambda>i. i \<noteq> k) p s_ptr [0..<n] + unat (ntohs (ld16 p (s_ptr + 2 * k)))"
  using assms
proof (induction n)
  case (Suc n)
  show ?case
  proof (cases "k = n")
    case True
    have "filter (\<lambda>i. i \<noteq> n) [0..<n] = [0..<n]" by (auto simp: filter_id_conv)
    with True show ?thesis by (simp add: shorts_sum_def)
  next
    case False
    with Suc show ?thesis by (simp add: shorts_sum_def)
  qed
qed simp

lemma shorts_sum_cong:
  assumes "\<And>i. i \<in> set is \<Longrightarrow> use i \<Longrightarrow> ld16 p (s_ptr + 2 * i) = ld16 q (s_ptr + 2 * i)"
  shows "shorts_sum use p s_ptr is = shorts_sum use q s_ptr is"
  using assms by (auto simp: shorts_sum_def intro!: arg_cong [where f = sum_list])

text \<open>A buffer is accepted exactly when its words sum to a positive multiple of 65535.\<close>

lemma verify_checksum_iff:
  assumes "data_length \<le> 65536"
  shows "verify_checksum p data data_length = 0 \<longleftrightarrow>
    csum (shorts_sum (\<lambda>_. True) p data [0..<data_length div 2]) = 65535"
proof -
  let ?N = "shorts_sum (\<lambda>_. True) p data [0..<data_length div 2]"
  let ?w = "verify_loop p data [0..<data_length div 2] 0"
  let ?s = "drop_bit 16 ?w + (?w AND 0xFFFF)"
  have N: "?N \<le> 65535 * 32768"
    using shorts_sum_le [of "\<lambda>_. True" p data "[0..<data_length div 2]"] assms by simp
  then have w: "unat ?w = ?N" using assms by (subst unat_verify_loop) auto
  let ?a = "?N div 65536" and ?b = "?N mod 65536"
  have a: "?a < 32768" using N by (simp add: div_less_iff_less_mult)
  have b: "?b < 65536" by simp
  have "unat ?s = ?a + ?b"
    using a b w by (subst unat_add_small) (simp_all add: unat_shift_16 unat_and_FFFF)
  then have u: "unat (ucast ?s :: u16) = (?a + ?b) mod 65536" by (simp add: unat_ucast_u16)
  have "verify_checksum p data data_length = 0 \<longleftrightarrow> (ucast ?s :: u16) = 0xFFFF"
    by (simp add: verify_checksum_def Let_def)
  also have "\<dots> \<longleftrightarrow> (?a + ?b) mod 65536 = 65535"
    unfolding word_unat_eq_iff u by simp
  also have "\<dots> \<longleftrightarrow> csum (65536 * ?a + ?b) = 65535"
    using a b by (intro verify_fold) simp_all
  also have "65536 * ?a + ?b = ?N" by (rule mult_div_mod_eq)
  finally show ?thesis .
qed

lemma csum_full: "csum N = 65535 \<longleftrightarrow> 0 < N \<and> N mod 65535 = 0"
  using mod_less_divisor [of 65535 N] by (auto simp: csum_def simp del: mod_less_divisor)

lemma csum_complement: "csum (N + (65535 - csum N)) = 65535"
proof -
  have "(N + (65535 - csum N)) mod 65535 = (csum N + (65535 - csum N)) mod 65535"
    by (rule mod_add_cong) simp_all
  also have "csum N + (65535 - csum N) = 65535" using csum_le [of N] by simp
  finally have "(N + (65535 - csum N)) mod 65535 = 0" by simp
  moreover have "0 < N + (65535 - csum N)" by (cases "N = 0") (auto simp: csum_def)
  ultimately show ?thesis by (simp add: csum_full)
qed

subsection \<open>Computing and verifying\<close>

text \<open>Only the words of the buffer count.\<close>

lemma verify_loop_cong:
  "(\<And>i. i \<in> set is \<Longrightarrow> ld16 p (data + 2 * i) = ld16 q (data + 2 * i)) \<Longrightarrow>
     verify_loop p data is acc = verify_loop q data is acc"
  by (induction "is" arbitrary: acc) auto

lemma verify_checksum_cong:
  assumes "\<And>j. data \<le> j \<Longrightarrow> j < data + n \<Longrightarrow> ld8 p j = ld8 q j"
  shows "verify_checksum p data n = verify_checksum q data n"
proof -
  have "verify_loop p data [0..<n div 2] 0 = verify_loop q data [0..<n div 2] 0"
    by (rule verify_loop_cong) (auto simp: ld16_def assms)
  then show ?thesis by (simp add: verify_checksum_def)
qed

text \<open>
  Storing the complement of the sum of the other words at word \<open>k\<close> makes the buffer valid.
\<close>

lemma store_checksum_valid:
  assumes S: "unat c = 65535 - csum (shorts_sum (\<lambda>i. i \<noteq> k) q s_ptr [0..<n])"
    and k: "k < n" "s_ptr + 2 * k + 1 < length q" and n: "2 * n \<le> data_length" "data_length \<le> 2 * n + 1"
      "data_length \<le> 65536"
  shows "verify_checksum (st16 q (s_ptr + 2 * k) (htons c)) s_ptr data_length = 0"
proof -
  let ?r = "st16 q (s_ptr + 2 * k) (htons c)"
  let ?S = "shorts_sum (\<lambda>i. i \<noteq> k) q s_ptr [0..<n]"
  have div: "data_length div 2 = n" using n by simp
  have "shorts_sum (\<lambda>i. i \<noteq> k) ?r s_ptr [0..<n] = ?S"
  proof (rule shorts_sum_cong)
    fix i assume "i \<noteq> k"
    then have "s_ptr + 2 * i + 1 < s_ptr + 2 * k \<or> s_ptr + 2 * k + 1 < s_ptr + 2 * i" by arith
    then show "ld16 ?r (s_ptr + 2 * i) = ld16 q (s_ptr + 2 * i)" by (rule ld16_other)
  qed
  moreover have "ld16 ?r (s_ptr + 2 * k) = htons c"
    using k by (simp add: ld16_st16_same)
  ultimately have "shorts_sum (\<lambda>_. True) ?r s_ptr [0..<n] = ?S + (65535 - csum ?S)"
    using S by (simp add: shorts_sum_split [OF k(1)])
  then show ?thesis
    using n(3) by (simp add: verify_checksum_iff div csum_complement)
qed

lemma ip_checksum_value:
  assumes "compute_ip_checksum p ip = (c, q)"
  shows "q = st16 p (ip + 10) 0"
    and "unat c = 65535 - csum (shorts_sum (\<lambda>i. i \<noteq> 5) q ip [0..<unat (ip_hl p ip) * 2])"
proof -
  let ?n = "unat (ip_hl p ip) * 2"
  show q: "q = st16 p (ip + 10) 0" using assms by (auto simp: compute_ip_checksum_def Let_def)
  have "ip_hl q ip = ip_hl p ip" by (simp add: q ip_hl_def ld8_st16_other)
  then have c: "c = fold_carries (sum_shorts (\<lambda>i. i \<noteq> 5) q ip [0..<?n] 0)"
    using assms q by (simp add: compute_ip_checksum_def Let_def)
  have hl: "unat (ip_hl p ip) < 256" by (rule unat_u8)
  then have "unat (sum_shorts (\<lambda>i. i \<noteq> 5) q ip [0..<?n] 0) = shorts_sum (\<lambda>i. i \<noteq> 5) q ip [0..<?n]"
    by (subst unat_sum_shorts) simp_all
  moreover have "shorts_sum (\<lambda>i. i \<noteq> 5) q ip [0..<?n] < 2 ^ 32"
    using shorts_sum_le [of "\<lambda>i. i \<noteq> 5" q ip "[0..<?n]"] hl by simp
  ultimately show "unat c = 65535 - csum (shorts_sum (\<lambda>i. i \<noteq> 5) q ip [0..<?n])"
    unfolding c by (subst unat_fold_carries) simp_all
qed

lemma ip_checksum_valid:
  assumes "3 \<le> unat (ip_hl p ip)" and "ip + 12 \<le> length p"
    and c: "compute_ip_checksum p ip = (c, q)"
  shows "verify_checksum (st16 q (ip + 10) (htons c)) ip (4 * unat (ip_hl p ip)) = 0"
  using store_checksum_valid [OF ip_checksum_value(2) [OF c], of "4 * unat (ip_hl p ip)"]
    ip_checksum_value(1) [OF c] assms(1,2) unat_u8 [of "ip_hl p ip"] by simp

text \<open>
  The checksum is determined by the other words up to the two representations of zero, and
  \<^verbatim>\<open>compute_ip_checksum\<close> never returns the one with all bits set for a nonzero buffer.
\<close>

lemma valid_checksum_unique:
  assumes "k < n" "n \<le> 32768"
    and same: "\<And>i. i < n \<Longrightarrow> i \<noteq> k \<Longrightarrow> ld16 p (d + 2 * i) = ld16 q (d + 2 * i)"
    and valid: "verify_checksum p d (2 * n) = 0" "verify_checksum q d (2 * n) = 0"
    and ones: "ntohs (ld16 p (d + 2 * k)) \<noteq> 0xFFFF" "ntohs (ld16 q (d + 2 * k)) \<noteq> 0xFFFF"
  shows "ld16 p (d + 2 * k) = ld16 q (d + 2 * k)"
proof -
  let ?S = "\<lambda>p. shorts_sum (\<lambda>i. i \<noteq> k) p d [0..<n]" and ?u = "\<lambda>p. unat (ntohs (ld16 p (d + 2 * k)))"
  have S: "?S p = ?S q" by (rule shorts_sum_cong) (simp add: same)
  have lt: "w \<noteq> 0xFFFF \<Longrightarrow> unat w < 65535" for w :: u16
    using unat_u16 [of w] by (auto simp: word_unat_eq_iff)
  have "(?S p + ?u p) mod 65535 = 0" "(?S p + ?u q) mod 65535 = 0"
    using valid assms(1,2) by (simp_all add: verify_checksum_iff csum_full shorts_sum_split [OF assms(1)] S)
  then have "65535 dvd ?S p + ?u p" "65535 dvd ?S p + ?u q" by (simp_all add: dvd_eq_mod_eq_0)
  then have "65535 dvd ?u p - ?u q" "65535 dvd ?u q - ?u p"
    using dvd_diff_nat [of 65535 "?S p + ?u p" "?S p + ?u q"] dvd_diff_nat [of 65535 "?S p + ?u q" "?S p + ?u p"]
    by simp_all
  moreover have "?u p - ?u q < 65535" "?u q - ?u p < 65535"
    using lt [OF ones(1)] lt [OF ones(2)] by linarith+
  ultimately have "?u p - ?u q = 0" "?u q - ?u p = 0"
    using nat_dvd_not_less by blast+
  then have "?u p = ?u q" by simp
  then show ?thesis by (metis ntohs_ntohs word_unat_eq_iff)
qed

text \<open>
  C30. The checksum that \<^verbatim>\<open>compute_ip_checksum\<close> returns, stored in the header, is accepted by
  \<^verbatim>\<open>verify_checksum\<close>, for every header length and whatever the field held before.
\<close>

theorem ip_checksum_roundtrip:
  assumes "3 \<le> unat (ip_hl p ip)" and "ip + 12 \<le> length p"
    and "compute_ip_checksum p ip = (c, q)"
  shows "verify_checksum (st16 q (ip + 10) (htons c)) ip (4 * unat (ip_hl p ip)) = 0"
  by (rule ip_checksum_valid [OF assms])

text \<open>A header of 20 bytes with a stale checksum.\<close>

definition hdr20 :: packet where
  "hdr20 = [0x45, 0, 0, 40, 1, 2, 0x40, 0, 64, 6, 0xde, 0xad, 192, 168, 0, 1, 10, 0, 0, 1]"

theorem ip_checksum_roundtrip_witness:
  "\<exists>c q. compute_ip_checksum hdr20 0 = (c, q) \<and>
    verify_checksum (st16 q 10 (htons c)) 0 20 = 0"
proof -
  obtain c q where c: "compute_ip_checksum hdr20 0 = (c, q)" by (cases "compute_ip_checksum hdr20 0")
  have hl: "unat (ip_hl hdr20 0) = 5"
    by (simp add: ip_hl_def ld8_def hdr20_def)
  from ip_checksum_roundtrip [OF _ _ c] hl c show ?thesis by (auto simp: hdr20_def)
qed

text \<open>
  \<^verbatim>\<open>verify_checksum\<close> accepts a buffer of up to 64 KiB exactly when its 16-bit words sum to a
  positive multiple of 65535: the truncation of its sum to 16 bits loses nothing there.
\<close>

theorem verify_checksum_spec:
  assumes "data_length \<le> 65536"
  shows "verify_checksum p data data_length = 0 \<longleftrightarrow>
    0 < shorts_sum (\<lambda>_. True) p data [0..<data_length div 2] \<and>
    shorts_sum (\<lambda>_. True) p data [0..<data_length div 2] mod 65535 = 0"
  using verify_checksum_iff [OF assms, of p data] by (simp add: csum_full)

theorem verify_checksum_spec_witness:
  "verify_checksum [0xff, 0xff, 0, 0] 0 4 = 0"
proof -
  have "shorts_sum (\<lambda>_. True) [0xff, 0xff, 0, 0] 0 [0..<4 div 2] = 65535"
    by (simp add: shorts_sum_def upt_rec ld16_def ld8_def unat_ntohs unat_w16)
  with verify_checksum_spec [of 4 "[0xff, 0xff, 0, 0]" 0] show ?thesis by simp
qed

lemma icmp_checksum_value:
  assumes "compute_icmp_checksum p icmp (int n) = (c, q)" and "n \<le> 60000"
  shows "q = st16 p (icmp + 2) 0"
    and "unat c = 65535 - csum (shorts_sum (\<lambda>i. i \<noteq> 1) q icmp [0..<(4 + n) div 2])"
proof -
  let ?n = "(4 + n) div 2"
  have num: "nat ((int sizeof_icmp_hdr + int n) div 2) = ?n"
    by (simp add: sizeof_icmp_hdr_def nat_div_distrib)
  show q: "q = st16 p (icmp + 2) 0"
    using assms(1) by (auto simp: compute_icmp_checksum_def Let_def)
  then have c: "c = fold_carries (sum_shorts (\<lambda>i. i \<noteq> 1) q icmp [0..<?n] 0)"
    using assms(1) num by (simp add: compute_icmp_checksum_def Let_def)
  have "unat (sum_shorts (\<lambda>i. i \<noteq> 1) q icmp [0..<?n] 0) = shorts_sum (\<lambda>i. i \<noteq> 1) q icmp [0..<?n]"
    using assms(2) by (subst unat_sum_shorts) simp_all
  moreover have "shorts_sum (\<lambda>i. i \<noteq> 1) q icmp [0..<?n] \<le> 65535 * ?n"
    using shorts_sum_le [of "\<lambda>i. i \<noteq> 1" q icmp "[0..<?n]"] by simp
  then have "shorts_sum (\<lambda>i. i \<noteq> 1) q icmp [0..<?n] < 2 ^ 32" using assms(2) by simp
  ultimately show "unat c = 65535 - csum (shorts_sum (\<lambda>i. i \<noteq> 1) q icmp [0..<?n])"
    unfolding c by (subst unat_fold_carries) simp_all
qed

lemma icmp_checksum_valid:
  assumes "compute_icmp_checksum p icmp (int n) = (c, q)" and "n \<le> 60000" "icmp + 4 \<le> length p"
  shows "verify_checksum (st16 q (icmp + 2) (htons c)) icmp (4 + n) = 0"
  using store_checksum_valid [of c 1 q icmp "(4 + n) div 2" "4 + n"]
    icmp_checksum_value [OF assms(1,2)] assms(2,3) by simp

text \<open>
  The checksum that \<^verbatim>\<open>compute_icmp_checksum\<close> returns makes the message valid for
  \<^verbatim>\<open>verify_checksum\<close>; with a payload of odd length neither looks at the last byte, so changing
  it changes nothing (RFC 792 pads it with a zero byte and adds it).
\<close>

theorem icmp_checksum_spec:
  assumes "compute_icmp_checksum p icmp (int n) = (c, q)" and "n \<le> 60000" "icmp + 4 \<le> length p"
  shows "verify_checksum (st16 q (icmp + 2) (htons c)) icmp (4 + n) = 0 \<and>
    (odd n \<longrightarrow> fst (compute_icmp_checksum (st8 p (icmp + 3 + n) b) icmp (int n)) = c)"
proof (intro conjI impI)
  show "verify_checksum (st16 q (icmp + 2) (htons c)) icmp (4 + n) = 0"
    by (rule icmp_checksum_valid [OF assms])
next
  assume odd: "odd n"
  let ?p = "st8 p (icmp + 3 + n) b"
  obtain c' q' where c': "compute_icmp_checksum ?p icmp (int n) = (c', q')"
    by (cases "compute_icmp_checksum ?p icmp (int n)")
  have "shorts_sum (\<lambda>i. i \<noteq> 1) q' icmp [0..<(4 + n) div 2] =
      shorts_sum (\<lambda>i. i \<noteq> 1) q icmp [0..<(4 + n) div 2]"
  proof (rule shorts_sum_cong)
    fix i assume i: "i \<in> set [0..<(4 + n) div 2]" "i \<noteq> 1"
    then have "i < (4 + n) div 2" by simp
    then have "2 * i + 1 < 3 + n" using odd by presburger
    moreover have "2 * i + 1 < 2 \<or> 3 < 2 * i" using i(2) by arith
    ultimately show "ld16 q' (icmp + 2 * i) = ld16 q (icmp + 2 * i)"
      unfolding icmp_checksum_value(1) [OF c' assms(2)] icmp_checksum_value(1) [OF assms(1,2)]
      by (simp add: ld16_other)
  qed
  then have "unat c' = unat c"
    using icmp_checksum_value(2) [OF c' assms(2)] icmp_checksum_value(2) [OF assms(1,2)] by simp
  then show "fst (compute_icmp_checksum ?p icmp (int n)) = c" by (simp add: c' word_unat_eq_iff)
qed

theorem icmp_checksum_spec_witness:
  "\<exists>c q. compute_icmp_checksum [8, 0, 9, 9, 1, 2, 3] 0 3 = (c, q) \<and>
    verify_checksum (st16 q 2 (htons c)) 0 7 = 0 \<and>
    fst (compute_icmp_checksum (st8 [8, 0, 9, 9, 1, 2, 3] 6 77) 0 3) = c"
proof -
  obtain c q where c: "compute_icmp_checksum [8, 0, 9, 9, 1, 2, 3] 0 (int 3) = (c, q)"
    by (cases "compute_icmp_checksum [8, 0, 9, 9, 1, 2, 3] 0 (int 3)")
  from icmp_checksum_spec [OF c, of 77, unfolded add_0] c show ?thesis by auto
qed

subsection \<open>Incremental update\<close>

lemma nat_checksum_fold:
  assumes "a \<le> 65535" "b \<le> (65535 :: nat)"
  shows "(a + b) div 65536 + (a + b) mod 65536 \<le> 65535"
    and "((a + b) div 65536 + (a + b) mod 65536) mod 65535 = (a + b) mod 65535"
proof -
  have cases: "(a + b) div 65536 + (a + b) mod 65536 = (if a + b < 65536 then a + b else a + b - 65535)"
  proof (cases "a + b < 65536")
    case False
    then have "(a + b) div 65536 = 1" using assms by (intro div_nat_eqI) auto
    with False show ?thesis using mult_div_mod_eq [of 65536 "a + b"] by simp
  qed simp
  show "(a + b) div 65536 + (a + b) mod 65536 \<le> 65535" unfolding cases using assms by arith
  show "((a + b) div 65536 + (a + b) mod 65536) mod 65535 = (a + b) mod 65535"
    unfolding cases using le_mod_geq [of 65535 "a + b"] by simp
qed

text \<open>The update is subtraction of \<open>neg\<close> and addition of \<open>pos\<close> modulo 65535.\<close>

lemma unat_nat_checksum:
  "unat (nat_checksum old pos neg) =
     (let w = (unat old + unat pos) div 65536 + (unat old + unat pos) mod 65536
      in if unat neg \<le> w then w - unat neg else w + 65535 - unat neg)"
proof -
  let ?o = "unat old" and ?p = "unat pos" and ?n = "unat neg"
  have bounds: "?o \<le> 65535" "?p \<le> 65535" "?n \<le> 65535"
    using unat_u16 [of old] unat_u16 [of pos] unat_u16 [of neg] by simp_all
  define word0 where "word0 = (ucast old + ucast pos :: u32)"
  define word1 where "word1 = drop_bit 16 word0 + (word0 AND 0xFFFF)"
  have w0: "unat word0 = ?o + ?p"
    unfolding word0_def using bounds by (subst unat_add_small) (simp_all add: unat_ucast_up)
  define w where "w = (?o + ?p) div 65536 + (?o + ?p) mod 65536"
  have w: "w \<le> 65535" unfolding w_def by (rule nat_checksum_fold) (use bounds in auto)
  have w1: "unat word1 = w"
    unfolding word1_def w_def using w [unfolded w_def] w0
    by (subst unat_add_small) (simp_all add: unat_shift_16 unat_and_FFFF)
  have neg: "unat (ucast neg :: u32) = ?n" by (simp add: unat_ucast_up)
  have gt: "x > 0xFFFF \<longleftrightarrow> unat x > 65535" for x :: u32 by (simp add: word_less_nat_alt)
  have result: "nat_checksum old pos neg = (let x = word1 - ucast neg in
      ucast ((if x > 0xFFFF then x - 1 else x) AND 0xFFFF))"
    by (simp add: nat_checksum_def word1_def word0_def Let_def)
  show ?thesis
  proof (cases "?n \<le> w")
    case True
    then have "unat (word1 - ucast neg) = w - ?n"
      using w1 neg by (subst unat_sub) (simp_all add: word_le_nat_alt)
    moreover from this w have "\<not> word1 - ucast neg > 0xFFFF" by (simp add: gt)
    ultimately have "unat (nat_checksum old pos neg) = (w - ?n) mod 65536"
      unfolding result by (simp add: unat_ucast_u16 unat_and_FFFF)
    with w True show ?thesis by (simp add: w_def [symmetric])
  next
    case False
    then have wrap: "unat (word1 - ucast neg) = 4294967296 + w - ?n"
      using w1 neg by (simp add: unat_sub_if')
    with bounds have "word1 - ucast neg > 0xFFFF" by (simp add: gt)
    moreover have "unat (word1 - ucast neg - 1) = 4294967296 + w - ?n - 1"
      using wrap bounds by (subst unat_sub) (simp_all add: word_le_nat_alt)
    ultimately have "unat (nat_checksum old pos neg) = (4294967296 + w - ?n - 1) mod 65536"
      unfolding result by (simp add: unat_ucast_u16 unat_and_FFFF)
    also have "4294967296 + w - ?n - 1 = 65536 * 65535 + (w + 65535 - ?n)" using bounds by simp
    also have "(65536 * 65535 + (w + 65535 - ?n)) mod 65536 = (w + 65535 - ?n) mod 65536"
      by (rule mod_mult_self4)
    also have "\<dots> = w + 65535 - ?n" using False by (intro mod_less) simp
    finally show ?thesis using False by (simp add: w_def [symmetric])
  qed
qed

lemma nat_checksum_mod:
  "int (unat (nat_checksum old pos neg)) mod 65535 =
     (int (unat old) + int (unat pos) - int (unat neg)) mod 65535"
proof -
  let ?s = "unat old + unat pos" and ?n = "unat neg"
  define w where "w = ?s div 65536 + ?s mod 65536"
  have bounds: "unat old \<le> 65535" "unat pos \<le> 65535" "?n \<le> 65535"
    using unat_u16 [of old] unat_u16 [of pos] unat_u16 [of neg] by simp_all
  have "w mod 65535 = ?s mod 65535" unfolding w_def by (rule nat_checksum_fold) (use bounds in auto)
  then have w: "int w mod 65535 = int ?s mod 65535" by (metis of_nat_mod of_nat_numeral)
  have "unat (nat_checksum old pos neg) = (if ?n \<le> w then w - ?n else w + 65535 - ?n)"
    by (simp add: unat_nat_checksum w_def Let_def)
  then have "int (unat (nat_checksum old pos neg)) =
      int w - int ?n + (if ?n \<le> w then 0 else 65535)" using bounds by auto
  then have "int (unat (nat_checksum old pos neg)) mod 65535 = (int w - int ?n) mod 65535" by simp
  also have "\<dots> = (int ?s - int ?n) mod 65535" using w by (rule mod_diff_cong) simp
  finally show ?thesis by simp
qed

text \<open>
  \<^verbatim>\<open>nat_checksum\<close> updates a checksum incrementally: its result is the old value plus \<open>pos\<close>
  minus \<open>neg\<close> modulo 65535, for all 16-bit arguments and despite the 32-bit wrap-around of its
  subtraction.
\<close>

theorem nat_checksum_spec:
  "int (unat (nat_checksum old pos neg)) mod 65535 =
     (int (unat old) + int (unat pos) - int (unat neg)) mod 65535"
  by (rule nat_checksum_mod)

text \<open>The cached checksums of an address and port, in host order.\<close>

lemma nat_fold:
  assumes "unat acc < 2 ^ 32"
  shows "unat (let sum = drop_bit 16 acc + (acc AND 0xFFFF :: u32);
                   sum = sum + drop_bit 16 sum
               in NOT (ucast (sum AND 0xFFFF) :: u16)) = 65535 - csum (unat acc)"
proof -
  let ?N = "unat acc"
  let ?s = "drop_bit 16 acc + (acc AND 0xFFFF)"
  have div: "?N div 65536 < 65536" using assms by (simp add: div_less_iff_less_mult)
  have mod: "?N mod 65536 < 65536" by simp
  have s: "unat ?s = ?N div 65536 + ?N mod 65536"
    using div mod by (subst unat_add_small) (simp_all add: unat_shift_16 unat_and_FFFF)
  have "unat ?s div 65536 < 65536" using s div mod by (simp add: div_less_iff_less_mult)
  then have "unat ?s + unat ?s div 65536 < 4294967296"
    unfolding s using div mod by linarith
  then have "unat (?s + drop_bit 16 ?s) = unat ?s + unat ?s div 65536"
    by (subst unat_add_small) (simp_all add: unat_shift_16)
  then have "unat (ucast ((?s + drop_bit 16 ?s) AND 0xFFFF) :: u16) = csum ?N"
    unfolding unat_ucast_u16 unat_and_FFFF mod_mod_trivial using fold_csum [OF assms] s by simp
  then show ?thesis by (simp add: Let_def unat_not_u16)
qed

definition addr_sum :: "u32 \<Rightarrow> nat" where
  "addr_sum ip = unat (ntohs (ucast ip)) + unat (ntohs (ucast (drop_bit 16 ip)))"

lemma addr_sum_le: "addr_sum ip \<le> 131070"
  unfolding addr_sum_def
  using unat_u16 [of "ntohs (ucast ip)"] unat_u16 [of "ntohs (ucast (drop_bit 16 ip))"] by simp

lemma compute_nat_checksums_values:
  "unat (ntohs (np_checksum (compute_nat_checksums pair))) =
     65535 - csum (addr_sum (np_ip pair) + unat (ntohs (np_port pair)))"
  "unat (ntohs (np_checksum_ip (compute_nat_checksums pair))) = 65535 - csum (addr_sum (np_ip pair))"
  "unat (np_checksum_port (compute_nat_checksums pair)) = 65535 - unat (np_port pair)"
  "np_ip (compute_nat_checksums pair) = np_ip pair"
  "np_port (compute_nat_checksums pair) = np_port pair"
proof -
  let ?a = "ntohs (ucast (np_ip pair))" and ?b = "ntohs (ucast (drop_bit 16 (np_ip pair)))"
    and ?c = "ntohs (np_port pair)"
  have ab: "unat (ucast ?a + ucast ?b :: u32) = addr_sum (np_ip pair)"
    unfolding addr_sum_def using unat_u16 [of ?a] unat_u16 [of ?b]
    by (subst unat_add_small) (simp_all add: unat_ucast_up)
  have abc: "unat (ucast ?a + ucast ?b + ucast ?c :: u32) = addr_sum (np_ip pair) + unat ?c"
    using ab addr_sum_le [of "np_ip pair"] unat_u16 [of ?c]
    by (subst unat_add_small) (simp_all add: unat_ucast_up)
  show "unat (ntohs (np_checksum (compute_nat_checksums pair))) =
      65535 - csum (addr_sum (np_ip pair) + unat ?c)"
    unfolding abc [symmetric] by (subst nat_fold [symmetric])
      (use unat_u32 in \<open>simp_all add: compute_nat_checksums_def Let_def\<close>)
  show "unat (ntohs (np_checksum_ip (compute_nat_checksums pair))) = 65535 - csum (addr_sum (np_ip pair))"
    unfolding ab [symmetric] by (subst nat_fold [symmetric])
      (use unat_u32 in \<open>simp_all add: compute_nat_checksums_def Let_def\<close>)
qed (simp_all add: compute_nat_checksums_def Let_def unat_not_u16)

end
