(* ===== verification/Or_Nat.thy ===== *)
theory Or_Nat
  imports Checksum
begin

section \<open>Network address translation (\<^verbatim>\<open>or_nat.c\<close>, \<^verbatim>\<open>or_utils.c\<close>)\<close>

text \<open>
  The translation table and the rewriting of packets that cross the WAN interface. The lemmas
  show that the incremental update of the TCP and UDP checksums keeps the sum over the pseudo
  header and the segment, that table entries always carry the checksums of their addresses,
  and what the choice of an external port does and does not ensure.
\<close>

datatype nat_type = NAT_EXTERNAL | NAT_INTERNAL

subsection \<open>The table\<close>

definition icmp_is_echo :: "u8 \<Rightarrow> bool" where
  "icmp_is_echo t \<longleftrightarrow> t = ICMP_TYPE_ECHO_REQUEST \<or> t = ICMP_TYPE_ECHO_REPLY"

definition icmp_is_error :: "u8 \<Rightarrow> bool" where
  "icmp_is_error t \<longleftrightarrow> t = ICMP_TYPE_TIME_EXCEEDED \<or> t = ICMP_TYPE_DESTINATION_UNREACHABLE"

definition get_nat_echo_id_from_icmp_data :: "packet \<Rightarrow> u16" where
  "get_nat_echo_id_from_icmp_data packet = ld16 packet (get_icmp_hdr_from_icmp_data + 4)"

definition get_nat_port_from_icmp ::
  "nat_ip_port_pair \<Rightarrow> packet \<Rightarrow> nat_type \<Rightarrow> nat_ip_port_pair" where
  "get_nat_port_from_icmp pair packet nat_type =
     (let icmp = get_nat_icmp_hdr
      in if icmp_is_echo (ld8 packet icmp) then pair\<lparr>np_port := ld16 packet (icmp + 4)\<rparr>
         else if icmp_is_error (ld8 packet icmp) then
           (let ip_data = get_ip_hdr_from_icmp_data
            in if ip_p packet ip_data = IP_PROTO_UDP \<or> ip_p packet ip_data = IP_PROTO_TCP then
                 (let ports = get_nat_port_list_from_icmp_data
                  in case nat_type of
                       NAT_EXTERNAL \<Rightarrow> pair\<lparr>np_port := ld16 packet ports\<rparr>
                     | NAT_INTERNAL \<Rightarrow> pair\<lparr>np_port := ld16 packet (ports + 2)\<rparr>)
               else if ip_p packet ip_data = IP_PROTO_ICMP
               then pair\<lparr>np_port := get_nat_echo_id_from_icmp_data packet\<rparr>
               else pair)
         else pair)"

definition nat_pair_zero :: nat_ip_port_pair where
  "nat_pair_zero = \<lparr>np_ip = 0, np_port = 0, np_checksum = 0, np_checksum_ip = 0, np_checksum_port = 0\<rparr>"

definition get_nat_ip_port_pair :: "packet \<Rightarrow> nat_type \<Rightarrow> nat_ip_port_pair" where
  "get_nat_ip_port_pair packet nat_type =
     (let ip = get_ip_hdr;
          pair = nat_pair_zero\<lparr>np_ip := (case nat_type of NAT_EXTERNAL \<Rightarrow> ip_dst packet ip
                                                    | NAT_INTERNAL \<Rightarrow> ip_src packet ip)\<rparr>
      in if ip_p packet ip = IP_PROTO_TCP then
           pair\<lparr>np_port := (case nat_type of NAT_EXTERNAL \<Rightarrow> ld16 packet (get_nat_tcp_hdr + 2)
                                       | NAT_INTERNAL \<Rightarrow> ld16 packet get_nat_tcp_hdr)\<rparr>
         else if ip_p packet ip = IP_PROTO_UDP then
           pair\<lparr>np_port := (case nat_type of NAT_EXTERNAL \<Rightarrow> ld16 packet (get_nat_udp_hdr + 2)
                                       | NAT_INTERNAL \<Rightarrow> ld16 packet get_nat_udp_hdr)\<rparr>
         else if ip_p packet ip = IP_PROTO_ICMP then get_nat_port_from_icmp pair packet nat_type
         else pair\<lparr>np_ip := 0, np_port := 0\<rparr>)"

definition found_nat_table_match :: "nat_entry \<Rightarrow> nat_ip_port_pair \<Rightarrow> nat_type \<Rightarrow> int" where
  "found_nat_table_match ne nipp nat_type =
     (case nat_type of
        NAT_EXTERNAL \<Rightarrow> (if np_ip (ne_ext ne) = np_ip nipp \<and> np_port (ne_ext ne) = np_port nipp then 1 else 0)
      | NAT_INTERNAL \<Rightarrow> (if np_ip (ne_int ne) = np_ip nipp \<and> np_port (ne_int ne) = np_port nipp then 1 else 0))"

text \<open>A pointer to an entry of the table is its position.\<close>

fun nat_table_walk :: "nat_entry list \<Rightarrow> nat_ip_port_pair \<Rightarrow> nat_type \<Rightarrow> nat \<Rightarrow> nat option" where
  "nat_table_walk [] pair nat_type k = None"
| "nat_table_walk (ne # n) pair nat_type k =
     (if found_nat_table_match ne pair nat_type = 1 then Some k
      else nat_table_walk n pair nat_type (k + 1))"

definition get_nat_table_entry :: "router_state \<Rightarrow> packet \<Rightarrow> nat_type \<Rightarrow> nat option" where
  "get_nat_table_entry rs packet nat_type =
     nat_table_walk (rs_nat_table rs) (get_nat_ip_port_pair packet nat_type) nat_type 0"

definition get_src_port_number_from_icmp :: "packet \<Rightarrow> u16" where
  "get_src_port_number_from_icmp packet =
     (let icmp = get_nat_icmp_hdr
      in if icmp_is_echo (ld8 packet icmp) then ld16 packet (icmp + 4)
         else if icmp_is_error (ld8 packet icmp) then ld16 packet get_nat_port_list_from_icmp_data
         else 0)"

definition get_src_port_number :: "packet \<Rightarrow> u8 \<Rightarrow> u16" where
  "get_src_port_number packet ip_protocol =
     (if ip_protocol = IP_PROTO_TCP then ld16 packet get_nat_tcp_hdr
      else if ip_protocol = IP_PROTO_UDP then ld16 packet get_nat_udp_hdr
      else if ip_protocol = IP_PROTO_ICMP then get_src_port_number_from_icmp packet
      else 0)"

fun unique_ext_port_walk :: "nat_entry list \<Rightarrow> u16 \<Rightarrow> int" where
  "unique_ext_port_walk [] port = 1"
| "unique_ext_port_walk (ne # n) port =
     (if np_port (ne_ext ne) = port then 0 else unique_ext_port_walk n port)"

definition is_unique_nat_ext_port :: "router_state \<Rightarrow> u16 \<Rightarrow> int" where
  "is_unique_nat_ext_port rs port = unique_ext_port_walk (rs_nat_table rs) port"

text \<open>
  \<open>rnd i\<close> is the 16-bit value of the \<open>i\<close>-th call of rand(). The search for a port need not end.
\<close>

partial_function (option) choose_ext_port :: "(nat \<Rightarrow> u16) \<Rightarrow> router_state \<Rightarrow> nat \<Rightarrow> u16 option" where
  "choose_ext_port rnd rs i =
     (let port = rnd i
      in if 1024 < port \<and> is_unique_nat_ext_port rs port = 1 then Some port
         else choose_ext_port rnd rs (i + 1))"

definition create_nat_table_entry ::
  "(nat \<Rightarrow> u16) \<Rightarrow> int \<Rightarrow> router_state \<Rightarrow> packet \<Rightarrow> u32 \<Rightarrow> (nat \<times> router_state) option" where
  "create_nat_table_entry rnd now rs packet ext_ip = do {
     port \<leftarrow> choose_ext_port rnd rs 0;
     let ne_ext = compute_nat_checksums (nat_pair_zero\<lparr>np_ip := ext_ip, np_port := htons port\<rparr>);
     let ne_int = compute_nat_checksums (nat_pair_zero\<lparr>np_ip := ip_src packet get_ip_hdr,
                    np_port := get_src_port_number packet (ip_p packet get_ip_hdr)\<rparr>);
     let ne = \<lparr>ne_ext = ne_ext, ne_int = ne_int, ne_last_hits = 0, ne_last_hits_time = now,
               ne_hits = 0, ne_hw_row = 0xFF, ne_is_static = False\<rparr>;
     Some (length (rs_nat_table rs), rs\<lparr>rs_nat_table := rs_nat_table rs @ [ne]\<rparr>)
   }"

subsection \<open>Rewriting packets\<close>

definition populate_nat_packet :: "packet \<Rightarrow> nat_entry \<Rightarrow> nat_type \<Rightarrow> packet" where
  "populate_nat_packet p ne nat_type =
     (let ip = get_ip_hdr;
          p = (case nat_type of NAT_EXTERNAL \<Rightarrow> st32 p (ip + 12) (np_ip (ne_ext ne))
                             | NAT_INTERNAL \<Rightarrow> st32 p (ip + 16) (np_ip (ne_int ne)))
      in if ip_p p ip = IP_PROTO_TCP then
           (case nat_type of NAT_EXTERNAL \<Rightarrow> st16 p get_nat_tcp_hdr (np_port (ne_ext ne))
                           | NAT_INTERNAL \<Rightarrow> st16 p (get_nat_tcp_hdr + 2) (np_port (ne_int ne)))
         else if ip_p p ip = IP_PROTO_UDP then
           (case nat_type of NAT_EXTERNAL \<Rightarrow> st16 p get_nat_udp_hdr (np_port (ne_ext ne))
                           | NAT_INTERNAL \<Rightarrow> st16 p (get_nat_udp_hdr + 2) (np_port (ne_int ne)))
         else if ip_p p ip = IP_PROTO_ICMP then
           (let icmp = get_nat_icmp_hdr
            in if icmp_is_echo (ld8 p icmp) then
                 st16 p (icmp + 4) (case nat_type of NAT_EXTERNAL \<Rightarrow> np_port (ne_ext ne)
                                                   | NAT_INTERNAL \<Rightarrow> np_port (ne_int ne))
               else if icmp_is_error (ld8 p icmp) then
                 (let data_ip = get_ip_hdr_from_icmp_data;
                      (p, checksum) = (case nat_type of
                          NAT_EXTERNAL \<Rightarrow> (st32 p (data_ip + 16) (np_ip (ne_ext ne)),
                            nat_checksum (ip_sum p data_ip) (np_checksum_ip (ne_ext ne)) (np_checksum_ip (ne_int ne)))
                        | NAT_INTERNAL \<Rightarrow> (st32 p (data_ip + 12) (np_ip (ne_int ne)),
                            nat_checksum (ip_sum p data_ip) (np_checksum_ip (ne_int ne)) (np_checksum_ip (ne_ext ne))));
                      p = st16 p (ip + 10) 0;
                      p = st16 p (data_ip + 10) checksum
                  in if ip_p p data_ip = IP_PROTO_TCP \<or> ip_p p data_ip = IP_PROTO_UDP then
                       (let ports = get_nat_port_list_from_icmp_data
                        in case nat_type of NAT_EXTERNAL \<Rightarrow> st16 p (ports + 2) (np_port (ne_ext ne))
                                          | NAT_INTERNAL \<Rightarrow> st16 p ports (np_port (ne_int ne)))
                     else if ip_p p data_ip = IP_PROTO_ICMP then
                       (let icmp_data = get_icmp_hdr_from_icmp_data
                        in if icmp_is_echo (ld8 p icmp_data) then
                             (let (p, checksum) = (case nat_type of
                                NAT_EXTERNAL \<Rightarrow> (st16 p (icmp_data + 4) (np_port (ne_ext ne)),
                                  nat_checksum (ld16 p (icmp_data + 2)) (np_checksum_port (ne_ext ne))
                                    (np_checksum_port (ne_int ne)))
                              | NAT_INTERNAL \<Rightarrow> (st16 p (icmp_data + 4) (np_port (ne_int ne)),
                                  nat_checksum (ld16 p (icmp_data + 2)) (np_checksum_port (ne_int ne))
                                    (np_checksum_port (ne_ext ne))));
                                p = st16 p (icmp_data + 2) 0
                              in st16 p (icmp_data + 2) checksum)
                           else p)
                     else p)
               else p)
         else p)"

text \<open>
  The checksum of the transport header: the same switch in both directions, with the cached
  sums of the new pair (\<open>pos\<close>) and the old pair (\<open>neg\<close>).
\<close>

definition nat_fix_transport :: "packet \<Rightarrow> nat_ip_port_pair \<Rightarrow> nat_ip_port_pair \<Rightarrow> packet" where
  "nat_fix_transport p pos neg =
     (let ip = get_ip_hdr
      in if ip_p p ip = IP_PROTO_TCP then
           (let sum_ptr = get_nat_tcp_hdr + 16;
                checksum = nat_checksum (ld16 p sum_ptr) (np_checksum pos) (np_checksum neg);
                p = st16 p sum_ptr 0
            in st16 p sum_ptr checksum)
         else if ip_p p ip = IP_PROTO_UDP then
           (let sum_ptr = get_nat_udp_hdr + 6;
                checksum = nat_checksum (ld16 p sum_ptr) (np_checksum pos) (np_checksum neg);
                p = st16 p sum_ptr 0
            in st16 p sum_ptr checksum)
         else if ip_p p ip = IP_PROTO_ICMP then
           (let icmp = get_nat_icmp_hdr
            in if icmp_is_echo (ld8 p icmp) then
                 (let checksum = nat_checksum (ld16 p (icmp + 2)) (np_checksum_port pos) (np_checksum_port neg);
                      p = st16 p (icmp + 2) 0
                  in st16 p (icmp + 2) checksum)
               else if icmp_is_error (ld8 p icmp) then
                 (let payload_len = int (unat (ntohs (ip_len p ip))) - int (sizeof_ip_hdr + sizeof_icmp_hdr);
                      (c, p) = compute_icmp_checksum p get_icmp_hdr payload_len
                  in st16 p (get_icmp_hdr + 2) (htons c))
               else p)
         else p)"

definition nat_fix_ip :: "packet \<Rightarrow> nat_ip_port_pair \<Rightarrow> nat_ip_port_pair \<Rightarrow> packet" where
  "nat_fix_ip p pos neg =
     (let ip = get_ip_hdr;
          checksum = nat_checksum (ip_sum p ip) (np_checksum_ip pos) (np_checksum neg);
          p = st16 p (ip + 10) 0
      in st16 p (ip + 10) checksum)"

definition nat_hit :: "nat \<Rightarrow> router_state \<Rightarrow> router_state" where
  "nat_hit k rs = rs\<lparr>rs_nat_table :=
     (rs_nat_table rs)[k := (rs_nat_table rs ! k)\<lparr>ne_hits := ne_hits (rs_nat_table rs ! k) + 1\<rparr>]\<rparr>"

definition process_nat_ext_packet :: "router_state \<Rightarrow> packet \<Rightarrow> packet \<times> router_state" where
  "process_nat_ext_packet rs packet =
     (case get_nat_table_entry rs packet NAT_EXTERNAL of
        None \<Rightarrow> (packet, rs)
      | Some k \<Rightarrow>
          (let ne = rs_nat_table rs ! k;
               rs = nat_hit k rs;
               packet = populate_nat_packet packet ne NAT_INTERNAL;
               packet = nat_fix_transport packet (ne_int ne) (ne_ext ne);
               packet = nat_fix_ip packet (ne_int ne) (ne_ext ne)
           in (packet, rs)))"

text \<open>For another protocol the entry is NULL when its hits are counted.\<close>

definition process_nat_int_packet ::
  "(nat \<Rightarrow> u16) \<Rightarrow> int \<Rightarrow> router_state \<Rightarrow> packet \<Rightarrow> u32 \<Rightarrow> (packet \<times> router_state) option" where
  "process_nat_int_packet rnd now rs packet ext_ip = do {
     let ip = get_ip_hdr;
     (if ip_p packet ip = IP_PROTO_TCP \<or> ip_p packet ip = IP_PROTO_UDP \<or> ip_p packet ip = IP_PROTO_ICMP
      then do {
        (k, rs) \<leftarrow> (case get_nat_table_entry rs packet NAT_INTERNAL of
             Some k \<Rightarrow> Some (k, rs)
           | None \<Rightarrow> create_nat_table_entry rnd now rs packet ext_ip);
        let ne = rs_nat_table rs ! k;
        let packet = populate_nat_packet packet ne NAT_EXTERNAL;
        let rs = nat_hit k rs;
        let packet = nat_fix_transport packet (ne_ext ne) (ne_int ne);
        let packet = nat_fix_ip packet (ne_ext ne) (ne_int ne);
        Some (packet, rs)
      }
      else None)
   }"

subsection \<open>Sums of packet words\<close>

lemma shorts_sum_st16_other:
  "a + 1 < s_ptr \<or> (\<forall>i\<in>set is. s_ptr + 2 * i + 1 < a) \<Longrightarrow>
     shorts_sum use (st16 p a v) s_ptr is = shorts_sum use p s_ptr is"
  by (rule shorts_sum_cong) (auto intro!: ld16_other(2))

lemma shorts_sum_st32_other:
  "a + 3 < s_ptr \<Longrightarrow> shorts_sum use (st32 p a v) s_ptr is = shorts_sum use p s_ptr is"
  by (rule shorts_sum_cong) (auto intro!: ld16_other(3))

lemma shorts_sum_st16:
  assumes "k < n" and "s_ptr + 2 * k + 1 < length p"
  shows "int (shorts_sum (\<lambda>_. True) (st16 p (s_ptr + 2 * k) v) s_ptr [0..<n]) =
    int (shorts_sum (\<lambda>_. True) p s_ptr [0..<n]) - int (unat (ntohs (ld16 p (s_ptr + 2 * k)))) +
    int (unat (ntohs v))"
proof -
  have "shorts_sum (\<lambda>i. i \<noteq> k) (st16 p (s_ptr + 2 * k) v) s_ptr [0..<n] =
      shorts_sum (\<lambda>i. i \<noteq> k) p s_ptr [0..<n]"
  proof (rule shorts_sum_cong)
    fix i assume "i \<noteq> k"
    then have "s_ptr + 2 * i + 1 < s_ptr + 2 * k \<or> s_ptr + 2 * k + 1 < s_ptr + 2 * i" by arith
    then show "ld16 (st16 p (s_ptr + 2 * k) v) (s_ptr + 2 * i) = ld16 p (s_ptr + 2 * i)"
      by (rule ld16_other)
  qed
  with assms show ?thesis by (simp add: shorts_sum_split [OF assms(1)] ld16_st16_same)
qed

text \<open>In host order the incremental update subtracts \<open>neg\<close> and adds \<open>pos\<close> as well.\<close>

lemma mod_eq_int: "(a :: nat) mod 65535 = b mod 65535 \<longleftrightarrow> int a mod 65535 = int b mod 65535"
  unfolding of_nat_eq_iff [where 'a = int, symmetric] zmod_int by simp

lemma int_ntohs: "int (unat (ntohs w)) = 256 * int (unat w) - 65535 * int (unat w div 256)"
  using div_mult_mod_eq [of "unat w" 256] unfolding unat_ntohs by linarith

lemma nat_checksum_host:
  "65535 dvd int (unat (ntohs (nat_checksum old pos neg))) - int (unat (ntohs old)) -
     (int (unat (ntohs pos)) - int (unat (ntohs neg)))"
proof -
  let ?u = "\<lambda>w :: u16. int (unat w)" and ?d = "\<lambda>w :: u16. int (unat w div 256)"
  let ?new = "nat_checksum old pos neg"
  have "65535 dvd ?u ?new - (?u old + ?u pos - ?u neg)"
    using nat_checksum_mod [of old pos neg] by (simp only: mod_eq_dvd_iff)
  then have "65535 dvd 256 * (?u ?new - (?u old + ?u pos - ?u neg)) +
      65535 * (?d old + ?d pos - ?d neg - ?d ?new)"
    by (intro dvd_add dvd_mult dvd_triv_left)
  also have "256 * (?u ?new - (?u old + ?u pos - ?u neg)) +
      65535 * (?d old + ?d pos - ?d neg - ?d ?new) =
    (256 * ?u ?new - 65535 * ?d ?new) - (256 * ?u old - 65535 * ?d old) -
      ((256 * ?u pos - 65535 * ?d pos) - (256 * ?u neg - 65535 * ?d neg))"
    by (simp add: algebra_simps)
  finally show ?thesis by (simp only: int_ntohs)
qed

subsection \<open>The transport checksum\<close>

text \<open>
  The sum that the checksum of TCP and UDP covers, up to the protocol and length that
  translation does not change: source, destination and the words of the segment.
\<close>

definition transport_sum :: "packet \<Rightarrow> nat \<Rightarrow> nat" where
  "transport_sum p n = addr_sum (ip_src p get_ip_hdr) + addr_sum (ip_dst p get_ip_hdr) +
     shorts_sum (\<lambda>_. True) p get_nat_tcp_hdr [0..<n]"

definition pair_ok :: "nat_ip_port_pair \<Rightarrow> bool" where
  "pair_ok pair \<longleftrightarrow> compute_nat_checksums pair = pair"

lemma pair_ok_checksum:
  assumes "pair_ok pair"
  shows "65535 dvd int (unat (ntohs (np_checksum pair))) +
    int (addr_sum (np_ip pair) + unat (ntohs (np_port pair)))"
proof -
  let ?N = "addr_sum (np_ip pair) + unat (ntohs (np_port pair))"
  have "unat (ntohs (np_checksum pair)) = 65535 - csum ?N"
    using compute_nat_checksums_values(1) [of pair] assms by (simp add: pair_ok_def)
  then have eq: "int (unat (ntohs (np_checksum pair))) + int ?N = 65535 + (int ?N - int (csum ?N))"
    using csum_le [of ?N] by simp
  have "65535 dvd int ?N - int (csum ?N)"
    unfolding mod_eq_dvd_iff [symmetric] mod_eq_int [symmetric] by simp
  then show ?thesis unfolding eq by (rule dvd_add [OF dvd_refl])
qed

text \<open>
  Replacing an address, a port and the checksum of the segment as the translation does.
  \<open>a\<close> is the offset of the address, \<open>kp\<close> and \<open>kc\<close> are the words of port and checksum.
\<close>

definition nat_rewrite ::
  "nat \<Rightarrow> nat \<Rightarrow> nat \<Rightarrow> packet \<Rightarrow> nat_ip_port_pair \<Rightarrow> nat_ip_port_pair \<Rightarrow> packet" where
  "nat_rewrite a kp kc p pos neg =
     (let p = st16 (st32 p a (np_ip pos)) (34 + 2 * kp) (np_port pos)
      in st16 p (34 + 2 * kc) (nat_checksum (ld16 p (34 + 2 * kc)) (np_checksum pos) (np_checksum neg)))"

lemma nat_rewrite_segment:
  assumes "kp < n" "kc < n" "kp \<noteq> kc" "34 + 2 * n \<le> length p" "a + 4 \<le> 34"
    and ok: "pair_ok pos" "pair_ok neg" and old: "ld16 p (34 + 2 * kp) = np_port neg"
  shows "65535 dvd int (shorts_sum (\<lambda>_. True) (nat_rewrite a kp kc p pos neg) 34 [0..<n]) -
    int (shorts_sum (\<lambda>_. True) p 34 [0..<n]) + (int (addr_sum (np_ip pos)) - int (addr_sum (np_ip neg)))"
proof -
  let ?S = "\<lambda>p. int (shorts_sum (\<lambda>_. True) p 34 [0..<n])" and ?h = "\<lambda>w. int (unat (ntohs w))"
  let ?p1 = "st32 p a (np_ip pos)"
  let ?p2 = "st16 ?p1 (34 + 2 * kp) (np_port pos)"
  let ?c = "ld16 ?p2 (34 + 2 * kc)"
  let ?new = "nat_checksum ?c (np_checksum pos) (np_checksum neg)"
  have p1: "?S ?p1 = ?S p" "ld16 ?p1 (34 + 2 * kp) = np_port neg"
    using assms(5) old by (simp_all add: shorts_sum_st32_other ld16_other)
  have "?S ?p2 = ?S p - ?h (np_port neg) + ?h (np_port pos)"
    using shorts_sum_st16 [of kp n 34 ?p1 "np_port pos"] assms(1,4) p1 by simp
  moreover have "?S (nat_rewrite a kp kc p pos neg) = ?S ?p2 - ?h ?c + ?h ?new"
    using shorts_sum_st16 [of kc n 34 ?p2 ?new] assms(2,4) by (simp add: nat_rewrite_def Let_def)
  ultimately have diff: "?S (nat_rewrite a kp kc p pos neg) - ?S p +
      (int (addr_sum (np_ip pos)) - int (addr_sum (np_ip neg))) =
    (?h ?new - ?h ?c - (?h (np_checksum pos) - ?h (np_checksum neg))) +
    ((?h (np_checksum pos) + int (addr_sum (np_ip pos) + unat (ntohs (np_port pos)))) -
     (?h (np_checksum neg) + int (addr_sum (np_ip neg) + unat (ntohs (np_port neg)))))"
    by simp
  show ?thesis
    unfolding diff by (intro dvd_add dvd_diff nat_checksum_host pair_ok_checksum ok)
qed

lemma addr_of_nat_rewrite:
  assumes "kp < n" "kc < n" "34 + 2 * n \<le> length p" "a = 26 \<or> a = 30"
  shows "ld32 (nat_rewrite a kp kc p pos neg) 26 = (if a = 26 then np_ip pos else ld32 p 26)"
    and "ld32 (nat_rewrite a kp kc p pos neg) 30 = (if a = 30 then np_ip pos else ld32 p 30)"
    and "ld8 (nat_rewrite a kp kc p pos neg) 23 = ld8 p 23"
    and "length (nat_rewrite a kp kc p pos neg) = length p"
  using assms by (auto simp: nat_rewrite_def Let_def mem_simps)

text \<open>The translation of a TCP or UDP packet is such a rewriting, and a change of the IP checksum.\<close>

lemma transport_sum_nat_rewrite:
  assumes "kp < n" "kc < n" "kp \<noteq> kc" "34 + 2 * n \<le> length p" "a = 26 \<or> a = 30"
    and "pair_ok pos" "pair_ok neg" and "ld16 p (34 + 2 * kp) = np_port neg"
    and "ld32 p a = np_ip neg"
  shows "transport_sum (st16 (nat_rewrite a kp kc p pos neg) 24 v) n mod 65535 =
    transport_sum p n mod 65535"
proof -
  let ?q = "nat_rewrite a kp kc p pos neg"
  note addr = addr_of_nat_rewrite [OF assms(1,2,4,5), of pos neg]
  have "shorts_sum (\<lambda>_. True) (st16 ?q 24 v) 34 [0..<n] = shorts_sum (\<lambda>_. True) ?q 34 [0..<n]"
    by (rule shorts_sum_st16_other) simp
  moreover have "65535 dvd int (shorts_sum (\<lambda>_. True) ?q 34 [0..<n]) -
      int (shorts_sum (\<lambda>_. True) p 34 [0..<n]) + (int (addr_sum (np_ip pos)) - int (addr_sum (np_ip neg)))"
    by (rule nat_rewrite_segment) (use assms in auto)
  ultimately have "65535 dvd int (transport_sum (st16 ?q 24 v) n) - int (transport_sum p n)"
    using assms(5,9) addr(1,2)
    by (auto simp: transport_sum_def hdr_offsets ip_src_def ip_dst_def ld32_other algebra_simps)
  then show ?thesis unfolding mod_eq_int mod_eq_dvd_iff .
qed

subsection \<open>Translating a packet\<close>

text \<open>The word of the checksum in the transport header.\<close>

definition csum_word :: "packet \<Rightarrow> nat" where
  "csum_word p = (if ip_p p get_ip_hdr = IP_PROTO_TCP then 8 else 3)"

definition is_tcp_udp :: "packet \<Rightarrow> bool" where
  "is_tcp_udp p \<longleftrightarrow> ip_p p get_ip_hdr = IP_PROTO_TCP \<or> ip_p p get_ip_hdr = IP_PROTO_UDP"

lemma proto_distinct [simp]:
  "IP_PROTO_TCP \<noteq> IP_PROTO_UDP" "IP_PROTO_UDP \<noteq> IP_PROTO_TCP" "IP_PROTO_ICMP \<noteq> IP_PROTO_TCP"
  "IP_PROTO_ICMP \<noteq> IP_PROTO_UDP" "IP_PROTO_TCP \<noteq> IP_PROTO_ICMP" "IP_PROTO_UDP \<noteq> IP_PROTO_ICMP"
  by (simp_all add: ip_consts)

lemma nat_translate_rewrite:
  assumes "is_tcp_udp p"
  shows "nat_fix_transport (populate_nat_packet p ne NAT_INTERNAL) (ne_int ne) neg =
      nat_rewrite 30 1 (csum_word p) p (ne_int ne) neg"
    and "nat_fix_transport (populate_nat_packet p ne NAT_EXTERNAL) (ne_ext ne) neg =
      nat_rewrite 26 0 (csum_word p) p (ne_ext ne) neg"
  using assms
  by (auto simp: is_tcp_udp_def csum_word_def nat_fix_transport_def populate_nat_packet_def
      nat_rewrite_def Let_def hdr_offsets ip_p_def mem_simps)

lemma nat_table_walk_Some:
  "nat_table_walk l pair ty k = Some j \<Longrightarrow>
     k \<le> j \<and> j < k + length l \<and> found_nat_table_match (l ! (j - k)) pair ty = 1 \<and>
     (\<forall>i<j - k. found_nat_table_match (l ! i) pair ty \<noteq> 1)"
proof (induction l pair ty k rule: nat_table_walk.induct)
  case (2 ne n pair ty k)
  show ?case
  proof (cases "found_nat_table_match ne pair ty = 1")
    case False
    with 2 have IH: "k + 1 \<le> j \<and> j < k + 1 + length n \<and>
        found_nat_table_match (n ! (j - (k + 1))) pair ty = 1 \<and>
        (\<forall>i<j - (k + 1). found_nat_table_match (n ! i) pair ty \<noteq> 1)" by simp
    then have "j - k = Suc (j - (k + 1))" by linarith
    with IH False show ?thesis by (auto simp: less_Suc_eq_0_disj)
  qed (use 2 in auto)
qed simp

lemma nat_table_walk_None:
  "nat_table_walk l pair ty k = None \<longleftrightarrow> (\<forall>ne\<in>set l. found_nat_table_match ne pair ty \<noteq> 1)"
  by (induction l pair ty k rule: nat_table_walk.induct) auto

lemma nat_table_walk_first:
  assumes "j < length l" "found_nat_table_match (l ! j) pair ty = 1"
    and "\<forall>i<j. found_nat_table_match (l ! i) pair ty \<noteq> 1"
  shows "nat_table_walk l pair ty k = Some (k + j)"
  using assms
proof (induction l pair ty k arbitrary: j rule: nat_table_walk.induct)
  case (2 ne n pair ty k)
  then show ?case by (cases j) (fastforce, force)
qed simp

lemma nat_match_iff:
  "found_nat_table_match ne pair NAT_EXTERNAL = 1 \<longleftrightarrow>
     np_ip (ne_ext ne) = np_ip pair \<and> np_port (ne_ext ne) = np_port pair"
  "found_nat_table_match ne pair NAT_INTERNAL = 1 \<longleftrightarrow>
     np_ip (ne_int ne) = np_ip pair \<and> np_port (ne_int ne) = np_port pair"
  by (simp_all add: found_nat_table_match_def)

text \<open>The address and port that a packet is looked up by.\<close>

lemma nat_pair_tcp_udp:
  assumes "is_tcp_udp p"
  shows "np_ip (get_nat_ip_port_pair p NAT_EXTERNAL) = ip_dst p get_ip_hdr"
    and "np_port (get_nat_ip_port_pair p NAT_EXTERNAL) = ld16 p 36"
    and "np_ip (get_nat_ip_port_pair p NAT_INTERNAL) = ip_src p get_ip_hdr"
    and "np_port (get_nat_ip_port_pair p NAT_INTERNAL) = ld16 p 34"
    and "get_src_port_number p (ip_p p get_ip_hdr) = ld16 p 34"
  using assms
  by (auto simp: is_tcp_udp_def get_nat_ip_port_pair_def get_src_port_number_def Let_def hdr_offsets)

definition nat_ok :: "router_state \<Rightarrow> bool" where
  "nat_ok rs \<longleftrightarrow> (\<forall>ne\<in>set (rs_nat_table rs). pair_ok (ne_ext ne) \<and> pair_ok (ne_int ne))"

lemma pair_ok_compute [simp]: "pair_ok (compute_nat_checksums pair)"
  by (simp add: pair_ok_def compute_nat_checksums_def Let_def)

lemma nat_hit_pairs:
  "k < length (rs_nat_table rs) \<Longrightarrow>
     map ne_ext (rs_nat_table (nat_hit k rs)) = map ne_ext (rs_nat_table rs) \<and>
     map ne_int (rs_nat_table (nat_hit k rs)) = map ne_int (rs_nat_table rs)"
  by (auto simp: nat_hit_def map_update intro!: nth_equalityI)
    (auto simp: nth_list_update)

lemma nat_ok_map: "nat_ok rs \<longleftrightarrow> (\<forall>p\<in>set (map ne_ext (rs_nat_table rs)). pair_ok p) \<and>
    (\<forall>p\<in>set (map ne_int (rs_nat_table rs)). pair_ok p)"
  by (auto simp: nat_ok_def)

lemma nat_ok_hit: "k < length (rs_nat_table rs) \<Longrightarrow> nat_ok (nat_hit k rs) = nat_ok rs"
  using nat_hit_pairs [of k rs] by (simp only: nat_ok_map)

lemma nat_fix_ip_st16: "\<exists>v. nat_fix_ip p pos neg = st16 p 24 v"
  by (auto simp: nat_fix_ip_def Let_def hdr_offsets)

lemma is_tcp_udp_csum_word: "is_tcp_udp p \<Longrightarrow> csum_word p < n \<Longrightarrow> 2 \<le> csum_word p \<and> 4 \<le> n"
  by (auto simp: csum_word_def split: if_splits)

lemma get_nat_table_entry_find:
  "map_option (\<lambda>k. rs_nat_table rs ! k) (get_nat_table_entry rs p ty) =
     find (\<lambda>ne. found_nat_table_match ne (get_nat_ip_port_pair p ty) ty = 1) (rs_nat_table rs)"
proof (cases "get_nat_table_entry rs p ty")
  case None
  then show ?thesis
    by (simp add: get_nat_table_entry_def nat_table_walk_None find_None_iff [THEN iffD2])
next
  case (Some k)
  from nat_table_walk_Some [OF Some [unfolded get_nat_table_entry_def]]
  have "\<exists>i<length (rs_nat_table rs).
      found_nat_table_match (rs_nat_table rs ! i) (get_nat_ip_port_pair p ty) ty = 1 \<and>
      rs_nat_table rs ! k = rs_nat_table rs ! i \<and>
      (\<forall>j<i. found_nat_table_match (rs_nat_table rs ! j) (get_nat_ip_port_pair p ty) ty \<noteq> 1)"
    by (intro exI [of _ k]) auto
  then show ?thesis
    unfolding Some option.map by (subst eq_commute) (simp add: find_Some_iff)
qed

lemma get_nat_table_entry_less:
  "get_nat_table_entry rs p ty = Some k \<Longrightarrow> k < length (rs_nat_table rs)"
  by (auto simp: get_nat_table_entry_def dest: nat_table_walk_Some)

lemma nat_rewrite_ports:
  assumes "kp < n" "kc < n" "kp \<noteq> kc" "34 + 2 * n \<le> length p" "a + 4 \<le> 34"
  shows "ld16 (nat_rewrite a kp kc p pos neg) (34 + 2 * kp) = np_port pos"
    and "k \<noteq> kp \<Longrightarrow> k \<noteq> kc \<Longrightarrow> ld16 (nat_rewrite a kp kc p pos neg) (34 + 2 * k) = ld16 p (34 + 2 * k)"
proof -
  have other: "ld16 (st16 q (34 + 2 * i) v) (34 + 2 * j) = ld16 q (34 + 2 * j)" if "i \<noteq> j" for q v i j
    by (rule ld16_other(2)) (use that in arith)
  show "ld16 (nat_rewrite a kp kc p pos neg) (34 + 2 * kp) = np_port pos"
    using assms by (simp add: nat_rewrite_def Let_def other ld16_st16_same)
  show "k \<noteq> kp \<Longrightarrow> k \<noteq> kc \<Longrightarrow> ld16 (nat_rewrite a kp kc p pos neg) (34 + 2 * k) = ld16 p (34 + 2 * k)"
    using assms by (simp add: nat_rewrite_def Let_def other ld16_other)
qed

text \<open>The translation in either direction, by the entry it uses.\<close>

lemma nat_translated_ext:
  assumes "is_tcp_udp p" "csum_word p < n" "34 + 2 * n \<le> length p"
    and ok: "pair_ok (ne_ext ne)" "pair_ok (ne_int ne)"
    and m: "np_ip (ne_ext ne) = ip_dst p get_ip_hdr" "np_port (ne_ext ne) = ld16 p 36"
    and q: "q = nat_fix_ip (nat_fix_transport (populate_nat_packet p ne NAT_INTERNAL) (ne_int ne) (ne_ext ne))
      (ne_int ne) (ne_ext ne)"
  shows "transport_sum q n mod 65535 = transport_sum p n mod 65535 \<and> length q = length p \<and>
    ip_dst q get_ip_hdr = np_ip (ne_int ne) \<and> ld16 q 36 = np_port (ne_int ne) \<and>
    ip_src q get_ip_hdr = ip_src p get_ip_hdr \<and> ld16 q 34 = ld16 p 34"
proof -
  let ?r = "nat_rewrite 30 1 (csum_word p) p (ne_int ne) (ne_ext ne)"
  obtain v where v: "q = st16 ?r 24 v"
    using nat_fix_ip_st16 [of ?r] q assms(1) by (auto simp: nat_translate_rewrite)
  note w = is_tcp_udp_csum_word [OF assms(1,2)]
  have "transport_sum q n mod 65535 = transport_sum p n mod 65535"
    unfolding v by (rule transport_sum_nat_rewrite) (use assms w in \<open>auto simp: ip_dst_def hdr_offsets\<close>)
  moreover have "ld16 ?r 36 = np_port (ne_int ne)" "ld16 ?r 34 = ld16 p 34"
    using nat_rewrite_ports(1) [where kp = 1 and n = n and kc = "csum_word p" and p = p and a = 30]
      nat_rewrite_ports(2) [where kp = 1 and n = n and kc = "csum_word p" and p = p and a = 30 and k = 0] assms(2,3) w by simp_all
  ultimately show ?thesis
    using addr_of_nat_rewrite [where kp = 1 and n = n and kc = "csum_word p" and p = p and a = 30] assms(2,3) w
    by (simp add: v ip_src_def ip_dst_def hdr_offsets mem_simps)
qed

lemma nat_translated_int:
  assumes "is_tcp_udp p" "csum_word p < n" "34 + 2 * n \<le> length p"
    and ok: "pair_ok (ne_ext ne)" "pair_ok (ne_int ne)"
    and m: "np_ip (ne_int ne) = ip_src p get_ip_hdr" "np_port (ne_int ne) = ld16 p 34"
    and q: "q = nat_fix_ip (nat_fix_transport (populate_nat_packet p ne NAT_EXTERNAL) (ne_ext ne) (ne_int ne))
      (ne_ext ne) (ne_int ne)"
  shows "transport_sum q n mod 65535 = transport_sum p n mod 65535 \<and> length q = length p \<and>
    ip_src q get_ip_hdr = np_ip (ne_ext ne) \<and> ld16 q 34 = np_port (ne_ext ne) \<and>
    ip_dst q get_ip_hdr = ip_dst p get_ip_hdr \<and> ld16 q 36 = ld16 p 36"
proof -
  let ?r = "nat_rewrite 26 0 (csum_word p) p (ne_ext ne) (ne_int ne)"
  obtain v where v: "q = st16 ?r 24 v"
    using nat_fix_ip_st16 [of ?r] q assms(1) by (auto simp: nat_translate_rewrite)
  note w = is_tcp_udp_csum_word [OF assms(1,2)]
  have "transport_sum q n mod 65535 = transport_sum p n mod 65535"
    unfolding v by (rule transport_sum_nat_rewrite) (use assms w in \<open>auto simp: ip_src_def hdr_offsets\<close>)
  moreover have "ld16 ?r 34 = np_port (ne_ext ne)" "ld16 ?r 36 = ld16 p 36"
    using nat_rewrite_ports(1) [where kp = 0 and n = n and kc = "csum_word p" and p = p and a = 26]
      nat_rewrite_ports(2) [where kp = 0 and n = n and kc = "csum_word p" and p = p and a = 26 and k = 1] assms(2,3) w by simp_all
  ultimately show ?thesis
    using addr_of_nat_rewrite [where kp = 0 and n = n and kc = "csum_word p" and p = p and a = 26] assms(2,3) w
    by (simp add: v ip_src_def ip_dst_def hdr_offsets mem_simps)
qed

lemma nat_ext_translate:
  assumes p: "is_tcp_udp p" and n: "csum_word p < n" "34 + 2 * n \<le> length p"
    and ok: "nat_ok rs" and ext: "process_nat_ext_packet rs p = (q, rs')"
  shows "nat_ok rs' \<and>
    (case find (\<lambda>ne. np_ip (ne_ext ne) = ip_dst p get_ip_hdr \<and> np_port (ne_ext ne) = ld16 p 36)
       (rs_nat_table rs) of
       None \<Rightarrow> q = p \<and> rs' = rs
     | Some ne \<Rightarrow> transport_sum q n mod 65535 = transport_sum p n mod 65535 \<and> length q = length p \<and>
         ip_dst q get_ip_hdr = np_ip (ne_int ne) \<and> ld16 q 36 = np_port (ne_int ne) \<and>
         ip_src q get_ip_hdr = ip_src p get_ip_hdr \<and> ld16 q 34 = ld16 p 34)"
proof (cases "get_nat_table_entry rs p NAT_EXTERNAL")
  case None
  with get_nat_table_entry_find [of rs p NAT_EXTERNAL] p ext ok show ?thesis
    by (simp add: nat_match_iff nat_pair_tcp_udp process_nat_ext_packet_def)
next
  case (Some k)
  let ?ne = "rs_nat_table rs ! k"
  have find: "find (\<lambda>ne. np_ip (ne_ext ne) = ip_dst p get_ip_hdr \<and> np_port (ne_ext ne) = ld16 p 36)
      (rs_nat_table rs) = Some ?ne"
    using get_nat_table_entry_find [of rs p NAT_EXTERNAL] p Some
    by (simp add: nat_match_iff nat_pair_tcp_udp)
  have k: "k < length (rs_nat_table rs)" using Some by (rule get_nat_table_entry_less)
  with ok have pairs: "pair_ok (ne_ext ?ne)" "pair_ok (ne_int ?ne)" by (simp_all add: nat_ok_def)
  have q: "q = nat_fix_ip (nat_fix_transport (populate_nat_packet p ?ne NAT_INTERNAL) (ne_int ?ne) (ne_ext ?ne))
      (ne_int ?ne) (ne_ext ?ne)" and rs': "rs' = nat_hit k rs"
    using ext Some by (simp_all add: process_nat_ext_packet_def Let_def)
  have "np_ip (ne_ext ?ne) = ip_dst p get_ip_hdr" "np_port (ne_ext ?ne) = ld16 p 36"
    using find_SomeD [OF find] by simp_all
  from nat_translated_ext [OF p n pairs this q] find ok k show ?thesis
    by (simp add: rs' nat_ok_hit)
qed


text \<open>A TCP segment of 20 bytes to port 2000 of 10.0.0.1, and an entry for it.\<close>

definition tcp_pkt :: packet where
  "tcp_pkt = [2, 0, 0, 0, 0, 1, 7, 7, 7, 7, 7, 7, 8, 0,
     0x45, 0, 0, 40, 0, 0, 0, 0, 64, 6, 0, 0, 9, 9, 9, 9, 10, 0, 0, 1,
     0, 80, 7, 0xd0, 0, 0, 0, 1, 0, 0, 0, 2, 0x50, 2, 0x20, 0, 0xab, 0xcd, 0, 0]"

definition nat_entry1 :: nat_entry where
  "nat_entry1 = \<lparr>ne_ext = compute_nat_checksums (nat_pair_zero\<lparr>np_ip := 0x0100000a, np_port := 0xd007\<rparr>),
     ne_int = compute_nat_checksums (nat_pair_zero\<lparr>np_ip := 0x0201a8c0, np_port := 0x5000\<rparr>),
     ne_last_hits = 0, ne_last_hits_time = 0, ne_hits = 0, ne_hw_row = 0xFF, ne_is_static = False\<rparr>"

lemma tcp_pkt_fields:
  "ip_p tcp_pkt get_ip_hdr = IP_PROTO_TCP" "ip_src tcp_pkt get_ip_hdr = 0x09090909"
  "ip_dst tcp_pkt get_ip_hdr = 0x0100000a" "ld16 tcp_pkt 34 = 0x5000" "ld16 tcp_pkt 36 = 0xd007"
  "length tcp_pkt = 54"
  by (simp_all add: tcp_pkt_def ip_fields ld8_def ld16_def ld32_def w16_def w32_def hdr_offsets ip_consts)

lemma nat_entry1_fields [simp]:
  "np_ip (ne_ext nat_entry1) = 0x0100000a" "np_port (ne_ext nat_entry1) = 0xd007"
  "np_ip (ne_int nat_entry1) = 0x0201a8c0" "np_port (ne_int nat_entry1) = 0x5000"
  "pair_ok (ne_ext nat_entry1)" "pair_ok (ne_int nat_entry1)"
  by (simp_all add: nat_entry1_def compute_nat_checksums_values nat_pair_zero_def)


lemma nat_int_translate:
  assumes p: "is_tcp_udp p" and n: "csum_word p < n" "34 + 2 * n \<le> length p"
    and ok: "nat_ok rs" and int: "process_nat_int_packet rnd now rs p ext_ip = Some (q, rs')"
  shows "nat_ok rs' \<and> transport_sum q n mod 65535 = transport_sum p n mod 65535 \<and>
    length q = length p \<and> ip_dst q get_ip_hdr = ip_dst p get_ip_hdr \<and> ld16 q 36 = ld16 p 36 \<and>
    (\<exists>ne\<in>set (rs_nat_table rs'). np_ip (ne_int ne) = ip_src p get_ip_hdr \<and> np_port (ne_int ne) = ld16 p 34 \<and>
       ip_src q get_ip_hdr = np_ip (ne_ext ne) \<and> ld16 q 34 = np_port (ne_ext ne))"
proof -
  from int p obtain k rs1 where
      entry: "(case get_nat_table_entry rs p NAT_INTERNAL of Some k \<Rightarrow> Some (k, rs)
        | None \<Rightarrow> create_nat_table_entry rnd now rs p ext_ip) = Some (k, rs1)"
    and q: "q = nat_fix_ip (nat_fix_transport (populate_nat_packet p (rs_nat_table rs1 ! k) NAT_EXTERNAL)
        (ne_ext (rs_nat_table rs1 ! k)) (ne_int (rs_nat_table rs1 ! k)))
        (ne_ext (rs_nat_table rs1 ! k)) (ne_int (rs_nat_table rs1 ! k))"
    and rs': "rs' = nat_hit k rs1"
    by (auto simp: process_nat_int_packet_def is_tcp_udp_def Let_def bind_eq_Some_conv)
  let ?ne = "rs_nat_table rs1 ! k"
  have ne: "k < length (rs_nat_table rs1) \<and> nat_ok rs1 \<and> np_ip (ne_int ?ne) = ip_src p get_ip_hdr \<and>
      np_port (ne_int ?ne) = ld16 p 34"
  proof (cases "get_nat_table_entry rs p NAT_INTERNAL")
    case None
    with entry ok p show ?thesis
      by (auto simp: create_nat_table_entry_def bind_eq_Some_conv Let_def nat_ok_def nth_append
          nat_pair_tcp_udp compute_nat_checksums_values)
  next
    case (Some j)
    with entry have "rs1 = rs" "k = j" by simp_all
    moreover from get_nat_table_entry_find [of rs p NAT_INTERNAL] Some p
    have "find (\<lambda>ne. np_ip (ne_int ne) = ip_src p get_ip_hdr \<and> np_port (ne_int ne) = ld16 p 34)
        (rs_nat_table rs) = Some (rs_nat_table rs ! j)"
      by (simp add: nat_match_iff nat_pair_tcp_udp)
    ultimately show ?thesis
      using find_SomeD get_nat_table_entry_less [OF Some] ok by fastforce
  qed
  then have pairs: "pair_ok (ne_ext ?ne)" "pair_ok (ne_int ?ne)" by (simp_all add: nat_ok_def)
  note tr = nat_translated_int [OF p n pairs _ _ q]
  let ?ne' = "rs_nat_table rs' ! k"
  have "?ne' \<in> set (rs_nat_table rs')" "ne_ext ?ne' = ne_ext ?ne" "ne_int ?ne' = ne_int ?ne"
    using ne by (simp_all add: rs' nat_hit_def set_update_memI)
  moreover have "nat_ok rs'" using ne by (simp add: rs' nat_ok_hit)
  ultimately show ?thesis using tr ne by (intro conjI bexI [of _ ?ne']) auto
qed


text \<open>The same connection seen from inside: the source of the segment has an entry.\<close>

definition nat_entry2 :: nat_entry where
  "nat_entry2 = nat_entry1\<lparr>ne_int := compute_nat_checksums (nat_pair_zero\<lparr>np_ip := 0x09090909, np_port := 0x5000\<rparr>)\<rparr>"

lemma nat_entry2_fields [simp]:
  "ne_ext nat_entry2 = ne_ext nat_entry1" "np_ip (ne_int nat_entry2) = 0x09090909"
  "np_port (ne_int nat_entry2) = 0x5000" "pair_ok (ne_int nat_entry2)"
  by (simp_all add: nat_entry2_def compute_nat_checksums_values nat_pair_zero_def)

lemma nat_int_tcp_pkt_returns:
  "\<exists>q rs'. process_nat_int_packet rnd now (rs0\<lparr>rs_nat_table := [nat_entry2]\<rparr>) tcp_pkt ext_ip = Some (q, rs')"
proof -
  let ?rs = "rs0\<lparr>rs_nat_table := [nat_entry2]\<rparr>"
  have "get_nat_table_entry ?rs tcp_pkt NAT_INTERNAL = Some 0"
    by (simp add: get_nat_table_entry_def nat_match_iff nat_pair_tcp_udp is_tcp_udp_def tcp_pkt_fields)
  then show ?thesis by (simp add: process_nat_int_packet_def tcp_pkt_fields Let_def)
qed


text \<open>
  C24. Translation is undone for the replies: when no two entries share an external address and
  port, a packet sent to the address and port that an outgoing packet was given reaches the
  address and port that packet came from.
\<close>

theorem nat_reply_roundtrip:
  assumes p: "is_tcp_udp p" "csum_word p < n" "34 + 2 * n \<le> length p" "nat_ok rs"
    and int: "process_nat_int_packet rnd now rs p ext_ip = Some (q, rs')"
    and uniq: "distinct (map (\<lambda>ne. (np_ip (ne_ext ne), np_port (ne_ext ne))) (rs_nat_table rs'))"
    and r: "is_tcp_udp r" "csum_word r < m" "34 + 2 * m \<le> length r"
    and reply: "ip_dst r get_ip_hdr = ip_src q get_ip_hdr" "ld16 r 36 = ld16 q 34"
    and ext: "process_nat_ext_packet rs' r = (r', rs'')"
  shows "ip_dst r' get_ip_hdr = ip_src p get_ip_hdr \<and> ld16 r' 36 = ld16 p 34"
proof -
  note out = nat_int_translate [OF p int]
  then obtain ne where ne: "ne \<in> set (rs_nat_table rs')"
      "np_ip (ne_int ne) = ip_src p get_ip_hdr" "np_port (ne_int ne) = ld16 p 34"
      "ip_src q get_ip_hdr = np_ip (ne_ext ne)" "ld16 q 34 = np_port (ne_ext ne)" by blast
  have "find (\<lambda>e. np_ip (ne_ext e) = ip_dst r get_ip_hdr \<and> np_port (ne_ext e) = ld16 r 36)
      (rs_nat_table rs') = Some ne"
    using find_distinct_key [OF uniq ne(1)] ne(4,5) reply by simp
  with nat_ext_translate [OF r _ ext] out ne show ?thesis by simp
qed

theorem nat_reply_roundtrip_witness:
  "\<exists>q rs' r' rs''. process_nat_int_packet (\<lambda>_. 0) 3 (rs0\<lparr>rs_nat_table := [nat_entry2]\<rparr>) tcp_pkt 0x0100000a =
      Some (q, rs') \<and>
    process_nat_ext_packet rs' (st16 (st32 tcp_pkt 30 (ip_src q get_ip_hdr)) 36 (ld16 q 34)) = (r', rs'') \<and>
    ip_dst r' get_ip_hdr = 0x09090909"
proof -
  let ?rs = "rs0\<lparr>rs_nat_table := [nat_entry2]\<rparr>"
  obtain q rs' where q: "process_nat_int_packet (\<lambda>_. 0) 3 ?rs tcp_pkt 0x0100000a = Some (q, rs')"
    using nat_int_tcp_pkt_returns by blast
  let ?r = "st16 (st32 tcp_pkt 30 (ip_src q get_ip_hdr)) 36 (ld16 q 34)"
  obtain r' rs'' where r': "process_nat_ext_packet rs' ?r = (r', rs'')"
    by (cases "process_nat_ext_packet rs' ?r")
  have "get_nat_table_entry ?rs tcp_pkt NAT_INTERNAL = Some 0"
    by (simp add: get_nat_table_entry_def nat_match_iff nat_pair_tcp_udp is_tcp_udp_def tcp_pkt_fields)
  then have "length (rs_nat_table rs') = 1"
    using q by (auto simp: process_nat_int_packet_def tcp_pkt_fields Let_def nat_hit_def)
  then have "distinct (map (\<lambda>ne. (np_ip (ne_ext ne), np_port (ne_ext ne))) (rs_nat_table rs'))"
    by (auto simp: length_Suc_conv)
  moreover have "ip_p ?r get_ip_hdr = IP_PROTO_TCP"
    using tcp_pkt_fields(1) by (simp add: ip_p_def hdr_offsets mem_simps)
  ultimately have "ip_dst r' get_ip_hdr = ip_src tcp_pkt get_ip_hdr \<and> ld16 r' 36 = ld16 tcp_pkt 34"
    by (intro nat_reply_roundtrip [OF _ _ _ _ q _ _ _ _ _ _ r', of 10 10])
      (simp_all add: is_tcp_udp_def csum_word_def tcp_pkt_fields tcp_pkt_fields [unfolded hdr_offsets]
        nat_ok_def ip_dst_def hdr_offsets mem_simps)
  with q r' show ?thesis by (auto simp: tcp_pkt_fields)
qed

text \<open>
  The external port is meant to be unique, but the port that is compared with the table is in
  host order and the ports in the table are in network order.
\<close>

lemma unique_ext_port_iff:
  "is_unique_nat_ext_port rs port = (if \<exists>ne\<in>set (rs_nat_table rs). np_port (ne_ext ne) = port then 0 else 1)"
proof -
  have "unique_ext_port_walk l port = (if \<exists>ne\<in>set l. np_port (ne_ext ne) = port then 0 else 1)" for l
    by (induction l) auto
  then show ?thesis by (simp add: is_unique_nat_ext_port_def)
qed

text \<open>
  Choosing a port: the search returns the first random port above 1024 that no entry holds
  with its bytes swapped. It can therefore return a port that an entry already uses: the table
  then has two entries with the same external address and port, and what comes back for the
  new one is translated by the old one.
\<close>

theorem nat_port_clash:
  assumes port: "1024 < rnd 0" "\<forall>e\<in>set (rs_nat_table rs). np_port (ne_ext e) \<noteq> rnd 0"
    and used: "ne \<in> set (rs_nat_table rs)" "np_port (ne_ext ne) = htons (rnd 0)" "np_ip (ne_ext ne) = ext_ip"
    and p: "is_tcp_udp p" and r: "is_tcp_udp r" "ip_dst r get_ip_hdr = ext_ip" "ld16 r 36 = htons (rnd 0)"
  shows "\<exists>k rs'. create_nat_table_entry rnd now rs p ext_ip = Some (k, rs') \<and>
    np_ip (ne_ext (rs_nat_table rs' ! k)) = ext_ip \<and> np_port (ne_ext (rs_nat_table rs' ! k)) = htons (rnd 0) \<and>
    (\<exists>j. get_nat_table_entry rs' r NAT_EXTERNAL = Some j \<and> j < k)"
proof -
  have "choose_ext_port rnd rs 0 = Some (rnd 0)"
    using port by (subst choose_ext_port.simps) (auto simp: unique_ext_port_iff)
  then obtain k rs' new where create: "create_nat_table_entry rnd now rs p ext_ip = Some (k, rs')"
    and k: "k = length (rs_nat_table rs)" and rs': "rs_nat_table rs' = rs_nat_table rs @ [new]"
    and new: "np_ip (ne_ext new) = ext_ip" "np_port (ne_ext new) = htons (rnd 0)"
    by (auto simp: create_nat_table_entry_def Let_def compute_nat_checksums_values)
  from used(1) obtain i where i: "i < k" "rs_nat_table rs ! i = ne"
    unfolding k in_set_conv_nth by blast
  let ?P = "\<lambda>e. found_nat_table_match e (get_nat_ip_port_pair r NAT_EXTERNAL) NAT_EXTERNAL = 1"
  have P: "?P e \<longleftrightarrow> np_ip (ne_ext e) = ext_ip \<and> np_port (ne_ext e) = htons (rnd 0)" for e
    using r by (simp add: nat_match_iff nat_pair_tcp_udp)
  define j where "j = (LEAST j. j < k \<and> ?P (rs_nat_table rs' ! j))"
  have "i < k \<and> ?P (rs_nat_table rs' ! i)" using i used by (simp add: P rs' nth_append k)
  then have j: "j < k" "?P (rs_nat_table rs' ! j)" unfolding j_def by (metis (mono_tags, lifting) LeastI)+
  have "\<forall>m<j. \<not> ?P (rs_nat_table rs' ! m)"
    using not_less_Least [of _ "\<lambda>j. j < k \<and> ?P (rs_nat_table rs' ! j)"] j(1)
    unfolding j_def [symmetric] by (meson less_trans)
  then have "get_nat_table_entry rs' r NAT_EXTERNAL = Some j"
    unfolding get_nat_table_entry_def
    using nat_table_walk_first [of j "rs_nat_table rs'" _ NAT_EXTERNAL 0] j k rs' by simp
  with create k rs' new j(1) show ?thesis by (intro exI [of _ k] exI [of _ rs']) simp
qed

theorem nat_port_clash_witness:
  "\<exists>k rs' j. create_nat_table_entry (\<lambda>_. 2000) 0 (rs0\<lparr>rs_nat_table := [nat_entry1]\<rparr>) tcp_pkt 0x0100000a =
      Some (k, rs') \<and> get_nat_table_entry rs' tcp_pkt NAT_EXTERNAL = Some j \<and> j < k"
proof -
  have h: "htons 2000 = 0xd007" by (simp add: ntohs_def)
  have "\<exists>k rs'. create_nat_table_entry (\<lambda>_. 2000) 0 (rs0\<lparr>rs_nat_table := [nat_entry1]\<rparr>) tcp_pkt 0x0100000a =
      Some (k, rs') \<and>
    np_ip (ne_ext (rs_nat_table rs' ! k)) = 0x0100000a \<and> np_port (ne_ext (rs_nat_table rs' ! k)) = htons 2000 \<and>
    (\<exists>j. get_nat_table_entry rs' tcp_pkt NAT_EXTERNAL = Some j \<and> j < k)"
    by (rule nat_port_clash [of _ _ nat_entry1])
      (simp_all add: h is_tcp_udp_def tcp_pkt_fields)
  then show ?thesis by blast
qed

end
