(* ===== verification/Or_Iface.thy ===== *)
theory Or_Iface
  imports Or_Rtable
begin

section \<open>The interface list (\<^verbatim>\<open>or_iface.c\<close>, \<^verbatim>\<open>or_main.c\<close>)\<close>

text \<open>
  Lookups by name and address, changes of an address, and the addition of the interfaces when
  the hardware is set up, which also fills the local IP filters.
\<close>

definition SR_NAMELEN :: nat where "SR_NAMELEN = 32"

text \<open>\<^verbatim>\<open>!strncmp(a, b, n)\<close> for strings without a zero byte.\<close>

definition strncmp_eq :: "string \<Rightarrow> string \<Rightarrow> nat \<Rightarrow> bool" where
  "strncmp_eq a b n \<longleftrightarrow> take n a = take n b"

definition get_iface :: "router_state \<Rightarrow> string \<Rightarrow> iface_entry option" where
  "get_iface rs interface = find (\<lambda>sr_if. strncmp_eq interface (if_name sr_if) SR_NAMELEN) (rs_if_list rs)"

definition get_interface :: "router_state \<Rightarrow> string \<Rightarrow> iface_entry option" where
  "get_interface rs name = find (\<lambda>vns_if. strncmp_eq (if_name vns_if) name SR_NAMELEN) (rs_if_list rs)"

fun iface_match_ip_loop :: "iface_entry list \<Rightarrow> u32 \<Rightarrow> int \<Rightarrow> int" where
  "iface_match_ip_loop [] ip retval = retval"
| "iface_match_ip_loop (entry # cur) ip retval =
     iface_match_ip_loop cur ip (if if_is_active entry \<and> if_ip entry = ip then 1 else retval)"

definition iface_match_ip :: "router_state \<Rightarrow> u32 \<Rightarrow> int" where
  "iface_match_ip rs ip = iface_match_ip_loop (rs_if_list rs) ip 0"

definition iface_update :: "router_state \<Rightarrow> string \<Rightarrow> u32 \<Rightarrow> u32 \<Rightarrow> int \<times> router_state" where
  "iface_update rs interface ip msk =
     (case get_iface rs interface of
        None \<Rightarrow> (0, rs)
      | Some _ \<Rightarrow> (1, rs\<lparr>rs_if_list :=
          upd_first (\<lambda>sr_if. strncmp_eq interface (if_name sr_if) SR_NAMELEN)
            (\<lambda>iface. iface\<lparr>if_ip := ip, if_mask := msk\<rparr>) (rs_if_list rs)\<rparr>))"

definition iface_is_active :: "router_state \<Rightarrow> string \<Rightarrow> int" where
  "iface_is_active rs interface =
     (case get_iface rs interface of
        None \<Rightarrow> 0 | Some entry \<Rightarrow> (if if_is_active entry then 1 else 0))"

text \<open>The MAC address as the two register words.\<close>

definition mac_hi :: "u8 list \<Rightarrow> u32" where
  "mac_hi a = push_bit 8 (ucast (a ! 0)) OR ucast (a ! 1)"

definition mac_lo :: "u8 list \<Rightarrow> u32" where
  "mac_lo a = push_bit 24 (ucast (a ! 2)) OR push_bit 16 (ucast (a ! 3)) OR
     push_bit 8 (ucast (a ! 4)) OR ucast (a ! 5)"

text \<open>The interface as the platform reports it (\<^verbatim>\<open>struct sr_vns_if\<close>).\<close>

record sr_vns_if =
  vns_name :: string
  vns_addr :: "u8 list"
  vns_ip :: u32
  vns_mask :: u32
  vns_speed :: u32

fun contains_str :: "string \<Rightarrow> string \<Rightarrow> bool" where
  "contains_str pat [] = (pat = [])"
| "contains_str pat (c # cs) = (take (length pat) (c # cs) = pat \<or> contains_str pat cs)"

definition init_add_interface ::
  "(string \<Rightarrow> string \<Rightarrow> int) \<Rightarrow> router_state \<Rightarrow> sr_vns_if \<Rightarrow> router_state option" where
  "init_add_interface strcmp rs vns_if =
     (if contains_str ''cpu'' (vns_name vns_if) then Some rs
      else do {
        let ie = \<lparr>if_name = take IF_LEN (vns_name vns_if), if_addr = vns_addr vns_if,
                  if_ip = vns_ip vns_if, if_mask = vns_mask vns_if, if_speed = vns_speed vns_if,
                  if_is_active = True, if_last_sent_hello = 0, if_nbr_routers = [], if_is_wan = 0\<rparr>;
        let rs = (if strncmp_eq (if_name ie) ''eth0'' IF_LEN
                  then rs\<lparr>rs_router_id := if_ip ie\<rparr> else rs);
        let rs = rs\<lparr>rs_if_list := rs_if_list rs @ [ie]\<rparr>;
        rs \<leftarrow> (if rs_is_netfpga rs
              then (case getPortNumber (vns_name vns_if) of
                      None \<Rightarrow> None
                    | Some port \<Rightarrow> Some (if port < 4
                        then writeReg (MAC_LOW (unat port)) (mac_lo (vns_addr vns_if))
                               (writeReg (MAC_HI (unat port)) (mac_hi (vns_addr vns_if)) rs)
                        else rs))
              else Some rs);
        (_, rs) \<leftarrow> add_local_ip_filter strcmp rs (vns_ip vns_if) (vns_name vns_if);
        Some rs
      })"

lemma get_interface_get_iface: "get_interface rs name = get_iface rs name"
  by (simp add: get_interface_def get_iface_def strncmp_eq_def eq_commute)

lemma iface_match_ip_loop_iff:
  "iface_match_ip_loop l ip r = (if \<exists>e\<in>set l. if_is_active e \<and> if_ip e = ip then 1 else r)"
  by (induction l arbitrary: r) auto

lemma iface_match_ip_iff:
  "iface_match_ip rs ip = (if \<exists>e\<in>set (rs_if_list rs). if_is_active e \<and> if_ip e = ip then 1 else 0)"
  by (simp add: iface_match_ip_def iface_match_ip_loop_iff)

lemma get_iface_Some:
  "get_iface rs nm = Some e \<Longrightarrow> e \<in> set (rs_if_list rs) \<and> take 32 nm = take 32 (if_name e)"
  by (auto simp: get_iface_def strncmp_eq_def SR_NAMELEN_def dest: find_SomeD)

text \<open>Reading back the six bytes of an address from its register words.\<close>

definition mac_of_words :: "u32 \<Rightarrow> u32 \<Rightarrow> u8 list" where
  "mac_of_words hi lo = [ucast (drop_bit 8 hi), ucast hi, ucast (drop_bit 24 lo),
     ucast (drop_bit 16 lo), ucast (drop_bit 8 lo), ucast lo]"

lemma not_bit_u8 [simp]: "8 \<le> n \<Longrightarrow> \<not> bit (b :: u8) n"
  by (auto dest: bit_imp_le_length)

lemma mac_words_roundtrip:
  assumes "length a = 6"
  shows "mac_of_words (mac_hi a) (mac_lo a) = a"
proof -
  from assms obtain b0 b1 b2 b3 b4 b5 where a: "a = [b0, b1, b2, b3, b4, b5]"
    by (auto simp: numeral_eq_Suc length_Suc_conv)
  show ?thesis
    unfolding a mac_of_words_def mac_hi_def mac_lo_def
    by (auto simp: bit_simps intro!: bit_word_eqI dest: bit_imp_le_length)
qed

end
