(* ===== verification/Hop_Distance.thy ===== *)
theory Hop_Distance
  imports Prelude
begin

section \<open>Hop distances in a directed graph\<close>

text \<open>
  The graph theory behind the shortest path search of \<^verbatim>\<open>or_dijkstra.c\<close>, without the router
  records: an invariant of the search over a finished set, distances and predecessors, its
  preservation when a closest node is finished, and what it says when the search ends.
  \<open>M\<close> plays the role of the infinite distance.
\<close>

definition hop_dist :: "('v \<times> 'v) set \<Rightarrow> 'v \<Rightarrow> 'v \<Rightarrow> nat \<Rightarrow> bool" where
  "hop_dist E s v d \<longleftrightarrow> (s, v) \<in> E ^^ d \<and> (\<forall>n. (s, v) \<in> E ^^ n \<longrightarrow> d \<le> n)"

definition search_inv ::
  "('v \<times> 'v) set \<Rightarrow> nat \<Rightarrow> 'v \<Rightarrow> 'v set \<Rightarrow> ('v \<Rightarrow> nat) \<Rightarrow> ('v \<Rightarrow> 'v option) \<Rightarrow> bool" where
  "search_inv E M s S D P \<longleftrightarrow> finite S \<and> s \<in> S \<and> D s = 0 \<and>
     (\<forall>v\<in>S. D v < card S \<and> hop_dist E s v (D v)) \<and>
     (\<forall>v. v \<notin> S \<longrightarrow> D v < M \<longrightarrow> D v \<le> card S \<and> (s, v) \<in> E ^^ D v) \<and>
     (\<forall>u\<in>S. \<forall>v. (u, v) \<in> E \<longrightarrow> D v \<le> D u + 1) \<and>
     (\<forall>v. v \<noteq> s \<longrightarrow> D v < M \<or> v \<in> S \<longrightarrow>
        (\<exists>u\<in>S. P v = Some u \<and> D v = D u + 1 \<and> (u, v) \<in> E))"

text \<open>A path to an unfinished node leaves the finished set over an edge.\<close>

lemma first_unfinished:
  assumes inv: "search_inv E M s S D P" and path: "(s, v) \<in> E ^^ n" and v: "v \<notin> S"
  shows "\<exists>x y. x \<in> S \<and> y \<notin> S \<and> (x, y) \<in> E \<and> D x + 1 \<le> n \<and> D y \<le> D x + 1"
  using path v
proof (induction n arbitrary: v)
  case 0
  with inv show ?case by (simp add: search_inv_def)
next
  case (Suc n)
  from Suc.prems(1) obtain u where u: "(s, u) \<in> E ^^ n" "(u, v) \<in> E" by auto
  show ?case
  proof (cases "u \<in> S")
    case True
    with inv u(1) have "D u \<le> n" unfolding search_inv_def hop_dist_def by blast
    moreover from inv True u(2) have "D v \<le> D u + 1" unfolding search_inv_def by blast
    ultimately show ?thesis using True Suc.prems(2) u(2) by auto
  next
    case False
    from Suc.IH [OF u(1) False] show ?thesis by fastforce
  qed
qed

lemma search_inv_start:
  assumes "D s = 0" and D: "\<And>v. v \<noteq> s \<Longrightarrow> D v = (if (s, v) \<in> E then 1 else M)"
    and P: "\<And>v. v \<noteq> s \<Longrightarrow> (s, v) \<in> E \<Longrightarrow> P v = Some s"
  shows "search_inv E M s {s} D P"
proof -
  have "D v \<le> 1" if "(s, v) \<in> E" for v using assms(1) D [of v] that by (cases "v = s") auto
  moreover have "(s, v) \<in> E \<and> D v = Suc 0 \<and> (s, v) \<in> E ^^ D v" if "v \<noteq> s" "D v < M" for v
    using D [OF that(1)] that(2) by (auto split: if_splits)
  ultimately show ?thesis using assms(1) P by (auto simp: search_inv_def hop_dist_def)
qed

text \<open>Finishing a closest unfinished node and relaxing its edges.\<close>

lemma search_inv_step:
  assumes inv: "search_inv E M s S D P"
    and u: "u \<notin> S" "D u < M" and closest: "\<And>v. v \<notin> S \<Longrightarrow> D u \<le> D v"
    and D': "\<And>v. D' v = (if v \<notin> insert u S \<and> (u, v) \<in> E \<and> D u + 1 < D v then D u + 1 else D v)"
    and P': "\<And>v. P' v = (if v \<notin> insert u S \<and> (u, v) \<in> E \<and> D u + 1 < D v then Some u else P v)"
  shows "search_inv E M s (insert u S) D' P'"
proof -
  note inv' = inv [unfolded search_inv_def]
  have S: "finite S" "s \<in> S" "D s = 0" using inv' by blast+
  then have card: "card (insert u S) = Suc (card S)" using u(1) by simp
  have same: "D' v = D v" "P' v = P v" if "v \<in> insert u S" for v using that D' P' by auto
  have u': "D u \<le> card S" "(s, u) \<in> E ^^ D u" using inv' u by blast+
  have min: "D u \<le> n" if "(s, u) \<in> E ^^ n" for n
  proof -
    from first_unfinished [OF inv that u(1)] obtain x y where "y \<notin> S" "D x + 1 \<le> n" "D y \<le> D x + 1"
      by blast
    with closest [of y] show ?thesis by simp
  qed
  then have hop_u: "hop_dist E s u (D u)" using u'(2) by (simp add: hop_dist_def)
  have su: "u \<noteq> s" using u(1) S(2) by blast
  show ?thesis
    unfolding search_inv_def
  proof (intro conjI ballI allI impI)
    show "finite (insert u S)" "s \<in> insert u S" "D' s = 0" using S same(1) [of s] by auto
  next
    fix v assume v: "v \<in> insert u S"
    then show "D' v < card (insert u S)" using inv' u'(1) same(1) card by force
    show "hop_dist E s v (D' v)" using v inv' hop_u same(1) [OF v] by auto
  next
    fix v assume v: "v \<notin> insert u S" "D' v < M"
    show "D' v \<le> card (insert u S)" "(s, v) \<in> E ^^ D' v"
    proof -
      have "D' v \<le> card (insert u S) \<and> (s, v) \<in> E ^^ D' v"
      proof (cases "(u, v) \<in> E \<and> D u + 1 < D v")
        case True
        with v(1) D' have "D' v = Suc (D u)" by simp
        with True u' card show ?thesis by auto
      next
        case False
        with v(1) D' have "D' v = D v" by simp
        with inv' v card show ?thesis by (metis insertI2 le_SucI)
      qed
      then show "D' v \<le> card (insert u S)" "(s, v) \<in> E ^^ D' v" by blast+
    qed
  next
    fix x v assume x: "x \<in> insert u S" "(x, v) \<in> E"
    have le: "D' v \<le> D v" using D' [of v] by (cases "v \<notin> insert u S \<and> (u, v) \<in> E \<and> D u + 1 < D v") simp_all
    show "D' v \<le> D' x + 1"
    proof (cases "x \<in> S")
      case True
      with inv' x(2) have "D v \<le> D x + 1" by blast
      with le same(1) [OF x(1)] show ?thesis by simp
    next
      case False
      with x(1) have xu: "x = u" by blast
      show ?thesis
      proof (cases "v \<in> S")
        case True
        with inv' have "hop_dist E s v (D v)" by blast
        moreover have "(s, v) \<in> E ^^ Suc (D u)" using u'(2) x(2) xu by auto
        ultimately have "D v \<le> Suc (D u)" by (auto simp: hop_dist_def)
        with le same(1) [OF x(1)] xu show ?thesis by simp
      next
        case out: False
        show ?thesis
        proof (cases "v = u")
          case True
          with xu show ?thesis by simp
        next
          case False
          then have "D' v \<le> D u + 1" using D' [of v] out x(2) xu by auto
          with same(1) [OF x(1)] xu show ?thesis by simp
        qed
      qed
    qed
  next
    fix v assume v: "v \<noteq> s" "D' v < M \<or> v \<in> insert u S"
    show "\<exists>w\<in>insert u S. P' v = Some w \<and> D' v = D' w + 1 \<and> (w, v) \<in> E"
    proof (cases "v \<notin> insert u S \<and> (u, v) \<in> E \<and> D u + 1 < D v")
      case True
      then show ?thesis using D' [of v] P' [of v] same(1) [of u] by (intro bexI [of _ u]) auto
    next
      case False
      then have eq: "D' v = D v" "P' v = P v" by (simp_all only: D' P' if_False)
      then have "D v < M \<or> v \<in> S" using v(2) u(2) by auto
      with inv' v(1) obtain w where "w \<in> S" "P v = Some w" "D v = D w + 1" "(w, v) \<in> E" by blast
      with eq same(1) [of w] show ?thesis by auto
    qed
  qed
qed

text \<open>The search is over: every reachable node is finished.\<close>

lemma search_inv_end:
  assumes inv: "search_inv E M s S D P" and over: "\<And>v. v \<notin> S \<Longrightarrow> M \<le> D v" and "card S < M"
    and path: "(s, v) \<in> E ^^ n"
  shows "v \<in> S"
proof (rule ccontr)
  assume "v \<notin> S"
  from first_unfinished [OF inv path this] obtain x y where "x \<in> S" "y \<notin> S" "D y \<le> D x + 1" by blast
  moreover from this(1) inv have "D x < card S" unfolding search_inv_def by blast
  ultimately show False using over [of y] assms(3) by fastforce
qed

end
