(* ===== verification/Or_Dijkstra.thy ===== *)
theory Or_Dijkstra
  imports Or_Iface Hop_Distance
begin

section \<open>Shortest paths and the dynamic routes (\<^verbatim>\<open>or_dijkstra.c\<close>)\<close>

text \<open>
  The search for the shortest paths over the router list, the routes derived from it and the
  step of the thread that installs them. The lemmas show that the search ends with the hop
  distance of every router over the active links, that the walk along the predecessors finds
  a neighbour on a shortest path, and what a run of the thread does to the routing table.
\<close>

subsection \<open>The search\<close>

definition get_router_by_rid :: "u32 \<Rightarrow> pwospf_router list \<Rightarrow> pwospf_router option" where
  "get_router_by_rid rid l = find (\<lambda>r. r_router_id r = rid) l"

definition dijkstra_init :: "u32 \<Rightarrow> pwospf_router list \<Rightarrow> pwospf_router list" where
  "dijkstra_init our_router_id l = map (\<lambda>r.
     if r_router_id r = our_router_id then r\<lparr>r_distance := 0, r_shortest_path_found := True\<rparr>
     else if r_router_id r \<noteq> 0 then r\<lparr>r_distance := 0xFFFFFFFF, r_shortest_path_found := False\<rparr>
     else r) l"

fun get_shortest_loop :: "pwospf_router list \<Rightarrow> pwospf_router option \<Rightarrow> u32 \<Rightarrow> pwospf_router option" where
  "get_shortest_loop [] shortest_router shortest_distance = shortest_router"
| "get_shortest_loop (r # cur) shortest_router shortest_distance =
     (if \<not> r_shortest_path_found r \<and> r_distance r < shortest_distance
      then get_shortest_loop cur (Some r) (r_distance r)
      else get_shortest_loop cur shortest_router shortest_distance)"

definition get_shortest :: "pwospf_router list \<Rightarrow> pwospf_router option" where
  "get_shortest l = get_shortest_loop l None 0xFFFFFFFF"

fun update_neighbor_loop ::
  "pwospf_router \<Rightarrow> pwospf_interface list \<Rightarrow> pwospf_router list \<Rightarrow> pwospf_router list" where
  "update_neighbor_loop w [] l = l"
| "update_neighbor_loop w (i # cur) l =
     update_neighbor_loop w cur
       (if pi_router_id i \<noteq> 0 \<and> pi_is_active i then
          (case get_router_by_rid (pi_router_id i) l of
             None \<Rightarrow> l
           | Some v \<Rightarrow>
               if \<not> r_shortest_path_found v \<and> r_distance w + 1 < r_distance v
               then upd_first (\<lambda>r. r_router_id r = pi_router_id i)
                      (\<lambda>v. v\<lparr>r_distance := r_distance w + 1, r_prev_router := Some (r_router_id w)\<rparr>) l
               else l)
        else l)"

definition update_neighbor_distance :: "pwospf_router \<Rightarrow> pwospf_router list \<Rightarrow> pwospf_router list" where
  "update_neighbor_distance w l = update_neighbor_loop w (r_interface_list w) l"

text \<open>The loop of \<^verbatim>\<open>compute_rtable\<close>; the pointer \<^verbatim>\<open>r_shortest\<close> is the identifier of its router.\<close>

partial_function (option) dijkstra_loop :: "u32 \<Rightarrow> pwospf_router list \<Rightarrow> pwospf_router list option" where
  "dijkstra_loop rid l =
     (let l = upd_first (\<lambda>r. r_router_id r = rid) (\<lambda>r. r\<lparr>r_shortest_path_found := True\<rparr>) l
      in case get_router_by_rid rid l of
           None \<Rightarrow> None
         | Some r_shortest \<Rightarrow>
             (let l = update_neighbor_distance r_shortest l
              in case get_shortest l of
                   None \<Rightarrow> Some l
                 | Some r \<Rightarrow> dijkstra_loop (r_router_id r) l))"

definition dijkstra_search :: "u32 \<Rightarrow> pwospf_router list \<Rightarrow> pwospf_router list option" where
  "dijkstra_search our_router_id l =
     (let l = dijkstra_init our_router_id l
      in case get_router_by_rid our_router_id l of
           None \<Rightarrow> Some l
         | Some _ \<Rightarrow> dijkstra_loop our_router_id l)"

subsection \<open>The routes\<close>

record route_wrapper =
  rw_ip :: u32
  rw_mask :: u32
  rw_distance :: u16
  rw_next_rid :: u32
  rw_directly_connected :: bool

text \<open>Following a null or dangling predecessor is a fault.\<close>

partial_function (option) next_walk :: "pwospf_router list \<Rightarrow> pwospf_router \<Rightarrow> u32 option" where
  "next_walk l cur_router =
     (case r_prev_router cur_router of
        None \<Rightarrow> None
      | Some p \<Rightarrow>
          (case get_router_by_rid p l of
             None \<Rightarrow> None
           | Some prev \<Rightarrow>
               if r_distance prev \<noteq> 0 then next_walk l prev else Some (r_router_id cur_router)))"

definition next_rid :: "pwospf_router list \<Rightarrow> pwospf_router \<Rightarrow> pwospf_interface \<Rightarrow> u32 option" where
  "next_rid l r i = (if r_prev_router r = None then Some (pi_router_id i) else next_walk l r)"

definition wrapper_matches :: "u32 \<Rightarrow> u32 \<Rightarrow> route_wrapper \<Rightarrow> bool" where
  "wrapper_matches subnet msk w \<longleftrightarrow> rw_ip w = subnet AND msk \<and> rw_mask w = msk"

definition get_route_wrapper :: "route_wrapper list \<Rightarrow> u32 \<Rightarrow> u32 \<Rightarrow> route_wrapper option" where
  "get_route_wrapper head subnet msk = find (wrapper_matches subnet msk) head"

fun add_route_wrappers_loop :: "u32 \<Rightarrow> pwospf_router list \<Rightarrow> pwospf_router \<Rightarrow>
    pwospf_interface list \<Rightarrow> route_wrapper list \<Rightarrow> route_wrapper list option" where
  "add_route_wrappers_loop our_rid l r [] head = Some head"
| "add_route_wrappers_loop our_rid l r (i # cur) head =
     (case get_route_wrapper head (pi_subnet i) (pi_mask i) of
        Some wrapper \<Rightarrow>
          if r_distance r \<ge> ucast (rw_distance wrapper)
          then add_route_wrappers_loop our_rid l r cur head
          else do {
            next \<leftarrow> next_rid l r i;
            add_route_wrappers_loop our_rid l r cur
              (upd_first (wrapper_matches (pi_subnet i) (pi_mask i))
                (\<lambda>w. w\<lparr>rw_distance := ucast (r_distance r), rw_next_rid := next,
                       rw_directly_connected := rw_directly_connected w \<or> our_rid = r_router_id r\<rparr>) head)
          }
      | None \<Rightarrow> do {
          next \<leftarrow> next_rid l r i;
          add_route_wrappers_loop our_rid l r cur
            (head @ [\<lparr>rw_ip = pi_subnet i AND pi_mask i, rw_mask = pi_mask i,
               rw_distance = ucast (r_distance r), rw_next_rid = next,
               rw_directly_connected = (our_rid = r_router_id r)\<rparr>])
        })"

definition add_route_wrappers ::
  "u32 \<Rightarrow> pwospf_router list \<Rightarrow> route_wrapper list \<Rightarrow> pwospf_router \<Rightarrow> route_wrapper list option" where
  "add_route_wrappers our_rid l head r = add_route_wrappers_loop our_rid l r (r_interface_list r) head"

fun build_route_wrapper_loop ::
  "u32 \<Rightarrow> pwospf_router list \<Rightarrow> pwospf_router list \<Rightarrow> route_wrapper list \<Rightarrow> route_wrapper list option" where
  "build_route_wrapper_loop our_rid l [] head = Some head"
| "build_route_wrapper_loop our_rid l (r # cur) head = do {
     head \<leftarrow> add_route_wrappers our_rid l head r;
     build_route_wrapper_loop our_rid l cur head
   }"

definition build_route_wrapper_list :: "u32 \<Rightarrow> pwospf_router list \<Rightarrow> route_wrapper list option" where
  "build_route_wrapper_list our_rid l = build_route_wrapper_loop our_rid l l []"

definition get_nbr_by_rid :: "iface_entry \<Rightarrow> u32 \<Rightarrow> nbr_router option" where
  "get_nbr_by_rid iface rid = find (\<lambda>nbr. nbr_router_id nbr = rid) (if_nbr_routers iface)"

definition get_iface_by_rid :: "u32 \<Rightarrow> iface_entry list \<Rightarrow> iface_entry option" where
  "get_iface_by_rid rid if_list =
     (if rid = 0 then None
      else find (\<lambda>i. \<exists>nbr\<in>set (if_nbr_routers i). nbr_router_id nbr = rid) if_list)"

definition get_iface_by_subnet_mask :: "u32 \<Rightarrow> u32 \<Rightarrow> iface_entry list \<Rightarrow> iface_entry option" where
  "get_iface_by_subnet_mask subnet msk if_list =
     find (\<lambda>i. if_ip i AND if_mask i = subnet \<and> if_mask i = msk) if_list"

fun route_list_loop :: "iface_entry list \<Rightarrow> route_wrapper list \<Rightarrow> rtable_entry list option" where
  "route_list_loop if_list [] = Some []"
| "route_list_loop if_list (wrapper # cur) =
     (case (case get_iface_by_rid (rw_next_rid wrapper) if_list of
              Some iface \<Rightarrow> Some iface
            | None \<Rightarrow> get_iface_by_subnet_mask (rw_ip wrapper) (rw_mask wrapper) if_list) of
        None \<Rightarrow> route_list_loop if_list cur
      | Some iface \<Rightarrow> do {
          gw \<leftarrow> (if rw_directly_connected wrapper then Some 0
                 else map_option nbr_ip (get_nbr_by_rid iface (rw_next_rid wrapper)));
          route_list \<leftarrow> route_list_loop if_list cur;
          Some (\<lparr>re_ip = rw_ip wrapper, re_gw = gw, re_mask = rw_mask wrapper,
                 re_iface = take IF_LEN (if_name iface), re_is_static = False,
                 re_is_active = True\<rparr> # route_list)
        })"

text \<open>The routes, and the router list with the distances that the search leaves in it.\<close>

definition compute_rtable ::
  "u32 \<Rightarrow> pwospf_router list \<Rightarrow> iface_entry list \<Rightarrow> (rtable_entry list \<times> pwospf_router list) option" where
  "compute_rtable our_router_id l if_list = do {
     l \<leftarrow> dijkstra_search our_router_id l;
     wrappers \<leftarrow> build_route_wrapper_list our_router_id l;
     route_list \<leftarrow> route_list_loop if_list wrappers;
     Some (route_list, l)
   }"

text \<open>One round of the thread: \<open>timed_out\<close> says whether the wait ended by its timeout.\<close>

definition dijkstra_step :: "bool \<Rightarrow> router_state \<Rightarrow> router_state option" where
  "dijkstra_step timed_out rs =
     (if timed_out \<and> \<not> rs_dijkstra_dirty rs then Some rs
      else do {
        let rs = rs\<lparr>rs_dijkstra_dirty := False\<rparr>;
        let rs = rs\<lparr>rs_rtable := filter re_is_static (rs_rtable rs)\<rparr>;
        (dijkstra_rtable, l) \<leftarrow> compute_rtable (rs_router_id rs) (rs_router_list rs) (rs_if_list rs);
        let rs = rs\<lparr>rs_router_list := l, rs_rtable := rs_rtable rs @ dijkstra_rtable\<rparr>;
        trigger_rtable_modified rs
      })"

definition dijkstra_trigger :: "router_state \<Rightarrow> router_state" where
  "dijkstra_trigger rs = rs\<lparr>rs_dijkstra_dirty := True\<rparr>"

subsection \<open>One round of the search\<close>

definition DIST_MAX :: nat where "DIST_MAX = 4294967295"

definition rids :: "pwospf_router list \<Rightarrow> u32 set" where
  "rids l = r_router_id ` set l"

text \<open>The active links between routers of the list.\<close>

definition router_edges :: "pwospf_router list \<Rightarrow> (u32 \<times> u32) set" where
  "router_edges l = {(u, v). v \<in> rids l \<and> v \<noteq> 0 \<and> (\<exists>r\<in>set l. r_router_id r = u \<and>
     (\<exists>i\<in>set (r_interface_list r). pi_is_active i \<and> pi_router_id i = v))}"

definition finished :: "pwospf_router list \<Rightarrow> u32 set" where
  "finished l = r_router_id ` {r \<in> set l. r_shortest_path_found r}"

definition dist_of :: "pwospf_router list \<Rightarrow> u32 \<Rightarrow> nat" where
  "dist_of l v = (case get_router_by_rid v l of None \<Rightarrow> DIST_MAX | Some r \<Rightarrow> unat (r_distance r))"

definition prev_of :: "pwospf_router list \<Rightarrow> u32 \<Rightarrow> u32 option" where
  "prev_of l v = (case get_router_by_rid v l of None \<Rightarrow> None | Some r \<Rightarrow> r_prev_router r)"

text \<open>What the search relies on: one router per identifier, our own among them, none with 0.\<close>

definition routers_ok :: "u32 \<Rightarrow> pwospf_router list \<Rightarrow> bool" where
  "routers_ok our l \<longleftrightarrow> distinct (map r_router_id l) \<and> 0 \<notin> rids l \<and> our \<in> rids l \<and> length l < DIST_MAX"

text \<open>What the search leaves alone.\<close>

definition links :: "pwospf_router list \<Rightarrow> (u32 \<times> pwospf_interface list) list" where
  "links l = map (\<lambda>r. (r_router_id r, r_interface_list r)) l"

lemma links_rids: "links l = links l' \<Longrightarrow> map r_router_id l = map r_router_id l'"
proof -
  assume "links l = links l'"
  then have "map fst (links l) = map fst (links l')" by simp
  then show ?thesis by (simp add: links_def comp_def)
qed

lemma rids_links: "rids l = fst ` set (links l)"
  by (auto simp: rids_def links_def image_image)

lemma router_edges_links:
  "router_edges l = {(u, v). v \<in> fst ` set (links l) \<and> v \<noteq> 0 \<and> (\<exists>is. (u, is) \<in> set (links l) \<and>
     (\<exists>i\<in>set is. pi_is_active i \<and> pi_router_id i = v))}"
  unfolding router_edges_def rids_links by (auto simp: links_def)

lemma links_frame:
  assumes "links l = links l'"
  shows "rids l = rids l'" "router_edges l = router_edges l'" "routers_ok our l = routers_ok our l'"
proof -
  have "length l = length l'" using links_rids [OF assms] by (metis length_map)
  then show "rids l = rids l'" "router_edges l = router_edges l'" "routers_ok our l = routers_ok our l'"
    using links_rids [OF assms] by (simp_all add: rids_links router_edges_links routers_ok_def assms)
qed

lemma links_upd_first:
  "(\<And>r. r_router_id (f r) = r_router_id r \<and> r_interface_list (f r) = r_interface_list r) \<Longrightarrow>
     links (upd_first P f l) = links l"
  unfolding links_def by (rule map_upd_first) simp

text \<open>Looking up a router after one of them was rewritten.\<close>

lemma get_router_upd_first:
  assumes "\<And>r. r_router_id (f r) = r_router_id r"
  shows "get_router_by_rid v (upd_first (\<lambda>r. r_router_id r = u) f l) =
    map_option (\<lambda>r. if v = u then f r else r) (get_router_by_rid v l)"
proof (cases "v = u")
  case True
  then show ?thesis by (simp add: get_router_by_rid_def find_upd_first assms)
next
  case False
  then show ?thesis
    by (simp add: get_router_by_rid_def find_upd_first_other assms option.map_id [unfolded id_def])
qed

lemma get_router_Some:
  "distinct (map r_router_id l) \<Longrightarrow> get_router_by_rid v l = Some r \<longleftrightarrow> r \<in> set l \<and> r_router_id r = v"
  using find_distinct_key [of r_router_id l r]
  by (auto simp: get_router_by_rid_def dest: find_SomeD)

lemma get_router_None: "get_router_by_rid v l = None \<longleftrightarrow> v \<notin> rids l"
  by (auto simp: get_router_by_rid_def find_None_iff rids_def)

definition relaxed :: "pwospf_router \<Rightarrow> bool \<Rightarrow> pwospf_router \<Rightarrow> pwospf_router" where
  "relaxed w c r = (if c \<and> \<not> r_shortest_path_found r \<and> r_distance w + 1 < r_distance r
     then r\<lparr>r_distance := r_distance w + 1, r_prev_router := Some (r_router_id w)\<rparr> else r)"

lemma relaxed_relaxed: "relaxed w c2 (relaxed w c1 r) = relaxed w (c1 \<or> c2) r"
  by (auto simp: relaxed_def)

lemma map_relaxed_False [simp]: "map_option (relaxed w False) x = x"
  by (cases x) (simp_all add: relaxed_def)

lemma update_neighbor_loop_spec:
  "links (update_neighbor_loop w is l) = links l \<and>
   get_router_by_rid v (update_neighbor_loop w is l) =
     map_option (relaxed w (v \<noteq> 0 \<and> (\<exists>i\<in>set is. pi_is_active i \<and> pi_router_id i = v)))
       (get_router_by_rid v l)"
proof (induction "is" arbitrary: l)
  case Nil
  show ?case by (simp add: relaxed_def option.map_id [unfolded id_def])
next
  case (Cons i "is")
  let ?f = "\<lambda>x :: pwospf_router. x\<lparr>r_distance := r_distance w + 1, r_prev_router := Some (r_router_id w)\<rparr>"
  let ?c = "v \<noteq> 0 \<and> pi_is_active i \<and> pi_router_id i = v"
  let ?l = "if pi_router_id i \<noteq> 0 \<and> pi_is_active i then
      (case get_router_by_rid (pi_router_id i) l of None \<Rightarrow> l
       | Some x \<Rightarrow> if \<not> r_shortest_path_found x \<and> r_distance w + 1 < r_distance x
           then upd_first (\<lambda>r. r_router_id r = pi_router_id i) ?f l else l) else l"
  have "links ?l = links l \<and> get_router_by_rid v ?l = map_option (relaxed w ?c) (get_router_by_rid v l)"
  proof (cases "pi_router_id i \<noteq> 0 \<and> pi_is_active i \<and> get_router_by_rid (pi_router_id i) l \<noteq> None")
    case True
    then obtain x where x: "get_router_by_rid (pi_router_id i) l = Some x" by blast
    have "get_router_by_rid v (upd_first (\<lambda>r. r_router_id r = pi_router_id i) ?f l) =
        map_option (\<lambda>r. if v = pi_router_id i then ?f r else r) (get_router_by_rid v l)"
      by (rule get_router_upd_first) simp
    with True x show ?thesis
      by (cases "v = pi_router_id i") (auto simp: links_upd_first relaxed_def option.map_id [unfolded id_def])
  next
    case False
    then show ?thesis
      by (cases "get_router_by_rid v l") (auto simp: relaxed_def)
  qed
  with Cons.IH [of ?l] show ?case
    by (simp add: option.map_comp comp_def relaxed_relaxed conj_disj_distribL)
qed

lemma unat_less_max: "unat (x :: u32) < DIST_MAX \<longleftrightarrow> uint x < 4294967295"
proof -
  have "int (unat x) = uint x" by simp
  then show ?thesis unfolding DIST_MAX_def by linarith
qed

lemma get_shortest_loop_scan:
  "get_shortest_loop l best sd =
     scan_max (\<lambda>r. \<not> r_shortest_path_found r) (\<lambda>r. - uint (r_distance r)) l best (- uint sd)"
  by (induction l arbitrary: best sd) (auto simp: word_less_def)

lemma get_shortest_None:
  assumes "get_shortest l = None" "r \<in> set l" "\<not> r_shortest_path_found r"
  shows "DIST_MAX \<le> unat (r_distance r)"
proof (rule ccontr)
  let ?P = "\<lambda>r. \<not> r_shortest_path_found r" and ?w = "\<lambda>r. - uint (r_distance r)"
  assume less: "\<not> DIST_MAX \<le> unat (r_distance r)"
  from ex_max_elem [where P = ?P and w = ?w, OF assms(2,3)] obtain y where
    y: "y \<in> set l" "max_elem ?P ?w l y" by blast
  then have "?w r \<le> ?w y" using assms(2,3) by (simp add: max_elem_def)
  moreover have "uint (r_distance r) < 4294967295"
    using less by (simp add: not_le unat_less_max)
  ultimately have "- 4294967295 < ?w y" by simp
  with y assms(1) show False
    by (auto simp: get_shortest_def get_shortest_loop_scan scan_max_spec find_None_iff
        split: option.splits)
qed

lemma get_shortest_Some:
  assumes "get_shortest l = Some r"
  shows "r \<in> set l \<and> \<not> r_shortest_path_found r \<and> unat (r_distance r) < DIST_MAX \<and>
    (\<forall>r'\<in>set l. \<not> r_shortest_path_found r' \<longrightarrow> unat (r_distance r) \<le> unat (r_distance r'))"
proof -
  have "r \<in> set l \<and> \<not> r_shortest_path_found r \<and> uint (r_distance r) < 4294967295 \<and>
      (\<forall>r'\<in>set l. \<not> r_shortest_path_found r' \<longrightarrow> uint (r_distance r) \<le> uint (r_distance r'))"
    using assms
    by (auto simp: get_shortest_def get_shortest_loop_scan scan_max_spec max_elem_def
        dest!: find_SomeD split: option.splits)
  then show ?thesis
    unfolding unat_less_max by (simp add: word_le_def [symmetric] word_le_nat_alt)
qed

lemma finished_iff:
  "distinct (map r_router_id l) \<Longrightarrow>
     v \<in> finished l \<longleftrightarrow> (\<exists>r. get_router_by_rid v l = Some r \<and> r_shortest_path_found r)"
  by (auto simp: finished_def get_router_Some)

lemma router_edges_iff:
  assumes "distinct (map r_router_id l)" "get_router_by_rid u l = Some r"
  shows "(u, v) \<in> router_edges l \<longleftrightarrow> get_router_by_rid v l \<noteq> None \<and> v \<noteq> 0 \<and>
    (\<exists>i\<in>set (r_interface_list r). pi_is_active i \<and> pi_router_id i = v)"
proof -
  have "(r' \<in> set l \<and> r_router_id r' = u) \<longleftrightarrow> r' = r" for r'
    using get_router_Some [OF assms(1), of u r'] assms(2) by auto
  then have "(\<exists>r'\<in>set l. r_router_id r' = u \<and> Q r') \<longleftrightarrow> Q r" for Q by metis
  then show ?thesis unfolding router_edges_def get_router_None by simp
qed

lemma unat_plus1:
  assumes "unat (d :: u32) < DIST_MAX"
  shows "unat (d + 1) = unat d + 1"
proof -
  have one: "unat (1 :: u32) = 1" by simp
  have "(2 :: nat) ^ LENGTH(32) = 4294967296" by simp
  with assms have "unat d + unat (1 :: u32) < 2 ^ LENGTH(32)" unfolding DIST_MAX_def one by linarith
  then show ?thesis unfolding one [symmetric] by (rule unat_add_small)
qed

text \<open>The body of the loop for the router \<open>u\<close>.\<close>

definition search_round :: "u32 \<Rightarrow> pwospf_router list \<Rightarrow> pwospf_router list" where
  "search_round u l =
     (let l = upd_first (\<lambda>r. r_router_id r = u) (\<lambda>r. r\<lparr>r_shortest_path_found := True\<rparr>) l
      in case get_router_by_rid u l of None \<Rightarrow> l | Some w \<Rightarrow> update_neighbor_distance w l)"

lemma search_round_get:
  assumes "distinct (map r_router_id l)" and u: "get_router_by_rid u l = Some r"
  shows "get_router_by_rid v (search_round u l) =
    map_option (\<lambda>x. relaxed (r\<lparr>r_shortest_path_found := True\<rparr>) ((u, v) \<in> router_edges l)
      (if v = u then x\<lparr>r_shortest_path_found := True\<rparr> else x)) (get_router_by_rid v l)"
    and "links (search_round u l) = links l"
proof -
  let ?f = "\<lambda>x :: pwospf_router. x\<lparr>r_shortest_path_found := True\<rparr>"
  let ?l = "upd_first (\<lambda>r. r_router_id r = u) ?f l"
  have get: "get_router_by_rid v ?l = map_option (\<lambda>x. if v = u then ?f x else x) (get_router_by_rid v l)" for v
    by (rule get_router_upd_first) simp
  then have w: "get_router_by_rid u ?l = Some (?f r)" using u by simp
  then have round: "search_round u l = update_neighbor_distance (?f r) ?l"
    by (simp add: search_round_def)
  have "(u, v) \<in> router_edges l \<longleftrightarrow> v \<noteq> 0 \<and> (\<exists>i\<in>set (r_interface_list r). pi_is_active i \<and> pi_router_id i = v)"
    if "get_router_by_rid v l \<noteq> None"
    using that router_edges_iff [OF assms, of v] by simp
  then show "get_router_by_rid v (search_round u l) =
    map_option (\<lambda>x. relaxed (?f r) ((u, v) \<in> router_edges l) (if v = u then ?f x else x)) (get_router_by_rid v l)"
    unfolding round update_neighbor_distance_def
    using update_neighbor_loop_spec [of "?f r" "r_interface_list r" ?l v] get
    by (cases "get_router_by_rid v l") auto
  show "links (search_round u l) = links l"
    unfolding round update_neighbor_distance_def
    using update_neighbor_loop_spec [of "?f r" "r_interface_list (?f r)" ?l] by (simp add: links_upd_first)
qed

lemma search_round_spec:
  assumes ok: "routers_ok our l" and u: "u \<in> rids l" "dist_of l u < DIST_MAX"
  shows "links (search_round u l) = links l"
    and "finished (search_round u l) = insert u (finished l)"
    and "dist_of (search_round u l) v =
      (if v \<notin> insert u (finished l) \<and> (u, v) \<in> router_edges l \<and> dist_of l u + 1 < dist_of l v
       then dist_of l u + 1 else dist_of l v)"
    and "prev_of (search_round u l) v =
      (if v \<notin> insert u (finished l) \<and> (u, v) \<in> router_edges l \<and> dist_of l u + 1 < dist_of l v
       then Some u else prev_of l v)"
proof -
  from ok have dist: "distinct (map r_router_id l)" by (simp add: routers_ok_def)
  from u(1) obtain r where r: "get_router_by_rid u l = Some r" using get_router_None [of u l] by blast
  then have d: "unat (r_distance r) < DIST_MAX" "dist_of l u = unat (r_distance r)"
    using u(2) by (simp_all add: dist_of_def)
  from r have rid: "r_router_id r = u" using dist by (simp add: get_router_Some)
  note get = search_round_get [OF dist r]
  show "links (search_round u l) = links l" by (rule get(2))
  then have dist': "distinct (map r_router_id (search_round u l))" using dist links_rids by metis
  have found: "x \<in> finished (search_round u l) \<longleftrightarrow> x \<in> insert u (finished l)" for x
    unfolding finished_iff [OF dist'] finished_iff [OF dist] get insert_iff
    using r by (cases "get_router_by_rid x l") (auto simp: relaxed_def)
  then show "finished (search_round u l) = insert u (finished l)" by blast
  have less: "r_distance r + 1 < r_distance x \<longleftrightarrow> unat (r_distance r) + 1 < unat (r_distance x)" for x
    using unat_plus1 [OF d(1)] by (simp add: word_less_nat_alt)
  have none: "(u, v) \<notin> router_edges l" if "get_router_by_rid v l = None"
    using that router_edges_iff [OF dist r] by simp
  show "dist_of (search_round u l) v =
      (if v \<notin> insert u (finished l) \<and> (u, v) \<in> router_edges l \<and> dist_of l u + 1 < dist_of l v
       then dist_of l u + 1 else dist_of l v)"
    unfolding dist_of_def [of "search_round u l"] get finished_iff [OF dist] insert_iff d(2)
    using none unat_plus1 [OF d(1)]
    by (cases "get_router_by_rid v l") (auto simp: relaxed_def dist_of_def less)
  show "prev_of (search_round u l) v =
      (if v \<notin> insert u (finished l) \<and> (u, v) \<in> router_edges l \<and> dist_of l u + 1 < dist_of l v
       then Some u else prev_of l v)"
    unfolding prev_of_def [of "search_round u l"] get finished_iff [OF dist] insert_iff d(2)
    using none rid by (cases "get_router_by_rid v l") (auto simp: relaxed_def dist_of_def prev_of_def less)
qed

subsection \<open>The whole search\<close>

lemma dijkstra_loop_round:
  assumes "u \<in> rids l"
  shows "dijkstra_loop u l = (case get_shortest (search_round u l) of
      None \<Rightarrow> Some (search_round u l)
    | Some r \<Rightarrow> dijkstra_loop (r_router_id r) (search_round u l))"
proof -
  let ?l = "upd_first (\<lambda>r. r_router_id r = u) (\<lambda>r. r\<lparr>r_shortest_path_found := True\<rparr>) l"
  have "get_router_by_rid u ?l \<noteq> None"
    using assms by (subst get_router_upd_first) (auto simp: get_router_None)
  then show ?thesis
    by (subst dijkstra_loop.simps) (auto simp: search_round_def Let_def split: option.split)
qed

definition search_done :: "(u32 \<times> u32) set \<Rightarrow> u32 \<Rightarrow> pwospf_router list \<Rightarrow> bool" where
  "search_done E our l \<longleftrightarrow> search_inv E DIST_MAX our (finished l) (dist_of l) (prev_of l)"

lemma dist_of_get: "get_router_by_rid v l = Some r \<Longrightarrow> dist_of l v = unat (r_distance r)"
  by (simp add: dist_of_def)

lemma dist_of_outside: "v \<notin> rids l \<Longrightarrow> dist_of l v = DIST_MAX"
  by (simp add: dist_of_def get_router_None [THEN iffD2])

lemma dijkstra_loop_total:
  assumes "routers_ok our l" "u \<in> rids l" "router_edges l = E"
    and "search_done E our (search_round u l)" "links (search_round u l) = links l"
  shows "\<exists>l'. dijkstra_loop u l = Some l' \<and> links l' = links l \<and> search_done E our l' \<and>
    (\<forall>v. v \<notin> finished l' \<longrightarrow> DIST_MAX \<le> dist_of l' v)"
  using assms
proof (induction "card (rids l - finished (search_round u l))" arbitrary: l u rule: less_induct)
  case less
  let ?l = "search_round u l"
  note fr = links_frame [OF less.prems(5)]
  have ok: "routers_ok our ?l" using less.prems(1) fr(3) by simp
  then have dist: "distinct (map r_router_id ?l)" by (simp add: routers_ok_def)
  show ?case
  proof (cases "get_shortest ?l")
    case None
    have "DIST_MAX \<le> dist_of ?l v" if "v \<notin> finished ?l" for v
    proof (cases "get_router_by_rid v ?l")
      case (Some r)
      with that dist have "r \<in> set ?l" "\<not> r_shortest_path_found r"
        by (auto simp: get_router_Some finished_iff)
      with get_shortest_None [OF None] Some show ?thesis by (simp add: dist_of_get)
    qed (simp add: dist_of_outside get_router_None)
    with None less.prems show ?thesis by (simp add: dijkstra_loop_round)
  next
    case (Some r)
    let ?u = "r_router_id r" and ?l' = "search_round (r_router_id r) ?l"
    note r = get_shortest_Some [OF Some]
    have get: "get_router_by_rid ?u ?l = Some r" using r dist by (simp add: get_router_Some)
    then have u: "?u \<in> rids ?l" "?u \<notin> finished ?l" "dist_of ?l ?u < DIST_MAX"
      using r dist get_router_None [of ?u ?l] by (auto simp: finished_iff dist_of_get)
    have closest: "dist_of ?l ?u \<le> dist_of ?l v" if "v \<notin> finished ?l" for v
    proof (cases "get_router_by_rid v ?l")
      case (Some x)
      with that dist have "x \<in> set ?l" "\<not> r_shortest_path_found x"
        by (auto simp: get_router_Some finished_iff)
      with r Some get show ?thesis by (simp add: dist_of_get)
    next
      case None
      with u(3) show ?thesis by (simp add: dist_of_outside get_router_None)
    qed
    note round = search_round_spec [OF ok u(1,3)]
    have E: "router_edges ?l = E" using fr(2) less.prems(3) by simp
    have "search_inv E DIST_MAX our (insert ?u (finished ?l)) (dist_of ?l') (prev_of ?l')"
      by (rule search_inv_step [OF less.prems(4) [unfolded search_done_def] u(2,3) closest])
        (simp_all add: round(3,4) E)
    then have inv: "search_done E our ?l'" by (simp add: search_done_def round(2))
    have "rids ?l - finished ?l' \<subset> rids l - finished ?l" using u(1,2) fr(1) round(2) by auto
    then have "card (rids ?l - finished ?l') < card (rids l - finished ?l)"
      by (intro psubset_card_mono) (simp_all add: rids_def)
    from less.hyps [OF this ok u(1) E inv round(1)] less.prems(2,5) Some show ?thesis
      by (simp add: dijkstra_loop_round)
  qed
qed

lemma dijkstra_init_spec:
  assumes "routers_ok our l"
  shows "links (dijkstra_init our l) = links l"
    and "finished (dijkstra_init our l) = {our}"
    and "dist_of (dijkstra_init our l) v = (if v = our then 0 else DIST_MAX)"
proof -
  let ?f = "\<lambda>r. if r_router_id r = our then r\<lparr>r_distance := 0, r_shortest_path_found := True\<rparr>
     else if r_router_id r \<noteq> 0 then r\<lparr>r_distance := 0xFFFFFFFF, r_shortest_path_found := False\<rparr> else r"
  have init: "dijkstra_init our l = map ?f l" by (simp add: dijkstra_init_def)
  have frame: "r_router_id (?f r) = r_router_id r" "r_interface_list (?f r) = r_interface_list r" for r
    by simp_all
  show "links (dijkstra_init our l) = links l" unfolding init links_def by simp
  from assms obtain r where r: "r \<in> set l" "r_router_id r = our" by (auto simp: routers_ok_def rids_def)
  have zero: "r_router_id x \<noteq> 0" if "x \<in> set l" for x using assms that by (auto simp: routers_ok_def rids_def)
  have "r_shortest_path_found (?f x) \<longleftrightarrow> r_router_id x = our" if "x \<in> set l" for x
    using zero [OF that] by simp
  then have "{x \<in> set l. r_shortest_path_found (?f x)} = {x \<in> set l. r_router_id x = our}" by blast
  moreover have "finished (map g l) = (\<lambda>x. r_router_id (g x)) ` {x \<in> set l. r_shortest_path_found (g x)}" for g
    unfolding finished_def by auto
  ultimately have "finished (dijkstra_init our l) = r_router_id ` {x \<in> set l. r_router_id x = our}"
    unfolding init by (simp only: frame)
  then have "x \<in> finished (dijkstra_init our l) \<longleftrightarrow> x = our" for x using r by auto
  then show "finished (dijkstra_init our l) = {our}" by blast
  have get: "get_router_by_rid v (dijkstra_init our l) = map_option ?f (get_router_by_rid v l)"
    unfolding init get_router_by_rid_def find_map comp_def frame ..
  show "dist_of (dijkstra_init our l) v = (if v = our then 0 else DIST_MAX)"
  proof (cases "get_router_by_rid v l")
    case None
    with assms have "v \<noteq> our" by (auto simp: get_router_None routers_ok_def)
    with None get show ?thesis by (simp add: dist_of_def)
  next
    case (Some x)
    then have "x \<in> set l" "r_router_id x = v" by (auto simp: get_router_by_rid_def dest: find_SomeD)
    with get Some zero show ?thesis by (auto simp: dist_of_def DIST_MAX_def)
  qed
qed

lemma dijkstra_search_total:
  assumes ok: "routers_ok our l"
  shows "\<exists>l'. dijkstra_search our l = Some l' \<and> links l' = links l \<and> search_done (router_edges l) our l' \<and>
    (\<forall>v. v \<notin> finished l' \<longrightarrow> DIST_MAX \<le> dist_of l' v)"
proof -
  let ?l = "dijkstra_init our l"
  note init = dijkstra_init_spec [OF ok]
  note fr = links_frame [OF init(1)]
  have ok': "routers_ok our ?l" using ok fr(3) by simp
  have our: "our \<in> rids ?l" "dist_of ?l our < DIST_MAX"
    using ok fr(1) init(3) by (simp_all add: routers_ok_def DIST_MAX_def)
  note round = search_round_spec [OF ok' our]
  have "search_inv (router_edges l) DIST_MAX our {our} (dist_of (search_round our ?l)) (prev_of (search_round our ?l))"
    by (rule search_inv_start) (simp_all add: round init(2,3) fr(2) DIST_MAX_def)
  then have "search_done (router_edges l) our (search_round our ?l)"
    by (simp add: search_done_def round(2) init(2))
  from dijkstra_loop_total [OF ok' our(1) fr(2) this round(1)] init(1) our(1) show ?thesis
    by (auto simp: dijkstra_search_def get_router_None Let_def split: option.split)
qed

lemma dijkstra_search_dist:
  assumes ok: "routers_ok our l" and l': "links l' = links l" "search_done (router_edges l) our l'"
    "\<forall>v. v \<notin> finished l' \<longrightarrow> DIST_MAX \<le> dist_of l' v" and r: "r \<in> set l'"
  shows "if \<exists>n. (our, r_router_id r) \<in> router_edges l ^^ n
    then hop_dist (router_edges l) our (r_router_id r) (unat (r_distance r)) \<and> r_distance r \<noteq> 0xFFFFFFFF
    else r_distance r = 0xFFFFFFFF"
proof -
  let ?v = "r_router_id r" and ?S = "finished l'"
  have ok': "routers_ok our l'" using ok links_frame(3) [OF l'(1)] by simp
  then have "get_router_by_rid ?v l' = Some r" using r by (simp add: get_router_Some routers_ok_def)
  then have d: "dist_of l' ?v = unat (r_distance r)" by (rule dist_of_get)
  have "card ?S \<le> length l'"
    unfolding finished_def by (rule card_image_le [THEN order_trans]) (auto intro: card_length order_trans [OF card_mono])
  with ok' have card: "card ?S < DIST_MAX" by (simp add: routers_ok_def)
  note inv = l'(2) [unfolded search_done_def]
  show ?thesis
  proof (cases "?v \<in> ?S")
    case True
    with inv have "hop_dist (router_edges l) our ?v (dist_of l' ?v)" "dist_of l' ?v < card ?S"
      unfolding search_inv_def by blast+
    with d card show ?thesis by (auto simp: hop_dist_def DIST_MAX_def)
  next
    case False
    then have "\<nexists>n. (our, ?v) \<in> router_edges l ^^ n"
      using search_inv_end [OF inv _ card] l'(3) by blast
    moreover have "unat (r_distance r) = DIST_MAX"
      using l'(3) False d unat_u32 [of "r_distance r"] by (fastforce simp: DIST_MAX_def)
    then have "r_distance r = 0xFFFFFFFF" by (simp add: DIST_MAX_def word_unat_eq_iff)
    ultimately show ?thesis by simp
  qed
qed

text \<open>
  C5. The search of \<^verbatim>\<open>compute_rtable\<close> ends, and then holds the hop distance over the active links
  from our router for every router that can be reached and the infinite distance for every
  other; it changes neither the identifiers nor the interfaces.
\<close>

theorem dijkstra_hop_distances:
  assumes "routers_ok our l"
  shows "\<exists>l'. dijkstra_search our l = Some l' \<and> links l' = links l \<and>
    (\<forall>r\<in>set l'. if \<exists>n. (our, r_router_id r) \<in> router_edges l ^^ n
       then hop_dist (router_edges l) our (r_router_id r) (unat (r_distance r)) \<and> r_distance r \<noteq> 0xFFFFFFFF
       else r_distance r = 0xFFFFFFFF)"
proof -
  from dijkstra_search_total [OF assms] obtain l' where l': "dijkstra_search our l = Some l'"
      "links l' = links l" "search_done (router_edges l) our l'"
      "\<forall>v. v \<notin> finished l' \<longrightarrow> DIST_MAX \<le> dist_of l' v" by blast
  with dijkstra_search_dist [OF assms l'(2-4)] show ?thesis by (intro exI [of _ l'] conjI ballI) auto
qed

text \<open>Three routers in a line, numbered from our router.\<close>

definition net3 :: "pwospf_router list" where
  "net3 = map (\<lambda>(rid, ns). \<lparr>r_router_id = rid, r_area_id = 0, r_seq = 0, r_last_update = 0,
     r_distance = 7, r_shortest_path_found = False,
     r_interface_list = map (\<lambda>n. \<lparr>pi_subnet = n, pi_mask = 0xFFFFFFFF, pi_router_id = n, pi_is_active = True\<rparr>) ns,
     r_prev_router = None\<rparr>) [(1, [2]), (2, [1, 3]), (3, [2])]"

lemma net3_ok: "routers_ok 1 net3"
  by (simp add: routers_ok_def net3_def rids_def DIST_MAX_def)

lemma net3_edges: "router_edges net3 = {(1, 2), (2, 1), (2, 3), (3, 2)}"
  by (auto simp: router_edges_def net3_def rids_def)

theorem dijkstra_hop_distances_witness:
  "\<exists>l'. dijkstra_search 1 net3 = Some l' \<and> links l' = links net3 \<and>
    (\<forall>r\<in>set l'. r_router_id r = 3 \<longrightarrow> r_distance r \<noteq> 0xFFFFFFFF \<and> unat (r_distance r) \<le> 2)"
proof -
  from dijkstra_hop_distances [OF net3_ok] obtain l' where l': "dijkstra_search 1 net3 = Some l'" "links l' = links net3"
    and d: "\<forall>r\<in>set l'. if \<exists>n. (1, r_router_id r) \<in> router_edges net3 ^^ n
       then hop_dist (router_edges net3) 1 (r_router_id r) (unat (r_distance r)) \<and> r_distance r \<noteq> 0xFFFFFFFF
       else r_distance r = 0xFFFFFFFF" by blast
  have path: "(1, 3) \<in> router_edges net3 ^^ 2" unfolding net3_edges numeral_2_eq_2 by auto
  have "r_distance r \<noteq> 0xFFFFFFFF \<and> unat (r_distance r) \<le> 2" if "r \<in> set l'" "r_router_id r = 3" for r
  proof -
    have "\<exists>n. (1, r_router_id r) \<in> router_edges net3 ^^ n" using path that(2) by metis
    with bspec [OF d that(1)] have "hop_dist (router_edges net3) 1 (r_router_id r) (unat (r_distance r))"
      "r_distance r \<noteq> 0xFFFFFFFF" by (metis (no_types, lifting))+
    then show ?thesis using path that(2) unfolding hop_dist_def by metis
  qed
  with l' show ?thesis by blast
qed

lemma next_walk_path:
  assumes ok: "routers_ok our l" and inv: "search_done E our l"
  shows "get_router_by_rid v l = Some r \<Longrightarrow> v \<noteq> our \<Longrightarrow> dist_of l v = Suc d \<Longrightarrow> v \<in> finished l \<or> dist_of l v < DIST_MAX \<Longrightarrow>
    r_prev_router r \<noteq> None \<and> (\<exists>u. next_walk l r = Some u \<and> (our, u) \<in> E \<and> (u, v) \<in> E ^^ d)"
proof (induction d arbitrary: v r)
  have dist: "distinct (map r_router_id l)" using ok by (simp add: routers_ok_def)
  have pred: "\<exists>p pr. r_prev_router r = Some p \<and> get_router_by_rid p l = Some pr \<and> p \<in> finished l \<and>
      dist_of l v = dist_of l p + 1 \<and> dist_of l p = unat (r_distance pr) \<and> (p, v) \<in> E"
    if v: "get_router_by_rid v l = Some r" "v \<noteq> our" "v \<in> finished l \<or> dist_of l v < DIST_MAX" for v r
  proof -
    from inv v(2,3) obtain p where p: "p \<in> finished l" "prev_of l v = Some p" "dist_of l v = dist_of l p + 1" "(p, v) \<in> E"
      unfolding search_done_def search_inv_def by blast
    moreover from p(1) dist obtain pr where "get_router_by_rid p l = Some pr" by (auto simp: finished_iff)
    moreover from p(2) v(1) have "r_prev_router r = Some p" by (simp add: prev_of_def)
    ultimately show ?thesis by (simp add: dist_of_get)
  qed
  have d0: "dist_of l our = 0" using inv unfolding search_done_def search_inv_def by blast
  have our: "p = our" if "p \<in> finished l" "dist_of l p = 0" for p
    using inv that unfolding search_done_def search_inv_def hop_dist_def by force
  {
    case 0
    from pred [OF 0(1,2,4)] 0(3) obtain p pr where p: "r_prev_router r = Some p"
        "get_router_by_rid p l = Some pr" "p \<in> finished l" "dist_of l p = 0" "r_distance pr = 0" "(p, v) \<in> E"
      by (auto simp: unat_eq_zero)
    with our have "(our, v) \<in> E" by blast
    moreover have "next_walk l r = Some (r_router_id r)" using p by (subst next_walk.simps) simp
    moreover have "r_router_id r = v" using 0(1) dist by (simp add: get_router_Some)
    ultimately show ?case using p(1) by simp
  next
    case (Suc d)
    from pred [OF Suc.prems(1,2,4)] obtain p pr where pp: "r_prev_router r = Some p"
        "get_router_by_rid p l = Some pr" "p \<in> finished l" "dist_of l v = dist_of l p + 1"
        "dist_of l p = unat (r_distance pr)" "(p, v) \<in> E" by blast
    moreover from pp(4) Suc.prems(3) have "dist_of l p = Suc d" by simp
    ultimately have p: "r_prev_router r = Some p" "get_router_by_rid p l = Some pr" "p \<in> finished l"
      "dist_of l p = Suc d" "dist_of l p = unat (r_distance pr)" "(p, v) \<in> E" by blast+
    have "p \<noteq> our" using p(4) d0 by auto
    from Suc.IH [OF p(2) this p(4) disjI1 [OF p(3)]]
    obtain u where u: "next_walk l pr = Some u" "(our, u) \<in> E" "(u, p) \<in> E ^^ d" by blast
    have "r_distance pr \<noteq> 0" using p(4,5) by auto
    then have "next_walk l r = Some u" using p u(1) by (subst next_walk.simps) simp
    with p(1,6) u show ?case by auto
  }
qed

text \<open>
  C21. The next router that a route to a reachable router's network goes through is a neighbour of
  ours on a shortest path to that router, and following the predecessors to it ends.
\<close>

theorem next_rid_on_shortest_path:
  assumes ok: "routers_ok our l" and search: "dijkstra_search our l = Some l'"
    and r: "r \<in> set l'" "r_router_id r \<noteq> our" "r_distance r \<noteq> 0xFFFFFFFF"
  shows "\<exists>u. next_rid l' r i = Some u \<and> (our, u) \<in> router_edges l \<and>
    (u, r_router_id r) \<in> router_edges l ^^ (unat (r_distance r) - 1)"
proof -
  from dijkstra_search_total [OF ok] search have l': "links l' = links l"
      "search_done (router_edges l) our l'" by auto
  have ok': "routers_ok our l'" using ok links_frame(3) [OF l'(1)] by simp
  then have get: "get_router_by_rid (r_router_id r) l' = Some r"
    using r(1) by (simp add: get_router_Some routers_ok_def)
  have "unat (r_distance r) \<noteq> DIST_MAX" using r(3) by (simp add: DIST_MAX_def word_unat_eq_iff)
  then have less: "dist_of l' (r_router_id r) < DIST_MAX"
    using dist_of_get [OF get] unat_u32 [of "r_distance r"] by (simp add: DIST_MAX_def)
  then obtain p where "dist_of l' (r_router_id r) = dist_of l' p + 1"
    using l'(2) r(2) unfolding search_done_def search_inv_def by blast
  then have "dist_of l' (r_router_id r) = Suc (unat (r_distance r) - 1)" using dist_of_get [OF get] by simp
  from next_walk_path [OF ok' l'(2) get r(2) this] less show ?thesis by (auto simp: next_rid_def)
qed

definition stub_net :: pwospf_interface where
  "stub_net = \<lparr>pi_subnet = 0x0A, pi_mask = 0xFF, pi_router_id = 0, pi_is_active = False\<rparr>"

theorem next_rid_on_shortest_path_witness:
  "\<exists>l' r. dijkstra_search 1 net3 = Some l' \<and> r \<in> set l' \<and> r_router_id r = 3 \<and>
    next_rid l' r stub_net = Some 2"
proof -
  from dijkstra_search_total [OF net3_ok] obtain l' where l': "dijkstra_search 1 net3 = Some l'"
      "links l' = links net3" "search_done (router_edges net3) 1 l'"
      "\<forall>v. v \<notin> finished l' \<longrightarrow> DIST_MAX \<le> dist_of l' v" by blast
  have "3 \<in> rids l'" using links_frame(1) [OF l'(2)] by (simp add: rids_def net3_def)
  then obtain r where r: "r \<in> set l'" "r_router_id r = 3" by (auto simp: rids_def)
  have path: "(1, 3) \<in> router_edges net3 ^^ 2" unfolding net3_edges numeral_2_eq_2 by auto
  then have reach: "\<exists>n. (1, r_router_id r) \<in> router_edges net3 ^^ n" using r(2) by metis
  have "r_distance r \<noteq> 0xFFFFFFFF"
    using dijkstra_search_dist [OF net3_ok l'(2-4) r(1)] reach by simp
  with next_rid_on_shortest_path [OF net3_ok l'(1) r(1), of stub_net] r(2) have
    "\<exists>u. next_rid l' r stub_net = Some u \<and> (1, u) \<in> router_edges net3" by auto
  then have "next_rid l' r stub_net = Some 2" by (auto simp: net3_edges)
  with l'(1) r show ?thesis by blast
qed

subsection \<open>A round of the thread\<close>

lemma route_list_dynamic:
  "route_list_loop ifs ws = Some l \<Longrightarrow> \<forall>e\<in>set l. \<not> re_is_static e \<and> re_is_active e \<and> re_iface e \<in> (\<lambda>i. take IF_LEN (if_name i)) ` set ifs"
proof (induction ws arbitrary: l)
  case (Cons w ws)
  have "i \<in> set ifs" if "(case get_iface_by_rid (rw_next_rid w) ifs of Some i \<Rightarrow> Some i
      | None \<Rightarrow> get_iface_by_subnet_mask (rw_ip w) (rw_mask w) ifs) = Some i" for i
    using that by (auto simp: get_iface_by_rid_def get_iface_by_subnet_mask_def
        dest: find_SomeD split: option.splits if_splits)
  with Cons show ?case by (auto simp: bind_eq_Some_conv split: option.splits)
qed simp

text \<open>
  A round of the thread replaces the dynamic routes: every static route stays, every route
  that was not static goes, and what comes is the routes computed from the router list, all
  active and on one of our interfaces; the table is sorted again. The round is skipped
  when the wait timed out and nothing was marked dirty.
\<close>

theorem dijkstra_step_routes:
  assumes step: "dijkstra_step timed_out rs = Some rs'"
  shows "if timed_out \<and> \<not> rs_dijkstra_dirty rs then rs' = rs
    else \<exists>routes l'. compute_rtable (rs_router_id rs) (rs_router_list rs) (rs_if_list rs) = Some (routes, l') \<and>
      mset (rs_rtable rs') = mset (filter re_is_static (rs_rtable rs)) + mset routes \<and>
      filter_mset re_is_static (mset (rs_rtable rs')) = filter_mset re_is_static (mset (rs_rtable rs)) \<and>
      (\<forall>e\<in>set routes. \<not> re_is_static e \<and> re_is_active e \<and>
         re_iface e \<in> (\<lambda>i. take IF_LEN (if_name i)) ` set (rs_if_list rs)) \<and>
      table_sorted (rs_rtable rs')"
proof (cases "timed_out \<and> \<not> rs_dijkstra_dirty rs")
  case True
  with step show ?thesis by (simp add: dijkstra_step_def)
next
  case False
  with step obtain routes l' where
      c: "compute_rtable (rs_router_id rs) (rs_router_list rs) (rs_if_list rs) = Some (routes, l')"
    and t: "trigger_rtable_modified (rs\<lparr>rs_dijkstra_dirty := False, rs_router_list := l',
        rs_rtable := filter re_is_static (rs_rtable rs) @ routes\<rparr>) = Some rs'"
    by (auto simp: dijkstra_step_def Let_def bind_eq_Some_conv split: prod.splits if_splits)
  have m: "mset (rs_rtable rs') = mset (filter re_is_static (rs_rtable rs)) + mset routes"
    using trigger_rtable_Some(2) [OF t] by simp
  have dyn: "\<forall>e\<in>set routes. \<not> re_is_static e \<and> re_is_active e \<and>
      re_iface e \<in> (\<lambda>i. take IF_LEN (if_name i)) ` set (rs_if_list rs)"
    using c by (auto simp: compute_rtable_def bind_eq_Some_conv split: prod.splits
        dest!: route_list_dynamic)
  then have "filter_mset re_is_static (mset routes) = {#}" by (induction routes) auto
  moreover have "filter_mset re_is_static (filter_mset re_is_static M) = filter_mset re_is_static M" for M
    by (induction M) auto
  ultimately have "filter_mset re_is_static (mset (rs_rtable rs')) = filter_mset re_is_static (mset (rs_rtable rs))"
    unfolding m by (simp only: filter_union_mset mset_filter add_0_right)
  with False c m dyn trigger_rtable_Some(3) [OF t] show ?thesis by auto
qed

text \<open>A round on a router with one static route, no hardware and no neighbours.\<close>

definition rs_dij :: router_state where
  "rs_dij = rs0\<lparr>rs_is_netfpga := False, rs_router_id := 1,
     rs_router_list := [\<lparr>r_router_id = 1, r_area_id = 0, r_seq = 0, r_last_update = 0, r_distance = 0,
       r_shortest_path_found = False, r_interface_list = [], r_prev_router = None\<rparr>],
     rs_rtable := [\<lparr>re_ip = 0, re_gw = 1, re_mask = 0, re_iface = ''eth0'', re_is_static = True, re_is_active = True\<rparr>,
       \<lparr>re_ip = 5, re_gw = 1, re_mask = 0xFFFFFFFF, re_iface = ''eth1'', re_is_static = False, re_is_active = True\<rparr>]\<rparr>"

theorem dijkstra_step_routes_witness:
  "\<exists>rs'. dijkstra_step False rs_dij = Some rs' \<and>
    filter_mset re_is_static (mset (rs_rtable rs')) = filter_mset re_is_static (mset (rs_rtable rs_dij))"
proof -
  have ok: "routers_ok (rs_router_id rs_dij) (rs_router_list rs_dij)"
    by (simp add: routers_ok_def rs_dij_def rids_def DIST_MAX_def)
  from dijkstra_search_total [OF ok] obtain l' where l':
    "dijkstra_search (rs_router_id rs_dij) (rs_router_list rs_dij) = Some l'"
    "links l' = links (rs_router_list rs_dij)" by blast
  then obtain r where r: "l' = [r]" "r_interface_list r = []" by (auto simp: links_def rs_dij_def)
  then have "compute_rtable (rs_router_id rs_dij) (rs_router_list rs_dij) (rs_if_list rs_dij) = Some ([], [r])"
    using l'(1) by (simp add: compute_rtable_def build_route_wrapper_list_def add_route_wrappers_def)
  then have "\<exists>rs'. dijkstra_step False rs_dij = Some rs'"
    using trigger_rtable_spec [of "rs_dij\<lparr>rs_dijkstra_dirty := False, rs_router_list := [r],
        rs_rtable := filter re_is_static (rs_rtable rs_dij)\<rparr>"]
    by (auto simp: dijkstra_step_def Let_def rs_dij_def)
  then obtain rs' where rs': "dijkstra_step False rs_dij = Some rs'" by blast
  from dijkstra_step_routes [OF rs'] rs' show ?thesis by auto
qed

end
