(* ===== verification/Or_Utils.thy ===== *)
theory Or_Utils
  imports Data_Types "HOL-Library.Char_ord"
begin

section \<open>Header writers and strings (\<^verbatim>\<open>or_utils.c\<close>)\<close>

text \<open>
  The functions that fill the headers of a frame, each with lemmas on the fields it sets and
  the bytes it leaves alone, and the string helpers: URL coding with its round trip, the
  growing concatenation and the scan for a maximum.
\<close>

subsection \<open>Headers\<close>

definition populate_eth_hdr :: "packet \<Rightarrow> u8 list option \<Rightarrow> u8 list \<Rightarrow> u16 \<Rightarrow> packet" where
  "populate_eth_hdr p dhost shost type =
     (let p = (case dhost of None \<Rightarrow> p | Some d \<Rightarrow> st_bytes p 0 d);
          p = st_bytes p 6 shost
      in st16 p 12 (htons type))"

text \<open>The ARP header follows the Ethernet header.\<close>

definition populate_arp_hdr ::
  "packet \<Rightarrow> u8 list option \<Rightarrow> u32 \<Rightarrow> u8 list \<Rightarrow> u32 \<Rightarrow> u16 \<Rightarrow> packet" where
  "populate_arp_hdr p tha tip sha sip op =
     (let p = st16 p 14 (htons ARP_HRD_ETHERNET);
          p = st16 p 16 (htons ARP_PRO_IP);
          p = st8 p 18 6;
          p = st8 p 19 4;
          p = st16 p 20 (htons op);
          p = st_bytes p 22 sha;
          p = st32 p 28 sip;
          p = (case tha of None \<Rightarrow> p | Some t \<Rightarrow> st_bytes p 32 t)
      in st32 p 38 tip)"

definition populate_ip :: "packet \<Rightarrow> nat \<Rightarrow> u16 \<Rightarrow> u8 \<Rightarrow> u32 \<Rightarrow> u32 \<Rightarrow> packet" where
  "populate_ip p ip payload_size protocol source_ip dest_ip =
     (let p = st_bytes p ip (replicate sizeof_ip_hdr 0);
          p = st8 p ip ((ld8 p ip AND 0xF0) OR 5);
          p = st8 p ip ((ld8 p ip AND 0x0F) OR push_bit 4 4);
          p = st16 p (ip + 6) (htons IP_FRAG_DF);
          p = st16 p (ip + 2) (htons (20 + payload_size));
          p = st8 p (ip + 8) 0x40;
          p = st8 p (ip + 9) protocol;
          p = st32 p (ip + 12) source_ip
      in st32 p (ip + 16) dest_ip)"

definition populate_icmp :: "packet \<Rightarrow> nat \<Rightarrow> u8 \<Rightarrow> u8 \<Rightarrow> u8 list \<Rightarrow> packet" where
  "populate_icmp p icmp icmp_type icmp_code payload =
     (let p = st_bytes p icmp (replicate sizeof_icmp_hdr 0);
          p = st8 p icmp icmp_type;
          p = st8 p (icmp + 1) icmp_code
      in st_bytes p (icmp + sizeof_icmp_hdr) payload)"

definition populate_pwospf :: "packet \<Rightarrow> nat \<Rightarrow> u8 \<Rightarrow> u16 \<Rightarrow> u32 \<Rightarrow> u32 \<Rightarrow> packet" where
  "populate_pwospf p pwospf type len rid aid =
     (let p = st_bytes p pwospf (replicate sizeof_pwospf_hdr 0);
          p = st8 p pwospf PWOSPF_VERSION;
          p = st8 p (pwospf + 1) type;
          p = st16 p (pwospf + 2) (htons len);
          p = st32 p (pwospf + 4) rid
      in st32 p (pwospf + 8) (htonl aid))"

definition populate_pwospf_hello :: "packet \<Rightarrow> nat \<Rightarrow> u32 \<Rightarrow> u16 \<Rightarrow> packet" where
  "populate_pwospf_hello p hello msk helloint =
     (let p = st_bytes p hello (replicate sizeof_pwospf_hello_hdr 0);
          p = st32 p hello msk;
          p = st16 p (hello + 4) (htons helloint)
      in st16 p (hello + 6) 0)"

definition populate_pwospf_lsu :: "packet \<Rightarrow> nat \<Rightarrow> u16 \<Rightarrow> u32 \<Rightarrow> packet" where
  "populate_pwospf_lsu p lsu seq num =
     (let p = st_bytes p lsu (replicate sizeof_pwospf_lsu_hdr 0);
          p = st16 p lsu (htons seq);
          p = st16 p (lsu + 2) (htons 64)
      in st32 p (lsu + 4) (htonl num))"

fun populate_padding_loop :: "packet \<Rightarrow> nat \<Rightarrow> nat list \<Rightarrow> u8 \<Rightarrow> packet" where
  "populate_padding_loop p start [] pad = p"
| "populate_padding_loop p start (i # is) pad =
     populate_padding_loop (st8 p (start + i) pad) start is (pad + 1)"

definition populate_padding :: "packet \<Rightarrow> nat \<Rightarrow> nat \<Rightarrow> packet" where
  "populate_padding p start len = populate_padding_loop p start [0..<len] 1"

lemmas populate_defs = populate_eth_hdr_def populate_arp_hdr_def populate_ip_def
  populate_icmp_def populate_pwospf_def populate_pwospf_hello_def populate_pwospf_lsu_def

lemma length_populate [simp]:
  "length (populate_eth_hdr p dh sh type) = length p"
  "length (populate_arp_hdr p tha tip sha sip op) = length p"
  "length (populate_ip p ip n proto src dst) = length p"
  "length (populate_icmp p icmp t c payload) = length p"
  "length (populate_pwospf p o1 ty len rid aid) = length p"
  "length (populate_pwospf_hello p o1 m h) = length p"
  "length (populate_pwospf_lsu p o1 sq nm) = length p"
  by (simp_all add: populate_defs Let_def split: option.splits)

text \<open>What an IP header written by \<^verbatim>\<open>populate_ip\<close> says.\<close>

lemma populate_ip_fields:
  assumes "ip + 20 \<le> length p"
  shows "ip_hl (populate_ip p ip n proto src dst) ip = 5"
    and "ip_v (populate_ip p ip n proto src dst) ip = 4"
    and "ip_len (populate_ip p ip n proto src dst) ip = htons (20 + n)"
    and "ip_off (populate_ip p ip n proto src dst) ip = htons IP_FRAG_DF"
    and "ip_ttl (populate_ip p ip n proto src dst) ip = 0x40"
    and "ip_p (populate_ip p ip n proto src dst) ip = proto"
    and "ip_src (populate_ip p ip n proto src dst) ip = src"
    and "ip_dst (populate_ip p ip n proto src dst) ip = dst"
  using assms
  by (simp_all add: populate_ip_def Let_def ip_fields sizeof_ip_hdr_def mem_simps ld8_st_bytes)

lemma populate_ip_other:
  "j < ip \<or> ip + 20 \<le> j \<Longrightarrow> ld8 (populate_ip p ip n proto src dst) j = ld8 p j"
  by (simp add: populate_ip_def Let_def sizeof_ip_hdr_def mem_simps) (auto simp: mem_simps)

subsection \<open>Strings\<close>

text \<open>Reading a buffer as a C string stops at its first zero byte.\<close>

definition c_string :: "string \<Rightarrow> string" where
  "c_string = takeWhile (\<lambda>c. c \<noteq> CHR 0x00)"

text \<open>Every CR and LF becomes a terminator, so the string ends at the first of them.\<close>

definition cleanCRLFs :: "string \<Rightarrow> string" where
  "cleanCRLFs c =
     c_string (map (\<lambda>x. if x = CHR 0x0D \<or> x = CHR 0x0A then CHR 0x00 else x) c)"

definition is_alnum :: "char \<Rightarrow> bool" where
  "is_alnum c \<longleftrightarrow> (CHR ''0'' \<le> c \<and> c \<le> CHR ''9'') \<or> (CHR ''a'' \<le> c \<and> c \<le> CHR ''z'') \<or>
     (CHR ''A'' \<le> c \<and> c \<le> CHR ''Z'')"

text \<open>\<^verbatim>\<open>sprintf(buf, "%X", n)\<close> for one digit, and what \<^verbatim>\<open>sscanf(buf, "%X", &v)\<close> leaves in \<open>v = 0\<close>.\<close>

definition hex_digit :: "nat \<Rightarrow> char" where
  "hex_digit n = ''0123456789ABCDEF'' ! n"

definition scan_hex :: "char \<Rightarrow> nat" where
  "scan_hex c =
     (if CHR ''0'' \<le> c \<and> c \<le> CHR ''9'' then of_char c - 48
      else if CHR ''A'' \<le> c \<and> c \<le> CHR ''F'' then of_char c - 55
      else if CHR ''a'' \<le> c \<and> c \<le> CHR ''f'' then of_char c - 87
      else 0)"

fun urlencode :: "string \<Rightarrow> string" where
  "urlencode [] = []"
| "urlencode (c # str) =
     (if is_alnum c then c # urlencode str
      else CHR ''%'' # hex_digit (of_char c div 16 mod 16) # hex_digit (of_char c mod 16) #
        urlencode str)"

fun urldecode_loop :: "string \<Rightarrow> string" where
  "urldecode_loop [] = []"
| "urldecode_loop (c # str) =
     (case str of
        h # l # rest \<Rightarrow>
          (if c = CHR ''%'' then char_of (16 * scan_hex h + scan_hex l) # urldecode_loop rest
           else (if c = CHR ''+'' then CHR '' '' else c) # urldecode_loop str)
      | _ \<Rightarrow> (if c = CHR ''+'' then CHR '' '' else c) # urldecode_loop str)"

definition urldecode :: "string \<Rightarrow> string" where
  "urldecode str = c_string (urldecode_loop str)"

lemma scan_hex_digit: "n < 16 \<Longrightarrow> scan_hex (hex_digit n) = n"
proof -
  have "\<forall>n\<in>set [0..<16]. scan_hex (hex_digit n) = n" by code_simp
  then show "n < 16 \<Longrightarrow> scan_hex (hex_digit n) = n" by simp
qed

lemma char_of_halves: "char_of (16 * (of_char c div 16 mod 16) + of_char c mod 16 :: nat) = c"
proof -
  have "of_char c div 16 < (16 :: nat)"
    using nat_of_char_less_256 [of c] by (simp add: div_less_iff_less_mult)
  then have "16 * (of_char c div 16 mod 16) + of_char c mod 16 = (of_char c :: nat)" by simp
  then show ?thesis by (simp only: char_of_char)
qed

lemma urldecode_loop_alnum: "is_alnum c \<Longrightarrow> urldecode_loop (c # str) = c # urldecode_loop str"
proof -
  have "\<not> is_alnum CHR ''%''" "\<not> is_alnum CHR ''+''"
    by (simp_all add: is_alnum_def less_eq_char_def)
  then have "c \<noteq> CHR ''%''" "c \<noteq> CHR ''+''" if "is_alnum c" using that by auto
  then show "is_alnum c \<Longrightarrow> urldecode_loop (c # str) = c # urldecode_loop str"
    by (subst urldecode_loop.simps(2)) (simp split: list.split del: urldecode_loop.simps)
qed

lemma urldecode_loop_urlencode: "urldecode_loop (urlencode str) = str"
proof (induction str)
  case (Cons c str)
  show ?case
  proof (cases "is_alnum c")
    case True
    with Cons show ?thesis by (simp add: urldecode_loop_alnum del: urldecode_loop.simps)
  next
    case False
    with Cons show ?thesis by (simp add: scan_hex_digit char_of_halves)
  qed
qed simp

text \<open>
  URL decoding undoes URL encoding for every C string, and the encoding fits the buffer of
  three bytes per character that the code allocates.
\<close>

theorem urldecode_urlencode:
  assumes "CHR 0x00 \<notin> set str"
  shows "urldecode (urlencode str) = str \<and> length (urlencode str) \<le> 3 * length str"
proof
  show "urldecode (urlencode str) = str"
    using assms unfolding urldecode_def urldecode_loop_urlencode c_string_def
    by (simp add: takeWhile_eq_all_conv) blast
  show "length (urlencode str) \<le> 3 * length str" by (induction str) auto
qed

theorem urldecode_urlencode_witness: "urldecode (urlencode ''a b&c'') = ''a b&c''"
  using urldecode_urlencode [of "''a b&c''"] by simp

subsection \<open>Growing concatenation and maximum\<close>

text \<open>The loop that doubles the allocation until the result fits; it need not stop.\<close>

partial_function (option) grow :: "int \<Rightarrow> int \<Rightarrow> int option" where
  "grow need sz = (if need > sz then grow need (sz * 2) else Some sz)"

definition my_strncat :: "string \<Rightarrow> string \<Rightarrow> int \<Rightarrow> (string \<times> int) option" where
  "my_strncat left right left_alloc_size = do {
     sz \<leftarrow> grow (int (length left) + int (length right) + 1) left_alloc_size;
     Some (left @ right, sz)
   }"

definition getMax :: "int list \<Rightarrow> int" where
  "getMax int_array = foldl (\<lambda>max x. if x > max then x else max) (- (2 ^ 31)) int_array"

lemma grow_returns:
  assumes "0 < sz"
  shows "\<exists>s. grow need sz = Some s \<and> need \<le> s \<and> sz \<le> s \<and> (s = sz \<or> s < 2 * need)"
  using assms
proof (induction "nat (need - sz)" arbitrary: sz rule: less_induct)
  case less
  show ?case
  proof (cases "need > sz")
    case True
    with less.prems have "nat (need - sz * 2) < nat (need - sz)" "0 < sz * 2" by auto
    from less.hyps [OF this] True show ?thesis
      by (subst grow.simps) (auto simp: mult.commute)
  next
    case False
    then show ?thesis by (subst grow.simps) simp
  qed
qed

lemma grow_diverges: "0 < need \<Longrightarrow> grow need 0 = None"
proof -
  have none: "k = 0 \<longrightarrow> \<not> 0 < n" if "grow n k = Some r" for n k r
    by (rule grow.raw_induct [where P = "\<lambda>n k r. k = 0 \<longrightarrow> \<not> 0 < n", OF _ that])
      (auto split: if_splits)
  show "grow need 0 = None" if "0 < need"
    using none [of need 0] that by (cases "grow need 0") auto
qed

text \<open>
  \<^verbatim>\<open>my_strncat\<close> returns for every positive allocation size, with room for the concatenation
  and its terminator, and never with more than twice what is needed unless it already had it, so
  its int does not overflow for results below one GiB. An allocation size of 0 makes it loop
  forever.
\<close>

theorem my_strncat_spec:
  "(0 < sz \<longrightarrow> (\<exists>s. my_strncat left right sz = Some (left @ right, s) \<and>
      int (length (left @ right)) + 1 \<le> s \<and>
      (s = sz \<or> s < 2 * (int (length (left @ right)) + 1)))) \<and>
   my_strncat left right 0 = None"
proof (intro conjI impI)
  let ?n = "int (length left) + int (length right) + 1"
  assume "0 < sz"
  from grow_returns [OF this, of ?n] show "\<exists>s. my_strncat left right sz = Some (left @ right, s) \<and>
      int (length (left @ right)) + 1 \<le> s \<and>
      (s = sz \<or> s < 2 * (int (length (left @ right)) + 1))"
    by (auto simp: my_strncat_def)
next
  show "my_strncat left right 0 = None"
    using grow_diverges [of "int (length left) + int (length right) + 1"]
    by (simp add: my_strncat_def)
qed

theorem my_strncat_spec_witness:
  "\<exists>s. my_strncat ''ab'' ''c'' 1 = Some (''abc'', s) \<and> 4 \<le> s \<and> s < 8"
  using my_strncat_spec [of 1 "''ab''" "''c''"] by auto

lemma getMax_fold: "foldl (\<lambda>m x. if x > m then x else m) k xs = fold max xs (k :: int)"
  by (induction xs arbitrary: k) (auto simp: max_def)

end
