(* ===== verification/Keyed_Table.thy ===== *)
theory Keyed_Table
  imports Prelude
begin

section \<open>Tables searched by a key\<close>

text \<open>
  The contract that the router's list tables offer to their users: a table is a finite map,
  whatever list represents it. The locale states the laws of one insertion and one deletion;
  what it proves about sequences of them holds for every table of the router that meets them.
\<close>

datatype ('k, 'v) table_op = Put (op_key: 'k) (op_val: 'v) | Del (op_key: 'k)

fun map_op :: "('w \<Rightarrow> 'v) \<Rightarrow> ('k, 'w) table_op \<Rightarrow> ('k \<rightharpoonup> 'v) \<Rightarrow> ('k \<rightharpoonup> 'v)" where
  "map_op val (Put k w) m = m(k \<mapsto> val w)"
| "map_op val (Del k) m = m(k := None)"

text \<open>Running one operation with the table's own insertion and deletion.\<close>

fun run_op :: "('k \<Rightarrow> 'w \<Rightarrow> 't \<Rightarrow> 't) \<Rightarrow> ('k \<Rightarrow> 't \<Rightarrow> 't) \<Rightarrow> ('k, 'w) table_op \<Rightarrow> 't \<Rightarrow> 't" where
  "run_op put del (Put k w) = put k w"
| "run_op put del (Del k) = del k"

text \<open>\<open>val\<close> is the part of the inserted data that a lookup sees.\<close>

locale keyed_table =
  fixes invar :: "'t \<Rightarrow> bool"
    and lookup :: "'t \<Rightarrow> 'k \<Rightarrow> 'v option"
    and put :: "'k \<Rightarrow> 'w \<Rightarrow> 't \<Rightarrow> 't"
    and del :: "'k \<Rightarrow> 't \<Rightarrow> 't"
    and val :: "'w \<Rightarrow> 'v"
  assumes put_lookup: "invar t \<Longrightarrow> lookup (put k w t) = (lookup t)(k \<mapsto> val w)"
    and put_invar: "invar t \<Longrightarrow> invar (put k w t)"
    and del_lookup: "invar t \<Longrightarrow> lookup (del k t) = (lookup t)(k := None)"
    and del_invar: "invar t \<Longrightarrow> invar (del k t)"
begin

lemma run_refines:
  assumes "invar t"
  shows "invar (fold (run_op put del) ops t) \<and>
    lookup (fold (run_op put del) ops t) = fold (map_op val) ops (lookup t)"
  using assms
proof (induction ops arbitrary: t)
  case (Cons op ops)
  show ?case
  proof (cases op)
    case (Put k w)
    with Cons.IH [OF put_invar [OF Cons.prems, of k w], unfolded put_lookup [OF Cons.prems]]
    show ?thesis by (simp add: fun_upd_def)
  next
    case (Del k)
    with Cons.IH [OF del_invar [OF Cons.prems, of k], unfolded del_lookup [OF Cons.prems]]
    show ?thesis by (simp add: fun_upd_def)
  qed
qed simp

end

text \<open>Lists with distinct keys, searched by \<^const>\<open>find\<close>.\<close>

lemma find_key_append_new:
  "find (\<lambda>e. k = key e) (xs @ [x]) =
     (case find (\<lambda>e. k = key e) xs of None \<Rightarrow> (if k = key x then Some x else None) | Some y \<Rightarrow> Some y)"
  by (simp add: find_append split: option.splits)

lemma find_key_upd_first:
  assumes "\<And>x. key (f x) = key x"
  shows "find (\<lambda>e. k = key e) (upd_first (\<lambda>e. k' = key e) f xs) =
    (if k = k' then map_option f (find (\<lambda>e. k = key e) xs) else find (\<lambda>e. k = key e) xs)"
  using assms by (induction xs) auto

lemma find_key_filter:
  "distinct (map key xs) \<Longrightarrow> find (\<lambda>e. k = key e) (filter P xs) =
     (case find (\<lambda>e. k = key e) xs of None \<Rightarrow> None | Some x \<Rightarrow> if P x then Some x else None)"
proof (induction xs)
  case (Cons x xs)
  show ?case
  proof (cases "k = key x")
    case True
    with Cons.prems have "find (\<lambda>e. k = key e) (filter P xs) = None"
      by (auto simp: find_None_iff)
    with True show ?thesis by simp
  next
    case False
    with Cons show ?thesis by simp
  qed
qed simp

lemma distinct_key_upd_first:
  "(\<And>x. key (f x) = key x) \<Longrightarrow> distinct (map key (upd_first P f xs)) = distinct (map key xs)"
  by (simp add: map_upd_first)

lemma find_key_None: "find (\<lambda>e. k = key e) xs = None \<longleftrightarrow> k \<notin> key ` set xs"
  by (auto simp: find_None_iff)

lemma find_key_set:
  assumes "distinct (map key xs)"
  shows "find (\<lambda>e. k = key e) xs = Some x \<longleftrightarrow> x \<in> set xs \<and> key x = k"
  using find_distinct_key [OF assms, of x] find_SomeD [of "\<lambda>e. k = key e" xs x]
  by (auto simp: eq_commute)

lemma find_key_mset:
  assumes "distinct (map key xs)" and "mset xs = mset ys"
  shows "find (\<lambda>e. k = key e) xs = find (\<lambda>e. k = key e) ys"
proof -
  have d: "distinct (map key ys)"
    using assms by (metis mset_eq_imp_distinct_iff mset_map)
  show ?thesis
  proof (cases "find (\<lambda>e. k = key e) xs")
    case None
    with mset_eq_setD [OF assms(2)] show ?thesis by (metis find_key_None)
  next
    case (Some x)
    then show ?thesis
      using find_key_set [OF assms(1)] find_key_set [OF d] mset_eq_setD [OF assms(2)] by metis
  qed
qed

lemma mset_filter_partition: "mset (filter P xs @ filter (\<lambda>x. \<not> P x) xs) = mset xs"
  by (induction xs) auto

end
