(* ===== verification/Or_Arp.thy ===== *)
theory Or_Arp
  imports Or_Iface Or_Utils Keyed_Table
begin

section \<open>ARP: cache, queue and packets (\<^verbatim>\<open>or_arp.c\<close>, \<^verbatim>\<open>or_main.c\<close>)\<close>

text \<open>
  The ARP cache and its copy in the hardware, the sending of frames, the queue of packets
  that wait for an ARP reply, and the handling of ARP requests and replies. The lemmas show
  that the cache is a map from next hops to addresses, that the hardware table holds that
  map, that the queue keeps one entry per next hop, and what becomes of a packet that is sent.
\<close>

subsection \<open>The cache\<close>

definition in_arp_cache :: "router_state \<Rightarrow> u32 \<Rightarrow> arp_cache_entry option" where
  "in_arp_cache rs next_hop = find (\<lambda>arp_entry. next_hop = ace_ip arp_entry) (rs_arp_cache rs)"

definition get_from_arp_cache :: "router_state \<Rightarrow> u32 \<Rightarrow> arp_cache_entry option" where
  "get_from_arp_cache rs next_hop = in_arp_cache rs next_hop"

definition write_arp_cache_entry_to_hw ::
  "router_state \<Rightarrow> arp_cache_entry option \<Rightarrow> nat \<Rightarrow> router_state" where
  "write_arp_cache_entry_to_hw rs entry row =
     (let rs = (case entry of
          Some e \<Rightarrow>
            writeReg INDIRECTWRDATA_B_LOW (ntohl (ace_ip e))
              (writeReg INDIRECTWRDATA_A_LOW (mac_lo (ace_ha e))
                (writeReg INDIRECTWRDATA_A_HI (mac_hi (ace_ha e)) rs))
        | None \<Rightarrow>
            writeReg INDIRECTWRDATA_B_LOW 0
              (writeReg INDIRECTWRDATA_A_LOW 0 (writeReg INDIRECTWRDATA_A_HI 0 rs)));
          rs = writeReg INDIRECTADDRESS (arp_cam_address (rs_hw rs) OR of_nat row) rs
      in writeReg INDIRECTCOMMAND 1 rs)"

text \<open>The first loop writes the static entries and returns the next free row.\<close>

fun write_arp_static ::
  "nat \<Rightarrow> arp_cache_entry list \<Rightarrow> nat \<Rightarrow> router_state \<Rightarrow> nat \<times> router_state" where
  "write_arp_static width [] i rs = (i, rs)"
| "write_arp_static width (entry # cur) i rs =
     (if i < width then
        (if ace_is_static entry \<noteq> 0
         then write_arp_static width cur (i + 1) (write_arp_cache_entry_to_hw rs (Some entry) i)
         else write_arp_static width cur i rs)
      else (i, rs))"

text \<open>The second loop writes the other entries and zeroes the rows that remain.\<close>

function write_arp_rest :: "nat \<Rightarrow> arp_cache_entry list \<Rightarrow> nat \<Rightarrow> router_state \<Rightarrow> router_state" where
  "write_arp_rest width cur i rs =
     (if i < width then
        (case cur of
           entry # cur' \<Rightarrow>
             (if ace_is_static entry = 0
              then write_arp_rest width cur' (i + 1) (write_arp_cache_entry_to_hw rs (Some entry) i)
              else write_arp_rest width cur' i rs)
         | [] \<Rightarrow> write_arp_rest width [] (i + 1) (write_arp_cache_entry_to_hw rs None i))
      else rs)"
  by pat_completeness auto

termination
  by (relation "measure (\<lambda>(width, cur, i, rs). (width - i) + length cur)") auto

declare write_arp_rest.simps [simp del]

definition write_arp_cache_to_hw :: "router_state \<Rightarrow> router_state" where
  "write_arp_cache_to_hw rs =
     (let width = arp_cam_width (rs_hw rs);
          (i, rs') = write_arp_static width (rs_arp_cache rs) 0 rs
      in write_arp_rest width (rs_arp_cache rs) i rs')"

definition trigger_arp_cache_modified :: "router_state \<Rightarrow> router_state" where
  "trigger_arp_cache_modified rs = (if rs_is_netfpga rs then write_arp_cache_to_hw rs else rs)"

text \<open>\<open>now\<close> is what time() returns.\<close>

definition update_arp_cache ::
  "int \<Rightarrow> router_state \<Rightarrow> u32 \<Rightarrow> u8 list \<Rightarrow> int \<Rightarrow> int \<times> router_state" where
  "update_arp_cache now rs remote_ip remote_mac is_static =
     (let set_data = (\<lambda>e. e\<lparr>ace_ha := remote_mac,
                            ace_TTL := (if is_static = 1 then 0 else now),
                            ace_is_static := is_static\<rparr>);
          rs = (case in_arp_cache rs remote_ip of
             Some _ \<Rightarrow> rs\<lparr>rs_arp_cache :=
               upd_first (\<lambda>e. remote_ip = ace_ip e) set_data (rs_arp_cache rs)\<rparr>
           | None \<Rightarrow> rs\<lparr>rs_arp_cache := rs_arp_cache rs @
               [set_data \<lparr>ace_ip = remote_ip, ace_ha = [], ace_TTL = 0, ace_is_static = 0\<rparr>]\<rparr>)
      in (0, trigger_arp_cache_modified rs))"

fun del_arp_cache_loop ::
  "u32 \<Rightarrow> arp_cache_entry list \<Rightarrow> int \<Rightarrow> arp_cache_entry list \<times> int" where
  "del_arp_cache_loop ip [] retval = ([], retval)"
| "del_arp_cache_loop ip (entry # cur) retval =
     (if ace_ip entry = ip then del_arp_cache_loop ip cur (retval + 1)
      else (let (l, n) = del_arp_cache_loop ip cur retval in (entry # l, n)))"

definition del_arp_cache :: "router_state \<Rightarrow> u32 \<Rightarrow> int \<times> router_state" where
  "del_arp_cache rs ip =
     (let (l, retval) = del_arp_cache_loop ip (rs_arp_cache rs) 0
      in (retval, rs\<lparr>rs_arp_cache := l\<rparr>))"

fun expire_arp_loop ::
  "int \<Rightarrow> u32 \<Rightarrow> arp_cache_entry list \<Rightarrow> bool \<Rightarrow> arp_cache_entry list \<times> bool" where
  "expire_arp_loop now ttl [] timedout_entry = ([], timedout_entry)"
| "expire_arp_loop now ttl (arp_entry # arp_walker) timedout_entry =
     (if ace_is_static arp_entry \<noteq> 1 \<and> now - ace_TTL arp_entry > uint ttl
      then expire_arp_loop now ttl arp_walker True
      else (let (l, t) = expire_arp_loop now ttl arp_walker timedout_entry in (arp_entry # l, t)))"

definition expire_arp_cache :: "int \<Rightarrow> router_state \<Rightarrow> router_state" where
  "expire_arp_cache now rs =
     (let (l, timedout_entry) = expire_arp_loop now (rs_arp_ttl rs) (rs_arp_cache rs) False;
          rs = rs\<lparr>rs_arp_cache := l\<rparr>
      in if timedout_entry then trigger_arp_cache_modified rs else rs)"

subsection \<open>The cache as a map and its copy in the hardware\<close>

text \<open>A row of the ARP table of the hardware: the words of the MAC address and the next hop.\<close>

type_synonym arp_row = "u32 \<times> u32 \<times> u32"

definition arp_row_of :: "(reg \<Rightarrow> u32) \<Rightarrow> arp_row" where
  "arp_row_of R = (R INDIRECTWRDATA_A_HI, R INDIRECTWRDATA_A_LOW, R INDIRECTWRDATA_B_LOW)"

definition arp_row :: "arp_cache_entry \<Rightarrow> arp_row" where
  "arp_row e = (mac_hi (ace_ha e), mac_lo (ace_ha e), ntohl (ace_ip e))"

definition write_arp_row :: "arp_row \<Rightarrow> nat \<Rightarrow> router_state \<Rightarrow> router_state" where
  "write_arp_row r row rs =
     (let rs = writeReg INDIRECTWRDATA_B_LOW (snd (snd r))
            (writeReg INDIRECTWRDATA_A_LOW (fst (snd r)) (writeReg INDIRECTWRDATA_A_HI (fst r) rs));
          rs = writeReg INDIRECTADDRESS (arp_cam_address (rs_hw rs) OR of_nat row) rs
      in writeReg INDIRECTCOMMAND 1 rs)"

lemma write_arp_entry_row:
  "write_arp_cache_entry_to_hw rs (Some e) row = write_arp_row (arp_row e) row rs"
  "write_arp_cache_entry_to_hw rs None row = write_arp_row (0, 0, 0) row rs"
  by (simp_all add: write_arp_cache_entry_to_hw_def write_arp_row_def arp_row_def Let_def)

interpretation arp_cam: hw_table write_arp_row arp_cam_address arp_row_of
proof
  fix r i rs a S
  show "a \<noteq> arp_cam_address (rs_hw rs) OR of_nat i \<Longrightarrow>
      snd (hw_replay (rs_regs (write_arp_row r i rs)) S) a = snd (hw_replay (rs_regs rs) S) a"
    "arp_row_of (snd (hw_replay (rs_regs (write_arp_row r i rs)) S)
       (arp_cam_address (rs_hw rs) OR of_nat i)) = r"
    by (cases "hw_replay (rs_regs rs) S";
        simp add: write_arp_row_def Let_def hw_replay_append arp_row_of_def)+
  show "rs_hw (write_arp_row r i rs) = rs_hw rs" by (simp add: write_arp_row_def Let_def)
qed

text \<open>The first \<open>n\<close> rows for a list of entries, zero rows after its end.\<close>

definition arp_rows :: "nat \<Rightarrow> arp_cache_entry list \<Rightarrow> arp_row list" where
  "arp_rows n l = take n (map arp_row l) @ replicate (n - length l) (0, 0, 0)"

lemma length_arp_rows [simp]: "length (arp_rows n l) = n"
  by (simp add: arp_rows_def)

lemma arp_rows_simps [simp]:
  "arp_rows 0 l = []" "arp_rows (Suc n) [] = (0, 0, 0) # arp_rows n []"
  "arp_rows (Suc n) (e # l) = arp_row e # arp_rows n l"
  by (simp_all add: arp_rows_def)

lemma write_arp_rest_fold:
  "write_arp_rest width cur i rs =
     fold (case_prod write_arp_row)
       (zip (arp_rows (width - i) (filter (\<lambda>e. ace_is_static e = 0) cur)) [i..<width]) rs"
proof (induction width cur i rs rule: write_arp_rest.induct)
  case (1 width cur i rs)
  show ?case
  proof (cases "i < width")
    case True
    then have w: "width - i = Suc (width - Suc i)" and u: "[i..<width] = i # [Suc i..<width]"
      by (simp_all add: upt_conv_Cons)
    show ?thesis
    proof (cases cur)
      case Nil
      with 1(1) [OF True Nil] True show ?thesis
        by (subst write_arp_rest.simps) (simp add: w u write_arp_entry_row)
    next
      case (Cons e cur')
      with 1(2,3) [OF True Cons] True show ?thesis
        by (subst write_arp_rest.simps) (auto simp: w u write_arp_entry_row)
    qed
  qed (subst write_arp_rest.simps, simp)
qed

lemma write_arp_static_fold:
  assumes "i \<le> width"
  shows "write_arp_static width cur i rs =
    (let l = take (width - i) (filter (\<lambda>e. ace_is_static e \<noteq> 0) cur)
     in (i + length l, fold (case_prod write_arp_row) (zip (map arp_row l) [i..<i + length l]) rs))"
  using assms
proof (induction width cur i rs rule: write_arp_static.induct)
  case (2 width e cur i rs)
  show ?case
  proof (cases "i < width \<and> ace_is_static e \<noteq> 0")
    case True
    let ?l = "take (width - Suc i) (filter (\<lambda>e. ace_is_static e \<noteq> 0) cur)"
    from True have "i < width" by blast
    then have w: "width - i = Suc (width - Suc i)" by simp
    have u: "[i..<Suc (i + m)] = i # [Suc i..<Suc (i + m)]" for m
      by (simp add: upt_conv_Cons del: upt_Suc)
    from True 2 show ?thesis
      by (simp add: w u Let_def write_arp_entry_row del: upt_Suc)
  next
    case False
    with 2 show ?thesis by auto
  qed
qed simp

text \<open>Static entries come first; each row of the table is written once.\<close>

definition hw_order :: "arp_cache_entry list \<Rightarrow> arp_cache_entry list" where
  "hw_order l = filter (\<lambda>e. ace_is_static e \<noteq> 0) l @ filter (\<lambda>e. ace_is_static e = 0) l"

lemma write_arp_cache_fold:
  "write_arp_cache_to_hw rs =
     fold (case_prod write_arp_row)
       (zip (arp_rows (arp_cam_width (rs_hw rs)) (hw_order (rs_arp_cache rs)))
         [0..<arp_cam_width (rs_hw rs)]) rs"
proof -
  let ?w = "arp_cam_width (rs_hw rs)"
  let ?s = "filter (\<lambda>e. ace_is_static e \<noteq> 0) (rs_arp_cache rs)"
  let ?d = "filter (\<lambda>e. ace_is_static e = 0) (rs_arp_cache rs)"
  let ?k = "length (take ?w ?s)"
  have k: "?k \<le> ?w" by simp
  then have "[0..<?w] = [0..<?k] @ [?k..<?w]"
    by (metis le_add_diff_inverse upt_add_eq_append zero_le)
  moreover have "arp_rows ?w (hw_order (rs_arp_cache rs)) =
      map arp_row (take ?w ?s) @ arp_rows (?w - ?k) ?d"
    by (cases "length ?s \<le> ?w") (simp_all add: arp_rows_def hw_order_def take_map)
  ultimately have "zip (arp_rows ?w (hw_order (rs_arp_cache rs))) [0..<?w] =
      zip (map arp_row (take ?w ?s)) [0..<?k] @ zip (arp_rows (?w - ?k) ?d) [?k..<?w]"
    by (simp add: zip_append del: upt_Suc)
  moreover have "write_arp_static ?w (rs_arp_cache rs) 0 rs =
      (?k, fold (case_prod write_arp_row) (zip (map arp_row (take ?w ?s)) [0..<?k]) rs)"
    using write_arp_static_fold [of 0 ?w "rs_arp_cache rs" rs] by (simp add: Let_def)
  ultimately show ?thesis
    by (simp only: write_arp_cache_to_hw_def Let_def prod.case write_arp_rest_fold fold_append
        comp_apply)
qed

lemma fold_arp_rows_frame:
  "rs_arp_cache (fold (case_prod write_arp_row) xs rs) = rs_arp_cache rs"
  "rs_is_netfpga (fold (case_prod write_arp_row) xs rs) = rs_is_netfpga rs"
  "rs_arp_queue (fold (case_prod write_arp_row) xs rs) = rs_arp_queue rs"
  "rs_if_list (fold (case_prod write_arp_row) xs rs) = rs_if_list rs"
  "rs_rtable (fold (case_prod write_arp_row) xs rs) = rs_rtable rs"
  "rs_sent (fold (case_prod write_arp_row) xs rs) = rs_sent rs"
  by (induction xs arbitrary: rs) (auto simp: write_arp_row_def Let_def)

lemma trigger_arp_cache_frame [simp, frame_simps]:
  "rs_arp_cache (trigger_arp_cache_modified rs) = rs_arp_cache rs"
  "rs_is_netfpga (trigger_arp_cache_modified rs) = rs_is_netfpga rs"
  "rs_hw (trigger_arp_cache_modified rs) = rs_hw rs"
  "rs_arp_queue (trigger_arp_cache_modified rs) = rs_arp_queue rs"
  "rs_if_list (trigger_arp_cache_modified rs) = rs_if_list rs"
  "rs_rtable (trigger_arp_cache_modified rs) = rs_rtable rs"
  "rs_sent (trigger_arp_cache_modified rs) = rs_sent rs"
  by (simp_all add: trigger_arp_cache_modified_def write_arp_cache_fold fold_arp_rows_frame
      arp_cam.hw_fold)

lemma in_arp_cache_trigger [simp]:
  "in_arp_cache (trigger_arp_cache_modified rs) ip = in_arp_cache rs ip"
  by (simp add: in_arp_cache_def)

lemma del_arp_cache_loop_filter:
  "del_arp_cache_loop ip l n =
     (filter (\<lambda>e. ace_ip e \<noteq> ip) l, n + int (length (filter (\<lambda>e. ace_ip e = ip) l)))"
  by (induction l arbitrary: n) auto

definition arp_cache_ok :: "router_state \<Rightarrow> bool" where
  "arp_cache_ok rs \<longleftrightarrow> distinct (map ace_ip (rs_arp_cache rs))"

text \<open>What the cache says about a next hop, and the insertion and deletion as table operations.\<close>

definition arp_view :: "router_state \<Rightarrow> u32 \<Rightarrow> (u8 list \<times> int \<times> int) option" where
  "arp_view rs ip = map_option (\<lambda>e. (ace_ha e, ace_is_static e, ace_TTL e)) (in_arp_cache rs ip)"

definition arp_put :: "u32 \<Rightarrow> u8 list \<times> int \<times> int \<Rightarrow> router_state \<Rightarrow> router_state" where
  "arp_put ip w rs = (case w of (mac, is_static, now) \<Rightarrow> snd (update_arp_cache now rs ip mac is_static))"

definition arp_del :: "u32 \<Rightarrow> router_state \<Rightarrow> router_state" where
  "arp_del ip rs = snd (del_arp_cache rs ip)"

definition arp_val :: "u8 list \<times> int \<times> int \<Rightarrow> u8 list \<times> int \<times> int" where
  "arp_val w = (case w of (mac, is_static, now) \<Rightarrow> (mac, is_static, if is_static = 1 then 0 else now))"

lemma update_arp_cache_cache:
  "rs_arp_cache (snd (update_arp_cache now rs ip mac st)) =
     (let f = (\<lambda>e. e\<lparr>ace_ha := mac, ace_TTL := (if st = 1 then 0 else now), ace_is_static := st\<rparr>)
      in if in_arp_cache rs ip = None
         then rs_arp_cache rs @ [f \<lparr>ace_ip = ip, ace_ha = [], ace_TTL = 0, ace_is_static = 0\<rparr>]
         else upd_first (\<lambda>e. ip = ace_ip e) f (rs_arp_cache rs))"
  by (simp add: update_arp_cache_def Let_def split: option.split)

interpretation arp_table: keyed_table arp_cache_ok arp_view arp_put arp_del arp_val
proof
  fix rs :: router_state and ip :: u32 and w :: "u8 list \<times> int \<times> int"
  assume ok: "arp_cache_ok rs"
  obtain mac st now where w: "w = (mac, st, now)" by (cases w)
  let ?f = "\<lambda>e :: arp_cache_entry. e\<lparr>ace_ha := mac, ace_TTL := (if st = 1 then 0 else now), ace_is_static := st\<rparr>"
  have key: "ace_ip (?f e) = ace_ip e" for e by simp
  show "arp_view (arp_put ip w rs) = (arp_view rs)(ip \<mapsto> arp_val w)"
  proof
    fix ip'
    show "arp_view (arp_put ip w rs) ip' = ((arp_view rs)(ip \<mapsto> arp_val w)) ip'"
    proof (cases "in_arp_cache rs ip")
      case None
      then show ?thesis
        by (auto simp: arp_view_def arp_put_def w arp_val_def in_arp_cache_def update_arp_cache_cache
            Let_def find_key_append_new split: option.splits)
    next
      case (Some e)
      then show ?thesis
        by (auto simp: arp_view_def arp_put_def w arp_val_def in_arp_cache_def update_arp_cache_cache
            Let_def find_key_upd_first [where key = ace_ip and f = ?f, OF key] option.map_comp)
    qed
  qed
  show "arp_cache_ok (arp_put ip w rs)"
    using ok distinct_key_upd_first [where key = ace_ip and f = ?f, OF key]
    by (auto simp: arp_cache_ok_def arp_put_def w update_arp_cache_cache Let_def in_arp_cache_def
        find_key_None)
next
  fix rs :: router_state and ip :: u32
  assume ok: "arp_cache_ok rs"
  show "arp_view (arp_del ip rs) = (arp_view rs)(ip := None)"
  proof
    fix ip'
    show "arp_view (arp_del ip rs) ip' = ((arp_view rs)(ip := None)) ip'"
    proof (cases "in_arp_cache rs ip'")
      case None
      with ok show ?thesis
        by (simp add: arp_view_def arp_del_def del_arp_cache_def del_arp_cache_loop_filter
            in_arp_cache_def find_key_filter arp_cache_ok_def)
    next
      case (Some x)
      then have "ace_ip x = ip'" by (auto simp: in_arp_cache_def dest: find_SomeD)
      with ok Some show ?thesis
        by (simp add: arp_view_def arp_del_def del_arp_cache_def del_arp_cache_loop_filter
            in_arp_cache_def find_key_filter arp_cache_ok_def)
    qed
  qed
  show "arp_cache_ok (arp_del ip rs)"
    using ok by (auto simp: arp_cache_ok_def arp_del_def del_arp_cache_def
        del_arp_cache_loop_filter distinct_map_filter)
qed

text \<open>
  C17. The ARP cache is a map from next hops to addresses: after any sequence of updates and
  deletions a lookup finds what the last operation on that next hop left, and no next hop has
  two entries. A static entry has expiry time 0.
\<close>

theorem arp_cache_refines_map:
  assumes "arp_cache_ok rs"
  shows "arp_cache_ok (fold (run_op arp_put arp_del) ops rs) \<and>
    arp_view (fold (run_op arp_put arp_del) ops rs) = fold (map_op arp_val) ops (arp_view rs)"
  by (rule arp_table.run_refines [OF assms])

theorem arp_cache_refines_map_witness:
  "arp_view (fold (run_op arp_put arp_del)
     [Put 1 ([1, 2, 3, 4, 5, 6], 0, 10), Put 2 ([6, 5, 4, 3, 2, 1], 1, 20), Del 1] rs0) =
   [2 \<mapsto> ([6, 5, 4, 3, 2, 1], 1, 0)]"
proof -
  have "arp_view rs0 = Map.empty" by (simp add: arp_view_def in_arp_cache_def fun_eq_iff)
  with arp_cache_refines_map [of rs0 "[Put 1 ([1, 2, 3, 4, 5, 6], 0, 10),
      Put 2 ([6, 5, 4, 3, 2, 1], 1, 20), Del 1]"] show ?thesis
    by (auto simp: arp_cache_ok_def arp_val_def fun_eq_iff)
qed

lemma expire_arp_loop_filter:
  "expire_arp_loop now ttl l t =
     (filter (\<lambda>e. ace_is_static e = 1 \<or> now - ace_TTL e \<le> uint ttl) l,
      t \<or> (\<exists>e\<in>set l. \<not> (ace_is_static e = 1 \<or> now - ace_TTL e \<le> uint ttl)))"
  by (induction l arbitrary: t) (auto simp: not_le)

text \<open>
  Expiry drops exactly the entries that are not static and older than the cache's time to
  live: every other next hop is found as before.
\<close>

theorem expire_arp_cache_spec:
  assumes "arp_cache_ok rs"
  shows "arp_cache_ok (expire_arp_cache now rs) \<and>
    in_arp_cache (expire_arp_cache now rs) ip =
      (case in_arp_cache rs ip of
         None \<Rightarrow> None
       | Some e \<Rightarrow> if ace_is_static e = 1 \<or> now - ace_TTL e \<le> uint (rs_arp_ttl rs)
                   then Some e else None)"
proof -
  have "rs_arp_cache (expire_arp_cache now rs) = filter (\<lambda>e. ace_is_static e = 1 \<or>
      now - ace_TTL e \<le> uint (rs_arp_ttl rs)) (rs_arp_cache rs)"
    by (simp add: expire_arp_cache_def expire_arp_loop_filter Let_def)
  with assms show ?thesis
    by (simp add: arp_cache_ok_def in_arp_cache_def find_key_filter distinct_map_filter)
qed

definition arp2 :: "arp_cache_entry list" where
  "arp2 = [\<lparr>ace_ip = 1, ace_ha = [1, 2, 3, 4, 5, 6], ace_TTL = 0, ace_is_static = 0\<rparr>,
     \<lparr>ace_ip = 2, ace_ha = [6, 5, 4, 3, 2, 1], ace_TTL = 0, ace_is_static = 1\<rparr>]"

theorem expire_arp_cache_spec_witness:
  "in_arp_cache (expire_arp_cache 100 (rs0\<lparr>rs_arp_cache := arp2, rs_arp_ttl := 50\<rparr>)) 1 = None \<and>
   in_arp_cache (expire_arp_cache 100 (rs0\<lparr>rs_arp_cache := arp2, rs_arp_ttl := 50\<rparr>)) 2 \<noteq> None"
  using expire_arp_cache_spec [of "rs0\<lparr>rs_arp_cache := arp2, rs_arp_ttl := 50\<rparr>" 100 1]
    expire_arp_cache_spec [of "rs0\<lparr>rs_arp_cache := arp2, rs_arp_ttl := 50\<rparr>" 100 2]
  by (simp add: arp_cache_ok_def in_arp_cache_def arp2_def)

text \<open>The lookup of the ARP table in hardware: the first row with the next hop.\<close>

definition arp_cam_lookup :: "arp_row list \<Rightarrow> u32 \<Rightarrow> u8 list option" where
  "arp_cam_lookup rows ip =
     map_option (\<lambda>r. mac_of_words (fst r) (fst (snd r))) (find (\<lambda>r. ip = snd (snd r)) rows)"

definition arp_cam_rows :: "router_state \<Rightarrow> (reg \<times> u32) list \<Rightarrow> arp_row list" where
  "arp_cam_rows rs ws =
     map (\<lambda>i. arp_row_of (snd (hw_replay ws (\<lambda>_. 0, \<lambda>_ _. 0)) (arp_cam_address (rs_hw rs) OR of_nat i)))
       [0..<arp_cam_width (rs_hw rs)]"

definition arp_addresses_ok :: "hw_config \<Rightarrow> bool" where
  "arp_addresses_ok hw \<longleftrightarrow>
     distinct (map (\<lambda>i. arp_cam_address hw OR of_nat i) [0..<arp_cam_width hw])"

lemma arp_cam_rows_trigger:
  assumes "rs_is_netfpga rs" and "arp_addresses_ok (rs_hw rs)"
  shows "arp_cam_rows rs (rs_regs (trigger_arp_cache_modified rs)) =
    arp_rows (arp_cam_width (rs_hw rs)) (hw_order (rs_arp_cache rs))"
  using assms arp_cam.rows_fold [of rs "[0..<arp_cam_width (rs_hw rs)]"
      "arp_rows (arp_cam_width (rs_hw rs)) (hw_order (rs_arp_cache rs))"]
  by (simp add: trigger_arp_cache_modified_def write_arp_cache_fold arp_cam_rows_def
      arp_addresses_ok_def)

lemma find_arp_rows:
  assumes "length l \<le> n" and "ip \<noteq> 0"
  shows "find (\<lambda>r. ntohl ip = snd (snd r)) (arp_rows n l) =
    map_option arp_row (find (\<lambda>e. ip = ace_ip e) l)"
  using assms
  by (simp add: arp_rows_def find_append find_map find_replicate comp_def arp_row_def
      split: option.split)

text \<open>
  C27. When the cache fits the ARP table of the hardware, the table filled by the register
  writes of an update answers every next hop but 0.0.0.0 with the address that the cache holds.
\<close>

theorem hardware_arp_agrees:
  assumes hw: "rs_is_netfpga rs" "arp_addresses_ok (rs_hw rs)" and ok: "arp_cache_ok rs"
    and macs: "\<forall>e\<in>set (rs_arp_cache rs). length (ace_ha e) = 6" "length mac = 6"
    and fits: "length (rs_arp_cache rs) < arp_cam_width (rs_hw rs)"
    and upd: "update_arp_cache now rs k mac st = (rc, rs')" and ip: "ip \<noteq> 0"
  shows "arp_cam_lookup (arp_cam_rows rs (rs_regs rs')) (ntohl ip) =
    map_option ace_ha (in_arp_cache rs' ip)"
proof -
  let ?c = "rs_arp_cache rs'"
  obtain rs1 where rs': "rs' = trigger_arp_cache_modified rs1"
      and rs1: "rs_is_netfpga rs1" "rs_hw rs1 = rs_hw rs" "rs_arp_cache rs1 = ?c"
    using upd hw(1) by (auto simp: update_arp_cache_def Let_def split: option.splits)
  have snd: "rs' = snd (update_arp_cache now rs k mac st)" using upd by simp
  have ok': "arp_cache_ok rs'"
    using arp_table.put_invar [OF ok, of k "(mac, st, now)"] by (simp add: arp_put_def snd)
  have len: "length ?c \<le> arp_cam_width (rs_hw rs)"
    using fits unfolding snd update_arp_cache_cache by (auto simp: Let_def)
  have mac6: "\<forall>e\<in>set ?c. length (ace_ha e) = 6"
  proof
    fix e assume "e \<in> set ?c"
    then have "e \<in> set (rs_arp_cache rs) \<or> ace_ha e = mac"
      unfolding snd update_arp_cache_cache Let_def
      by (cases "in_arp_cache rs k = None") (auto dest: set_upd_firstD)
    with macs show "length (ace_ha e) = 6" by auto
  qed
  have "arp_cam_rows rs (rs_regs rs') = arp_rows (arp_cam_width (rs_hw rs)) (hw_order ?c)"
    using arp_cam_rows_trigger [of rs1] rs1(1,2) hw(2) unfolding rs' arp_cam_rows_def by simp
  moreover have "mset (hw_order ?c) = mset ?c"
    using mset_filter_partition [of "\<lambda>e. ace_is_static e \<noteq> 0" ?c] by (simp add: hw_order_def)
  then have "find (\<lambda>e. ip = ace_ip e) (hw_order ?c) = find (\<lambda>e. ip = ace_ip e) ?c"
      "length (hw_order ?c) = length ?c"
    using ok' find_key_mset [of ace_ip ?c "hw_order ?c" ip]
    by (simp_all add: arp_cache_ok_def) (metis size_mset)
  ultimately have find: "find (\<lambda>r. ntohl ip = snd (snd r)) (arp_cam_rows rs (rs_regs rs')) =
      map_option arp_row (in_arp_cache rs' ip)"
    using len ip by (simp add: find_arp_rows in_arp_cache_def)
  show ?thesis
  proof (cases "in_arp_cache rs' ip")
    case None
    then show ?thesis by (simp add: arp_cam_lookup_def find)
  next
    case (Some e)
    then have "e \<in> set ?c" unfolding in_arp_cache_def using find_SomeD by fastforce
    with mac6 Some show ?thesis
      by (simp add: arp_cam_lookup_def find arp_row_def mac_words_roundtrip)
  qed
qed

theorem hardware_arp_agrees_witness:
  "\<exists>rc rs'. update_arp_cache 7 (rs0\<lparr>rs_arp_cache := arp2\<rparr>) 3 [9, 8, 7, 6, 5, 4] 0 = (rc, rs') \<and>
    arp_cam_lookup (arp_cam_rows (rs0\<lparr>rs_arp_cache := arp2\<rparr>) (rs_regs rs')) (ntohl 3) =
      map_option ace_ha (in_arp_cache rs' 3)"
proof -
  obtain rc rs' where u: "update_arp_cache 7 (rs0\<lparr>rs_arp_cache := arp2\<rparr>) 3 [9, 8, 7, 6, 5, 4] 0 = (rc, rs')"
    by (cases "update_arp_cache 7 (rs0\<lparr>rs_arp_cache := arp2\<rparr>) 3 [9, 8, 7, 6, 5, 4] 0")
  have "arp_addresses_ok hw4" by (simp add: arp_addresses_ok_def hw4_def upt_rec)
  then have "arp_cam_lookup (arp_cam_rows (rs0\<lparr>rs_arp_cache := arp2\<rparr>) (rs_regs rs')) (ntohl 3) =
      map_option ace_ha (in_arp_cache rs' 3)"
    by (intro hardware_arp_agrees [OF _ _ _ _ _ _ u]) (simp_all add: arp_cache_ok_def arp2_def hw4_def)
  with u show ?thesis by blast
qed

subsection \<open>Sending frames\<close>

text \<open>
  A frame shorter than 60 bytes is padded with zeros; the frame and the interface are what
  \<^verbatim>\<open>sr_integ_low_level_output\<close> receives, which returns 0 on the hardware platform.
\<close>

definition send_packet :: "packet \<Rightarrow> string \<Rightarrow> router_state \<Rightarrow> int \<times> router_state" where
  "send_packet packet iface rs =
     (let packet = (if length packet < 60 then packet @ replicate (60 - length packet) 0 else packet)
      in (0, rs\<lparr>rs_sent := rs_sent rs @ [(packet, iface)]\<rparr>))"

text \<open>The offset of the ARP header, behind the assertion on the type of the frame.\<close>

definition get_arp_hdr :: "packet \<Rightarrow> nat option" where
  "get_arp_hdr packet = (if ntohs (eth_type packet) = ETH_TYPE_ARP then Some ETH_HDR_LEN else None)"

definition send_arp_request :: "router_state \<Rightarrow> u32 \<Rightarrow> string \<Rightarrow> router_state option" where
  "send_arp_request rs tip interface = do {
     ifa \<leftarrow> get_interface rs interface;
     let request_packet = replicate (ETH_HDR_LEN + sizeof_arp_hdr) 0;
     let request_packet = populate_eth_hdr request_packet (Some (replicate 6 0xFF)) (if_addr ifa)
           ETH_TYPE_ARP;
     let request_packet = populate_arp_hdr request_packet None tip (if_addr ifa) (if_ip ifa)
           ARP_OP_REQUEST;
     Some (snd (send_packet request_packet interface rs))
   }"

text \<open>
  The reply buffer comes from malloc, so its contents are an argument; every byte of it is
  written before it is sent.
\<close>

definition send_arp_reply :: "packet \<Rightarrow> router_state \<Rightarrow> packet \<Rightarrow> iface_entry \<Rightarrow> router_state option" where
  "send_arp_reply buf rs packet iface = do {
     _ \<leftarrow> get_arp_hdr packet;
     let new_packet = populate_eth_hdr buf (Some (eth_shost packet)) (if_addr iface) ETH_TYPE_ARP;
     _ \<leftarrow> get_arp_hdr new_packet;
     let new_packet = populate_arp_hdr new_packet (Some (arp_sha packet)) (arp_sip packet)
           (if_addr iface) (if_ip iface) ARP_OP_REPLY;
     Some (snd (send_packet new_packet (if_name iface) rs))
   }"

definition process_arp_request :: "packet \<Rightarrow> router_state \<Rightarrow> packet \<Rightarrow> router_state option" where
  "process_arp_request buf rs packet = do {
     _ \<leftarrow> get_arp_hdr packet;
     (case find (\<lambda>n. if_ip n = arp_tip packet) (rs_if_list rs) of
        None \<Rightarrow> Some rs
      | Some n \<Rightarrow> send_arp_reply buf rs packet n)
   }"

subsection \<open>The queue of packets that wait for an address\<close>

definition get_from_arp_queue :: "router_state \<Rightarrow> u32 \<Rightarrow> arp_queue_entry option" where
  "get_from_arp_queue rs next_hop = find (\<lambda>aqe. next_hop = aqe_next_hop aqe) (rs_arp_queue rs)"

definition arp_queue_entry_add_packet :: "packet \<Rightarrow> arp_queue_entry \<Rightarrow> arp_queue_entry" where
  "arp_queue_entry_add_packet packet aqe = aqe\<lparr>aqe_head := aqe_head aqe @ [packet]\<rparr>"

definition arp_queue_add ::
  "int \<Rightarrow> router_state \<Rightarrow> packet \<Rightarrow> string \<Rightarrow> u32 \<Rightarrow> router_state option" where
  "arp_queue_add now rs packet out_iface_name next_hop =
     (case get_from_arp_queue rs next_hop of
        None \<Rightarrow> do {
          let aqe = \<lparr>aqe_out_iface_name = take IF_LEN out_iface_name, aqe_next_hop = next_hop,
                     aqe_requests = 1, aqe_last_req_time = now, aqe_head = []\<rparr>;
          rs \<leftarrow> send_arp_request rs next_hop out_iface_name;
          let aqe = arp_queue_entry_add_packet packet aqe;
          Some (rs\<lparr>rs_arp_queue := rs_arp_queue rs @ [aqe]\<rparr>)
        }
      | Some _ \<Rightarrow> Some (rs\<lparr>rs_arp_queue :=
          upd_first (\<lambda>aqe. next_hop = aqe_next_hop aqe) (arp_queue_entry_add_packet packet)
            (rs_arp_queue rs)\<rparr>))"

definition send_ip ::
  "int \<Rightarrow> router_state \<Rightarrow> packet \<Rightarrow> u32 \<Rightarrow> string \<Rightarrow> (int \<times> router_state) option" where
  "send_ip now rs packet next_hop out_iface =
     (case get_from_arp_cache rs next_hop of
        Some ace \<Rightarrow> (let packet = st_bytes packet 0 (ace_ha ace);
                         (rc, rs) = send_packet packet out_iface rs
                     in if rc \<noteq> 0 then Some (1, rs) else Some (0, rs))
      | None \<Rightarrow> do {
          rs \<leftarrow> arp_queue_add now rs packet out_iface next_hop;
          Some (0, rs)
        })"

definition remove_nth :: "nat \<Rightarrow> 'a list \<Rightarrow> 'a list" where
  "remove_nth k xs = take k xs @ drop (k + 1) xs"

text \<open>
  The packets of the entry at position \<open>k\<close>: the successor of a packet is read before it is
  sent, and the packet leaves the list after it. Sending can append to the queue or to an
  entry of it, so the list is read again from the state in every step.
\<close>

partial_function (option) send_queued_entry ::
  "int \<Rightarrow> router_state \<Rightarrow> nat \<Rightarrow> router_state option" where
  "send_queued_entry now rs k =
     (let aqe = rs_arp_queue rs ! k
      in case aqe_head aqe of
           [] \<Rightarrow> Some rs
         | packet # next_packet_node \<Rightarrow> do {
             (_, rs) \<leftarrow> send_ip now rs packet (aqe_next_hop aqe) (aqe_out_iface_name aqe);
             let rs = rs\<lparr>rs_arp_queue := (rs_arp_queue rs)[k := (rs_arp_queue rs ! k)
                        \<lparr>aqe_head := tl (aqe_head (rs_arp_queue rs ! k))\<rparr>]\<rparr>;
             (if next_packet_node = [] then Some rs else send_queued_entry now rs k)
           })"

partial_function (option) send_queued_loop ::
  "int \<Rightarrow> router_state \<Rightarrow> u32 \<Rightarrow> nat \<Rightarrow> router_state option" where
  "send_queued_loop now rs dest_ip k =
     (if k < length (rs_arp_queue rs) then
        (let has_next = k + 1 < length (rs_arp_queue rs)
         in if dest_ip = aqe_next_hop (rs_arp_queue rs ! k)
            then do {
              rs \<leftarrow> send_queued_entry now rs k;
              let rs = rs\<lparr>rs_arp_queue := remove_nth k (rs_arp_queue rs)\<rparr>;
              (if has_next then send_queued_loop now rs dest_ip k else Some rs)
            }
            else if has_next then send_queued_loop now rs dest_ip (k + 1) else Some rs)
      else Some rs)"

definition send_queued_packets :: "int \<Rightarrow> router_state \<Rightarrow> u32 \<Rightarrow> router_state option" where
  "send_queued_packets now rs dest_ip = send_queued_loop now rs dest_ip 0"

definition process_arp_reply :: "int \<Rightarrow> router_state \<Rightarrow> packet \<Rightarrow> router_state option" where
  "process_arp_reply now rs packet = do {
     _ \<leftarrow> get_arp_hdr packet;
     let (_, rs) = update_arp_cache now rs (arp_sip packet) (arp_sha packet) 0;
     send_queued_packets now rs (arp_sip packet)
   }"

definition process_arp_packet :: "packet \<Rightarrow> int \<Rightarrow> router_state \<Rightarrow> packet \<Rightarrow> router_state option" where
  "process_arp_packet buf now rs packet = do {
     _ \<leftarrow> get_arp_hdr packet;
     (if ntohs (arp_op packet) = ARP_OP_REQUEST then process_arp_request buf rs packet
      else if ntohs (arp_op packet) = ARP_OP_REPLY then process_arp_reply now rs packet
      else Some rs)
   }"

subsection \<open>What becomes of the packets\<close>

definition pad60 :: "packet \<Rightarrow> packet" where
  "pad60 p = p @ replicate (60 - length p) 0"

lemma send_packet_pad: "send_packet p ifc rs = (0, rs\<lparr>rs_sent := rs_sent rs @ [(pad60 p, ifc)]\<rparr>)"
  by (simp add: send_packet_def pad60_def Let_def)

lemma length_pad60: "length (pad60 p) = max 60 (length p)"
  by (simp add: pad60_def)

text \<open>The packets that wait for a next hop.\<close>

definition queued :: "router_state \<Rightarrow> u32 \<Rightarrow> packet list" where
  "queued rs next_hop =
     (case get_from_arp_queue rs next_hop of None \<Rightarrow> [] | Some aqe \<Rightarrow> aqe_head aqe)"

definition arp_queue_ok :: "router_state \<Rightarrow> bool" where
  "arp_queue_ok rs \<longleftrightarrow> distinct (map aqe_next_hop (rs_arp_queue rs)) \<and>
     (\<forall>aqe\<in>set (rs_arp_queue rs). aqe_head aqe \<noteq> [] \<and> 1 \<le> aqe_requests aqe \<and> aqe_requests aqe \<le> 5)"

text \<open>The ARP request that asks for an address on an interface.\<close>

definition arp_request_frame :: "iface_entry \<Rightarrow> u32 \<Rightarrow> packet" where
  "arp_request_frame ifa tip =
     populate_arp_hdr
       (populate_eth_hdr (replicate (ETH_HDR_LEN + sizeof_arp_hdr) 0) (Some (replicate 6 0xFF))
         (if_addr ifa) ETH_TYPE_ARP)
       None tip (if_addr ifa) (if_ip ifa) ARP_OP_REQUEST"

lemma send_arp_request_frame:
  "send_arp_request rs tip ifc = (case get_interface rs ifc of None \<Rightarrow> None
     | Some ifa \<Rightarrow> Some (rs\<lparr>rs_sent := rs_sent rs @ [(pad60 (arp_request_frame ifa tip), ifc)]\<rparr>))"
  by (simp add: send_arp_request_def send_packet_pad arp_request_frame_def Let_def
      split: option.split)

lemma aqe_add_key [simp]: "aqe_next_hop (arp_queue_entry_add_packet p aqe) = aqe_next_hop aqe"
  by (simp add: arp_queue_entry_add_packet_def)

text \<open>
  C18. A packet given to \<^verbatim>\<open>send_ip\<close> is never lost: when the ARP cache knows the next hop, it leaves at
  once with that destination address, and otherwise it joins the packets waiting for that next
  hop, behind those already there; an ARP request goes out exactly when it is the first. The
  queue keeps one entry per next hop, and what waits for other next hops is left alone.
\<close>

theorem send_ip_spec:
  assumes ok: "arp_queue_ok rs" and send: "send_ip now rs packet next_hop ifc = Some (rc, rs')"
  shows "rc = 0 \<and> arp_queue_ok rs' \<and>
    (case get_from_arp_cache rs next_hop of
       Some ace \<Rightarrow> rs' = rs\<lparr>rs_sent := rs_sent rs @ [(pad60 (st_bytes packet 0 (ace_ha ace)), ifc)]\<rparr>
     | None \<Rightarrow> queued rs' next_hop = queued rs next_hop @ [packet] \<and>
         (\<forall>h. h \<noteq> next_hop \<longrightarrow> queued rs' h = queued rs h) \<and>
         (if queued rs next_hop = []
          then \<exists>ifa. get_interface rs ifc = Some ifa \<and>
            rs_sent rs' = rs_sent rs @ [(pad60 (arp_request_frame ifa next_hop), ifc)]
          else rs_sent rs' = rs_sent rs))"
proof (cases "get_from_arp_cache rs next_hop")
  case (Some ace)
  with send ok show ?thesis
    by (auto simp: send_ip_def send_packet_pad arp_queue_ok_def)
next
  case None
  then have rc: "rc = 0" and add: "arp_queue_add now rs packet ifc next_hop = Some rs'"
    using send by (auto simp: send_ip_def bind_eq_Some_conv)
  show ?thesis
  proof (cases "get_from_arp_queue rs next_hop")
    case fresh: None
    then have new: "next_hop \<notin> aqe_next_hop ` set (rs_arp_queue rs)"
      by (simp add: get_from_arp_queue_def find_key_None)
    from add fresh obtain ifa where ifa: "get_interface rs ifc = Some ifa"
      and rs': "rs' = rs\<lparr>rs_sent := rs_sent rs @ [(pad60 (arp_request_frame ifa next_hop), ifc)],
        rs_arp_queue := rs_arp_queue rs @ [\<lparr>aqe_out_iface_name = take IF_LEN ifc,
          aqe_next_hop = next_hop, aqe_requests = 1, aqe_last_req_time = now, aqe_head = [packet]\<rparr>]\<rparr>"
      by (auto simp: arp_queue_add_def send_arp_request_frame arp_queue_entry_add_packet_def
          bind_eq_Some_conv Let_def split: option.splits)
    from fresh None rc new ok ifa show ?thesis
      by (auto simp: rs' queued_def get_from_arp_queue_def find_key_append_new arp_queue_ok_def
          split: option.splits)
  next
    case (Some aqe)
    with add have rs': "rs' = rs\<lparr>rs_arp_queue := upd_first (\<lambda>aqe. next_hop = aqe_next_hop aqe)
        (arp_queue_entry_add_packet packet) (rs_arp_queue rs)\<rparr>"
      by (simp add: arp_queue_add_def)
    from Some have "aqe \<in> set (rs_arp_queue rs)"
      unfolding get_from_arp_queue_def using find_SomeD by fastforce
    with ok have "aqe_head aqe \<noteq> []" by (simp add: arp_queue_ok_def)
    moreover have "arp_queue_ok rs'"
      using ok unfolding rs' arp_queue_ok_def
      by (auto simp: distinct_key_upd_first arp_queue_entry_add_packet_def dest!: set_upd_firstD)
    ultimately show ?thesis
      using Some None rc
      by (auto simp: rs' queued_def get_from_arp_queue_def find_key_upd_first
          arp_queue_entry_add_packet_def split: option.splits)
  qed
qed

text \<open>A router with one interface.\<close>

definition eth0_iface :: iface_entry where
  "eth0_iface = \<lparr>if_name = ''eth0'', if_addr = [2, 0, 0, 0, 0, 1], if_ip = 0x0100000a,
     if_mask = 0x00ffffff, if_speed = 0, if_is_active = True, if_last_sent_hello = 0,
     if_nbr_routers = [], if_is_wan = 0\<rparr>"

definition rs1 :: router_state where
  "rs1 = rs0\<lparr>rs_if_list := [eth0_iface]\<rparr>"

theorem send_ip_spec_witness:
  "\<exists>rc rs'. send_ip 5 rs1 (replicate 64 1) 0x0200000a ''eth0'' = Some (rc, rs') \<and>
    rc = 0 \<and> queued rs' 0x0200000a = [replicate 64 1] \<and> length (rs_sent rs') = 1"
proof -
  have none: "get_from_arp_cache rs1 0x0200000a = None" "get_from_arp_queue rs1 0x0200000a = None"
    by (simp_all add: rs1_def get_from_arp_cache_def in_arp_cache_def get_from_arp_queue_def)
  obtain rc rs' where s: "send_ip 5 rs1 (replicate 64 1) 0x0200000a ''eth0'' = Some (rc, rs')"
    using none by (auto simp: send_ip_def arp_queue_add_def send_arp_request_frame Let_def rs1_def
        get_interface_def strncmp_eq_def eth0_iface_def)
  have "arp_queue_ok rs1" by (simp add: arp_queue_ok_def rs1_def)
  from send_ip_spec [OF this s] none s show ?thesis
    by (auto simp: queued_def rs1_def)
qed

text \<open>The frames that leave when the address of a next hop is known.\<close>

definition released :: "u8 list \<Rightarrow> arp_queue_entry \<Rightarrow> (packet \<times> string) list" where
  "released mac aqe = map (\<lambda>p. (pad60 (st_bytes p 0 mac), aqe_out_iface_name aqe)) (aqe_head aqe)"

lemma send_ip_hit:
  "get_from_arp_cache rs h = Some ace \<Longrightarrow>
     send_ip now rs p h ifc = Some (0, rs\<lparr>rs_sent := rs_sent rs @ [(pad60 (st_bytes p 0 (ace_ha ace)), ifc)]\<rparr>)"
  by (simp add: send_ip_def send_packet_pad)

lemma get_from_arp_cache_frame [simp]:
  "get_from_arp_cache (rs\<lparr>rs_sent := x\<rparr>) h = get_from_arp_cache rs h"
  "get_from_arp_cache (rs\<lparr>rs_arp_queue := q\<rparr>) h = get_from_arp_cache rs h"
  by (simp_all add: get_from_arp_cache_def in_arp_cache_def)

lemma send_queued_entry_hit:
  assumes "get_from_arp_cache rs (aqe_next_hop (rs_arp_queue rs ! k)) = Some ace"
    and "k < length (rs_arp_queue rs)"
  shows "send_queued_entry now rs k =
    Some (rs\<lparr>rs_sent := rs_sent rs @ released (ace_ha ace) (rs_arp_queue rs ! k),
      rs_arp_queue := (rs_arp_queue rs)[k := (rs_arp_queue rs ! k)\<lparr>aqe_head := []\<rparr>]\<rparr>)"
  using assms
proof (induction "aqe_head (rs_arp_queue rs ! k)" arbitrary: rs)
  case Nil
  then have "(rs_arp_queue rs ! k)\<lparr>aqe_head := []\<rparr> = rs_arp_queue rs ! k"
    by (intro arp_queue_entry.equality) auto
  then have "(rs_arp_queue rs)[k := (rs_arp_queue rs ! k)\<lparr>aqe_head := []\<rparr>] = rs_arp_queue rs"
    by simp
  with Nil show ?case
    by (subst send_queued_entry.simps) (simp add: released_def Let_def)
next
  case (Cons p ps)
  let ?aqe = "rs_arp_queue rs ! k"
  let ?rs = "rs\<lparr>rs_sent := rs_sent rs @ [(pad60 (st_bytes p 0 (ace_ha ace)), aqe_out_iface_name ?aqe)],
    rs_arp_queue := (rs_arp_queue rs)[k := ?aqe\<lparr>aqe_head := ps\<rparr>]\<rparr>"
  have IH: "send_queued_entry now ?rs k =
      Some (?rs\<lparr>rs_sent := rs_sent ?rs @ released (ace_ha ace) (rs_arp_queue ?rs ! k),
        rs_arp_queue := (rs_arp_queue ?rs)[k := (rs_arp_queue ?rs ! k)\<lparr>aqe_head := []\<rparr>]\<rparr>)"
    by (rule Cons.hyps(1)) (use Cons.prems in simp_all)
  from Cons.hyps(2) [symmetric] show ?case
  proof (cases "ps = []")
    case True
    with Cons.hyps(2) [symmetric] Cons.prems show ?thesis
      by (subst send_queued_entry.simps) (simp add: send_ip_hit released_def Let_def)
  next
    case False
    with Cons.hyps(2) [symmetric] Cons.prems IH show ?thesis
      by (subst send_queued_entry.simps) (simp add: send_ip_hit released_def Let_def)
  qed
qed

lemma send_queued_loop_hit:
  assumes "get_from_arp_cache rs dest = Some ace" and "k \<le> length (rs_arp_queue rs)"
  shows "send_queued_loop now rs dest k =
    Some (rs\<lparr>rs_sent := rs_sent rs @ concat (map (released (ace_ha ace))
        (filter (\<lambda>a. dest = aqe_next_hop a) (drop k (rs_arp_queue rs)))),
      rs_arp_queue := take k (rs_arp_queue rs) @
        filter (\<lambda>a. dest \<noteq> aqe_next_hop a) (drop k (rs_arp_queue rs))\<rparr>)"
  using assms
proof (induction "length (rs_arp_queue rs) - k" arbitrary: rs k)
  case 0
  then show ?case by (subst send_queued_loop.simps) simp
next
  case (Suc n)
  let ?q = "rs_arp_queue rs"
  have k: "k < length ?q" using Suc.hyps(2) by simp
  then have drop: "drop k ?q = ?q ! k # drop (Suc k) ?q" by (simp add: Cons_nth_drop_Suc)
  show ?case
  proof (cases "dest = aqe_next_hop (?q ! k)")
    case True
    let ?rs = "rs\<lparr>rs_sent := rs_sent rs @ released (ace_ha ace) (?q ! k),
      rs_arp_queue := take k ?q @ drop (Suc k) ?q\<rparr>"
    have entry: "send_queued_entry now rs k = Some (rs\<lparr>
        rs_sent := rs_sent rs @ released (ace_ha ace) (?q ! k),
        rs_arp_queue := ?q[k := (?q ! k)\<lparr>aqe_head := []\<rparr>]\<rparr>)"
      by (rule send_queued_entry_hit) (use True Suc.prems k in simp_all)
    show ?thesis
    proof (cases "k + 1 < length ?q")
      case more: True
      have IH: "send_queued_loop now ?rs dest k =
          Some (?rs\<lparr>rs_sent := rs_sent ?rs @ concat (map (released (ace_ha ace))
              (filter (\<lambda>a. dest = aqe_next_hop a) (drop k (rs_arp_queue ?rs)))),
            rs_arp_queue := take k (rs_arp_queue ?rs) @
              filter (\<lambda>a. dest \<noteq> aqe_next_hop a) (drop k (rs_arp_queue ?rs))\<rparr>)"
        by (rule Suc.hyps(1)) (use Suc.hyps(2) Suc.prems k in \<open>simp_all add: min_absorb2\<close>)
      from True more k entry IH show ?thesis
        by (subst send_queued_loop.simps) (simp add: remove_nth_def drop min_absorb2)
    next
      case False
      with k have "drop (Suc k) ?q = []" by simp
      with True False k entry drop show ?thesis
        by (subst send_queued_loop.simps) (simp add: remove_nth_def)
    qed
  next
    case False
    have take: "take (Suc k) ?q = take k ?q @ [?q ! k]" using k by (rule take_Suc_conv_app_nth)
    show ?thesis
    proof (cases "k + 1 < length ?q")
      case more: True
      with Suc.hyps(1) [of rs "Suc k"] Suc.hyps(2) Suc.prems False k drop take show ?thesis
        by (subst send_queued_loop.simps) simp
    next
      case no_more: False
      with k have "drop (Suc k) ?q = []" "take (Suc k) ?q = ?q" by simp_all
      with False no_more k drop take show ?thesis
        by (subst send_queued_loop.simps) simp
    qed
  qed
qed

lemma update_arp_cache_frame [simp, frame_simps]:
  "rs_arp_queue (snd (update_arp_cache now rs ip mac st)) = rs_arp_queue rs"
  "rs_sent (snd (update_arp_cache now rs ip mac st)) = rs_sent rs"
  "rs_if_list (snd (update_arp_cache now rs ip mac st)) = rs_if_list rs"
  by (simp_all add: update_arp_cache_def Let_def split: option.split)

lemma filter_key_singleton:
  assumes "distinct (map key xs)"
  shows "filter (\<lambda>x. k = key x) xs = (case find (\<lambda>x. k = key x) xs of None \<Rightarrow> [] | Some x \<Rightarrow> [x])"
  using assms by (induction xs) (auto simp: filter_empty_conv)

text \<open>
  An ARP reply records the sender's address and releases what waited for it: the packets
  leave in the order of their arrival, on the interface they were queued for, with the sender's
  address as destination, and their entry is gone; the packets for other next hops keep waiting.
\<close>

theorem process_arp_reply_spec:
  assumes arp: "ntohs (eth_type packet) = ETH_TYPE_ARP"
    and cache: "arp_cache_ok rs" and queue: "arp_queue_ok rs"
  shows "\<exists>rs'. process_arp_reply now rs packet = Some rs' \<and>
    map_option ace_ha (in_arp_cache rs' (arp_sip packet)) = Some (arp_sha packet) \<and>
    rs_arp_queue rs' = filter (\<lambda>a. arp_sip packet \<noteq> aqe_next_hop a) (rs_arp_queue rs) \<and>
    rs_sent rs' = rs_sent rs @
      (case get_from_arp_queue rs (arp_sip packet) of
         None \<Rightarrow> []
       | Some aqe \<Rightarrow> map (\<lambda>p. (pad60 (st_bytes p 0 (arp_sha packet)), aqe_out_iface_name aqe))
           (aqe_head aqe))"
proof -
  let ?sip = "arp_sip packet" and ?sha = "arp_sha packet"
  let ?rs = "snd (update_arp_cache now rs ?sip ?sha 0)"
  have "arp_view ?rs ?sip = Some (?sha, 0, now)"
    using arp_table.put_lookup [OF cache, of ?sip "(?sha, 0, now)"]
    by (simp add: arp_put_def arp_val_def)
  then obtain ace where ace: "in_arp_cache ?rs ?sip = Some ace" "ace_ha ace = ?sha"
    by (auto simp: arp_view_def)
  let ?rs' = "?rs\<lparr>rs_sent := rs_sent rs @ concat (map (released ?sha)
      (filter (\<lambda>a. ?sip = aqe_next_hop a) (rs_arp_queue rs))),
    rs_arp_queue := filter (\<lambda>a. ?sip \<noteq> aqe_next_hop a) (rs_arp_queue rs)\<rparr>"
  have "process_arp_reply now rs packet = Some ?rs'"
    using send_queued_loop_hit [of ?rs ?sip ace 0 now] ace arp
    by (simp add: process_arp_reply_def get_arp_hdr_def send_queued_packets_def split_beta
        get_from_arp_cache_def)
  moreover have "in_arp_cache ?rs' ?sip = Some ace" using ace by (simp add: in_arp_cache_def)
  moreover have "concat (map (released ?sha) (filter (\<lambda>a. ?sip = aqe_next_hop a) (rs_arp_queue rs))) =
      (case get_from_arp_queue rs ?sip of None \<Rightarrow> [] | Some aqe \<Rightarrow> released ?sha aqe)"
    using queue by (simp add: filter_key_singleton arp_queue_ok_def get_from_arp_queue_def
        split: option.split)
  ultimately show ?thesis using ace by (auto simp: released_def split: option.split)
qed

text \<open>An ARP reply of 10.0.0.2.\<close>

definition arp_reply_pkt :: packet where
  "arp_reply_pkt = [2, 0, 0, 0, 0, 1, 7, 7, 7, 7, 7, 7, 8, 6, 0, 1, 8, 0, 6, 4, 0, 2,
     7, 7, 7, 7, 7, 7, 10, 0, 0, 2, 2, 0, 0, 0, 0, 1, 10, 0, 0, 1]"

definition aqe1 :: arp_queue_entry where
  "aqe1 = \<lparr>aqe_out_iface_name = ''eth0'', aqe_next_hop = 0x0200000a, aqe_requests = 1,
     aqe_last_req_time = 0, aqe_head = [replicate 64 1]\<rparr>"

theorem process_arp_reply_spec_witness:
  "\<exists>rs'. process_arp_reply 9 (rs1\<lparr>rs_arp_queue := [aqe1]\<rparr>) arp_reply_pkt = Some rs' \<and>
    rs_arp_queue rs' = [] \<and> length (rs_sent rs') = 1"
proof -
  have "ntohs (eth_type arp_reply_pkt) = ETH_TYPE_ARP"
    by (simp add: eth_type_def ld16_def ld8_def w16_def arp_reply_pkt_def ntohs_def eth_consts)
  moreover have "arp_sip arp_reply_pkt = 0x0200000a"
    by (simp add: arp_sip_def ld32_def ld8_def w32_def arp_reply_pkt_def)
  ultimately show ?thesis
    using process_arp_reply_spec [of arp_reply_pkt "rs1\<lparr>rs_arp_queue := [aqe1]\<rparr>" 9]
    by (auto simp: arp_cache_ok_def arp_queue_ok_def rs1_def aqe1_def get_from_arp_queue_def)
qed

lemma eth_frame_fields:
  assumes "length buf = 42" "length dh = 6" "length sh = 6"
  shows "ntohs (eth_type (populate_eth_hdr buf (Some dh) sh ty)) = ty"
    and "eth_dhost (populate_eth_hdr buf (Some dh) sh ty) = dh"
    and "eth_shost (populate_eth_hdr buf (Some dh) sh ty) = sh"
    and "length (populate_eth_hdr buf (Some dh) sh ty) = 42"
  using assms
  by (simp_all add: eth_type_def eth_dhost_def eth_shost_def populate_eth_hdr_def mem_simps)

lemma arp_frame_fields:
  assumes "length e = 42" "length sha = 6" "length tha = 6"
  shows "eth_dhost (populate_arp_hdr e (Some tha) tip sha sip op) = eth_dhost e"
    and "eth_shost (populate_arp_hdr e (Some tha) tip sha sip op) = eth_shost e"
    and "eth_type (populate_arp_hdr e (Some tha) tip sha sip op) = eth_type e"
    and "arp_op (populate_arp_hdr e (Some tha) tip sha sip op) = htons op"
    and "arp_sha (populate_arp_hdr e (Some tha) tip sha sip op) = sha"
    and "arp_sip (populate_arp_hdr e (Some tha) tip sha sip op) = sip"
    and "arp_tha (populate_arp_hdr e (Some tha) tip sha sip op) = tha"
    and "arp_tip (populate_arp_hdr e (Some tha) tip sha sip op) = tip"
    and "length (populate_arp_hdr e (Some tha) tip sha sip op) = 42"
  using assms
  by (simp_all add: eth_type_def eth_dhost_def eth_shost_def arp_op_def arp_sip_def arp_sha_def
      arp_tha_def arp_tip_def populate_arp_hdr_def mem_simps)

text \<open>
  An ARP request for the address of one of the router's interfaces is answered with one
  frame out of that interface: addressed to the sender of the request and naming the
  interface's MAC and IP address as those of the sender, whatever the reply buffer held
  before. A request for any other address is not answered.
\<close>

theorem process_arp_request_spec:
  assumes arp: "ntohs (eth_type packet) = ETH_TYPE_ARP" and buf: "length buf = 42"
    and macs: "\<forall>i\<in>set (rs_if_list rs). length (if_addr i) = 6"
  shows "case find (\<lambda>i. if_ip i = arp_tip packet) (rs_if_list rs) of
      None \<Rightarrow> process_arp_request buf rs packet = Some rs
    | Some i \<Rightarrow> \<exists>f. process_arp_request buf rs packet =
          Some (rs\<lparr>rs_sent := rs_sent rs @ [(f, if_name i)]\<rparr>) \<and> length f = 60 \<and>
        eth_dhost f = eth_shost packet \<and> eth_shost f = if_addr i \<and>
        ntohs (eth_type f) = ETH_TYPE_ARP \<and> ntohs (arp_op f) = ARP_OP_REPLY \<and>
        arp_sha f = if_addr i \<and> arp_sip f = if_ip i \<and>
        arp_tha f = arp_sha packet \<and> arp_tip f = arp_sip packet"
proof (cases "find (\<lambda>i. if_ip i = arp_tip packet) (rs_if_list rs)")
  case None
  with arp show ?thesis by (simp add: process_arp_request_def get_arp_hdr_def)
next
  case (Some i)
  with macs find_SomeD [OF Some] have mac: "length (if_addr i) = 6" by simp
  have len: "length (eth_shost packet) = 6" "length (arp_sha packet) = 6"
    by (simp_all add: eth_shost_def arp_sha_def)
  let ?e = "populate_eth_hdr buf (Some (eth_shost packet)) (if_addr i) ETH_TYPE_ARP"
  let ?f = "populate_arp_hdr ?e (Some (arp_sha packet)) (arp_sip packet) (if_addr i) (if_ip i)
    ARP_OP_REPLY"
  note e = eth_frame_fields [OF buf len(1) mac, of ETH_TYPE_ARP]
  note f = arp_frame_fields [OF e(4) mac len(2), of "arp_sip packet" "if_ip i" ARP_OP_REPLY]
  have sent: "process_arp_request buf rs packet =
      Some (rs\<lparr>rs_sent := rs_sent rs @ [(pad60 ?f, if_name i)]\<rparr>)"
    using Some arp e(1)
    by (simp add: process_arp_request_def get_arp_hdr_def send_arp_reply_def send_packet_pad Let_def)
  have l60: "length (pad60 ?f) = 60" using f(9) by (simp add: length_pad60)
  have pad: "eth_dhost (pad60 ?f) = eth_dhost ?f" "eth_shost (pad60 ?f) = eth_shost ?f"
      "eth_type (pad60 ?f) = eth_type ?f" "arp_op (pad60 ?f) = arp_op ?f"
      "arp_sha (pad60 ?f) = arp_sha ?f" "arp_sip (pad60 ?f) = arp_sip ?f"
      "arp_tha (pad60 ?f) = arp_tha ?f" "arp_tip (pad60 ?f) = arp_tip ?f"
    using f(9) by (simp_all add: pad60_def eth_dhost_def eth_shost_def eth_type_def arp_op_def
        arp_sha_def arp_sip_def arp_tha_def arp_tip_def mem_simps)
  show ?thesis
    unfolding Some option.case
    by (rule exI [of _ "pad60 ?f"], intro conjI) (simp_all only: sent l60 pad f e ntohs_ntohs)
qed

text \<open>A request for 10.0.0.1.\<close>

definition arp_request_pkt :: packet where
  "arp_request_pkt = [255, 255, 255, 255, 255, 255, 7, 7, 7, 7, 7, 7, 8, 6, 0, 1, 8, 0, 6, 4, 0, 1,
     7, 7, 7, 7, 7, 7, 10, 0, 0, 2, 0, 0, 0, 0, 0, 0, 10, 0, 0, 1]"

theorem process_arp_request_spec_witness:
  "\<exists>f. process_arp_request (replicate 42 0) rs1 arp_request_pkt =
      Some (rs1\<lparr>rs_sent := [(f, ''eth0'')]\<rparr>) \<and> arp_sha f = [2, 0, 0, 0, 0, 1]"
proof -
  have "ntohs (eth_type arp_request_pkt) = ETH_TYPE_ARP"
    by (simp add: eth_type_def ld16_def ld8_def w16_def arp_request_pkt_def ntohs_def eth_consts)
  moreover have "arp_tip arp_request_pkt = 0x0100000a"
    by (simp add: arp_tip_def ld32_def ld8_def w32_def arp_request_pkt_def)
  ultimately show ?thesis
    using process_arp_request_spec [of arp_request_pkt "replicate 42 0" rs1]
    by (auto simp: rs1_def eth0_iface_def)
qed

end
