(* ===== verification/Or_Icmp.thy ===== *)
theory Or_Icmp
  imports Or_Arp Checksum
begin

section \<open>ICMP (\<^verbatim>\<open>or_icmp.c\<close>)\<close>

text \<open>
  The ICMP messages that the router sends and receives. The lemmas describe the frame that
  is given to \<^verbatim>\<open>send_ip\<close>: valid checksums, the right addresses and the payload of the request
  or the quotation of the packet that caused an error.
\<close>

subsection \<open>The code\<close>

text \<open>
  The length \<^verbatim>\<open>len\<close> that goes with a packet is the length of its list. A request shorter than
  its headers would make \<^verbatim>\<open>populate_icmp\<close> copy a negative number of bytes.
\<close>

definition send_icmp_packet ::
  "int \<Rightarrow> router_state \<Rightarrow> packet \<Rightarrow> u8 \<Rightarrow> u8 \<Rightarrow> (int \<times> router_state) option" where
  "send_icmp_packet now rs src_packet icmp_type icmp_code = do {
     let len = length src_packet;
     let (new_packet_len, icmp_payload_len) =
           (if icmp_type = ICMP_TYPE_ECHO_REPLY
            then (len, int len - int (ETH_HDR_LEN + sizeof_ip_hdr + sizeof_icmp_hdr))
            else (ETH_HDR_LEN + sizeof_ip_hdr + sizeof_icmp_hdr + 4 + sizeof_ip_hdr + 8,
                  4 + int sizeof_ip_hdr + 8));
     let new_packet = replicate new_packet_len 0;
     let ip = get_ip_hdr;
     (case get_next_hop 32 rs (ip_src src_packet ip) of
        None \<Rightarrow> Some (1, rs)
      | Some (next_hop, iface) \<Rightarrow> do {
          iface_struct \<leftarrow> get_iface rs iface;
          payload \<leftarrow> (if icmp_type = ICMP_TYPE_ECHO_REPLY
             then if icmp_payload_len < 0 then None
                  else Some (ld_bytes src_packet (get_icmp_hdr + sizeof_icmp_hdr) (nat icmp_payload_len))
             else Some (replicate 4 0 @ ld_bytes src_packet ip (nat (icmp_payload_len - 4))));
          let new_packet = populate_icmp new_packet get_icmp_hdr icmp_type icmp_code payload;
          let (c, new_packet) = compute_icmp_checksum new_packet get_icmp_hdr icmp_payload_len;
          let new_packet = st16 new_packet (get_icmp_hdr + 2) (htons c);
          let size = of_int (int sizeof_icmp_hdr + icmp_payload_len);
          let new_packet =
            (if icmp_type = ICMP_TYPE_ECHO_REPLY \<or>
                icmp_type = ICMP_TYPE_DESTINATION_UNREACHABLE \<and> icmp_code = ICMP_CODE_PORT_UNREACHABLE
             then populate_ip new_packet get_ip_hdr size IP_PROTO_ICMP
                    (ip_dst src_packet ip) (ip_src src_packet ip)
             else populate_ip new_packet get_ip_hdr size IP_PROTO_ICMP
                    (if_ip iface_struct) (ip_src src_packet ip));
          let (c, new_packet) = compute_ip_checksum new_packet get_ip_hdr;
          let new_packet = st16 new_packet (get_ip_hdr + 10) (htons c);
          let new_packet = populate_eth_hdr new_packet None (if_addr iface_struct) ETH_TYPE_IP;
          send_ip now rs new_packet next_hop (if_name iface_struct)
        })
   }"

definition process_icmp_echo_reply_packet :: "int \<Rightarrow> router_state \<Rightarrow> packet \<Rightarrow> int \<times> router_state" where
  "process_icmp_echo_reply_packet now rs packet =
     (1, rs\<lparr>rs_sping_queue := rs_sping_queue rs @
       [\<lparr>sqe_packet = packet, sqe_arrival_time = now\<rparr>]\<rparr>)"

definition icmp_type_of :: "packet \<Rightarrow> u8" where "icmp_type_of p = ld8 p get_icmp_hdr"

definition process_icmp_packet :: "int \<Rightarrow> router_state \<Rightarrow> packet \<Rightarrow> router_state option" where
  "process_icmp_packet now rs packet = do {
     rs \<leftarrow> (if icmp_type_of packet = ICMP_TYPE_ECHO_REQUEST
            then map_option snd (send_icmp_packet now rs packet ICMP_TYPE_ECHO_REPLY ICMP_CODE_ECHO)
            else Some rs);
     (if icmp_type_of packet = ICMP_TYPE_ECHO_REPLY
      then Some (snd (process_icmp_echo_reply_packet now rs packet))
      else Some rs)
   }"

text \<open>A null interface is dereferenced here, where \<^verbatim>\<open>send_icmp_packet\<close> asserts.\<close>

definition send_icmp_echo_request_packet ::
  "int \<Rightarrow> router_state \<Rightarrow> u32 \<Rightarrow> u16 \<Rightarrow> (int \<times> router_state) option" where
  "send_icmp_echo_request_packet now rs dst ident = do {
     let icmp_payload_len = 60;
     let icmp_payload_offset = ETH_HDR_LEN + sizeof_ip_hdr + sizeof_icmp_hdr;
     let packet = replicate (icmp_payload_offset + icmp_payload_len) 0;
     (case get_next_hop 32 rs dst of
        None \<Rightarrow> Some (1, rs)
      | Some (next_hop, iface) \<Rightarrow> do {
          iface_struct \<leftarrow> get_iface rs iface;
          let icmp_payload = replicate icmp_payload_len 0;
          let icmp_payload = st16 icmp_payload 0 ident;
          let icmp_payload = populate_padding icmp_payload 4 (icmp_payload_len - 4);
          let packet = populate_icmp packet get_icmp_hdr ICMP_TYPE_ECHO_REQUEST ICMP_CODE_ECHO icmp_payload;
          let (c, packet) = compute_icmp_checksum packet get_icmp_hdr (int icmp_payload_len);
          let packet = st16 packet (get_icmp_hdr + 2) (htons c);
          let packet = populate_ip packet get_ip_hdr (of_nat (sizeof_icmp_hdr + icmp_payload_len))
                IP_PROTO_ICMP (if_ip iface_struct) dst;
          let (c, packet) = compute_ip_checksum packet get_ip_hdr;
          let packet = st16 packet (get_ip_hdr + 10) (htons c);
          let packet = populate_eth_hdr packet None (if_addr iface_struct) ETH_TYPE_IP;
          send_ip now rs packet next_hop (if_name iface_struct)
        })
   }"

subsection \<open>The frames\<close>

text \<open>The steps that every sender ends with: IP header, its checksum, and Ethernet header.\<close>

definition ip_frame :: "packet \<Rightarrow> u16 \<Rightarrow> u8 \<Rightarrow> u32 \<Rightarrow> u32 \<Rightarrow> u8 list \<Rightarrow> packet" where
  "ip_frame p n proto src dst mac =
     (let p = populate_ip p get_ip_hdr n proto src dst;
          (c, p) = compute_ip_checksum p get_ip_hdr
      in populate_eth_hdr (st16 p (get_ip_hdr + 10) (htons c)) None mac ETH_TYPE_IP)"

definition icmp_message :: "packet \<Rightarrow> u8 \<Rightarrow> u8 \<Rightarrow> u8 list \<Rightarrow> packet" where
  "icmp_message p icmp_type icmp_code payload =
     (let p = populate_icmp p get_icmp_hdr icmp_type icmp_code payload;
          (c, p) = compute_icmp_checksum p get_icmp_hdr (int (length payload))
      in st16 p (get_icmp_hdr + 2) (htons c))"

text \<open>A frame that carries a well-formed IPv4 packet.\<close>

definition ip_frame_ok :: "packet \<Rightarrow> u8 \<Rightarrow> u32 \<Rightarrow> u32 \<Rightarrow> u8 list \<Rightarrow> bool" where
  "ip_frame_ok f proto src dst mac \<longleftrightarrow>
     eth_shost f = mac \<and> ntohs (eth_type f) = ETH_TYPE_IP \<and>
     ip_v f get_ip_hdr = 4 \<and> ip_hl f get_ip_hdr = 5 \<and> ip_ttl f get_ip_hdr = 64 \<and>
     ntohs (ip_len f get_ip_hdr) = of_nat (length f - ETH_HDR_LEN) \<and>
     ip_p f get_ip_hdr = proto \<and> ip_src f get_ip_hdr = src \<and> ip_dst f get_ip_hdr = dst \<and>
     verify_checksum f get_ip_hdr 20 = 0"

lemma ip_frame_fields:
  assumes "34 \<le> length p" and "length mac = 6" and n: "n = of_nat (length p - 34)"
  shows "ip_frame_ok (ip_frame p n proto src dst mac) proto src dst mac"
    and "34 \<le> j \<Longrightarrow> ld8 (ip_frame p n proto src dst mac) j = ld8 p j"
    and "length (ip_frame p n proto src dst mac) = length p"
proof -
  let ?q = "populate_ip p 14 n proto src dst"
  obtain c r where c: "compute_ip_checksum ?q 14 = (c, r)" by (cases "compute_ip_checksum ?q 14")
  then have r: "r = st16 ?q 24 0" by (auto simp: compute_ip_checksum_def Let_def)
  let ?s = "st16 r 24 (htons c)"
  have f: "ip_frame p n proto src dst mac = populate_eth_hdr ?s None mac ETH_TYPE_IP"
    by (simp add: ip_frame_def hdr_offsets c Let_def)
  have len: "length r = length p" by (simp add: r)
  have eth: "ld8 (populate_eth_hdr ?s None mac ETH_TYPE_IP) j = ld8 ?s j" if "14 \<le> j" for j
    using that assms(2) by (simp add: populate_eth_hdr_def mem_simps)
  have s: "ld8 ?s j = ld8 ?q j" if "j \<noteq> 24" "j \<noteq> 25" for j
    using that by (auto simp: r ld8_st16)
  note q = populate_ip_fields [of 14 p n proto src dst]
  have "3 \<le> unat (ip_hl ?q 14)" "4 * unat (ip_hl ?q 14) = 20" using q(1) assms(1) by simp_all
  then have "verify_checksum ?s 14 20 = 0"
    using ip_checksum_valid [OF _ _ c] assms(1) by simp
  then have "verify_checksum (populate_eth_hdr ?s None mac ETH_TYPE_IP) 14 20 = 0"
    by (subst verify_checksum_cong [of _ _ _ ?s]) (simp_all add: eth)
  moreover have "20 + n = of_nat (length p - 14)"
    using assms(1) n by (simp add: of_nat_diff)
  moreover have "eth_shost (populate_eth_hdr ?s None mac ETH_TYPE_IP) = mac"
    "ntohs (eth_type (populate_eth_hdr ?s None mac ETH_TYPE_IP)) = ETH_TYPE_IP"
    using assms len by (simp_all add: populate_eth_hdr_def eth_shost_def eth_type_def mem_simps)
  ultimately show "ip_frame_ok (ip_frame p n proto src dst mac) proto src dst mac"
    using q assms(1)
    by (simp add: f ip_frame_ok_def hdr_offsets ip_fields ld16_def ld32_def eth s len)
  show "34 \<le> j \<Longrightarrow> ld8 (ip_frame p n proto src dst mac) j = ld8 p j"
    by (simp add: f eth s populate_ip_other)
  show "length (ip_frame p n proto src dst mac) = length p" by (simp add: f r)
qed

lemma icmp_message_fields:
  assumes "length p = 38 + length payload" and "length payload \<le> 60000"
  shows "verify_checksum (icmp_message p ty co payload) 34 (4 + length payload) = 0"
    and "ld8 (icmp_message p ty co payload) 34 = ty"
    and "ld8 (icmp_message p ty co payload) 35 = co"
    and "ld_bytes (icmp_message p ty co payload) 38 (length payload) = payload"
    and "length (icmp_message p ty co payload) = length p"
proof -
  let ?q = "populate_icmp p 34 ty co payload"
  obtain c r where c: "compute_icmp_checksum ?q 34 (int (length payload)) = (c, r)"
    by (cases "compute_icmp_checksum ?q 34 (int (length payload))")
  then have r: "r = st16 ?q 36 0" by (auto simp: compute_icmp_checksum_def Let_def)
  have m: "icmp_message p ty co payload = st16 r 36 (htons c)"
    by (simp add: icmp_message_def hdr_offsets c Let_def)
  show "verify_checksum (icmp_message p ty co payload) 34 (4 + length payload) = 0"
    using icmp_checksum_valid [OF c] assms by (simp add: m)
  show "ld8 (icmp_message p ty co payload) 34 = ty" "ld8 (icmp_message p ty co payload) 35 = co"
    "ld_bytes (icmp_message p ty co payload) 38 (length payload) = payload"
    "length (icmp_message p ty co payload) = length p"
    using assms by (simp_all add: m r populate_icmp_def Let_def hdr_sizes mem_simps)
qed

text \<open>An ICMP message in an IP packet.\<close>

definition icmp_frame_ok :: "packet \<Rightarrow> u8 \<Rightarrow> u8 \<Rightarrow> u8 list \<Rightarrow> bool" where
  "icmp_frame_ok f ty co payload \<longleftrightarrow>
     length f = 38 + length payload \<and> ld8 f get_icmp_hdr = ty \<and> ld8 f (get_icmp_hdr + 1) = co \<and>
     ld_bytes f (get_icmp_hdr + sizeof_icmp_hdr) (length payload) = payload \<and>
     verify_checksum f get_icmp_hdr (length f - get_icmp_hdr) = 0"

lemma icmp_frame:
  assumes "length p = 38 + length payload" and "length payload \<le> 60000" and "length mac = 6"
    and n: "n = of_nat (4 + length payload)"
  shows "ip_frame_ok (ip_frame (icmp_message p ty co payload) n proto src dst mac) proto src dst mac"
    and "icmp_frame_ok (ip_frame (icmp_message p ty co payload) n proto src dst mac) ty co payload"
proof -
  let ?m = "icmp_message p ty co payload"
  note m = icmp_message_fields [OF assms(1,2), of ty co]
  have len: "34 \<le> length ?m" "n = of_nat (length ?m - 34)" using m(5) assms(1) n by simp_all
  note f = ip_frame_fields [OF len(1) assms(3) len(2), where proto = proto and src = src and dst = dst]
  show "ip_frame_ok (ip_frame ?m n proto src dst mac) proto src dst mac" by (rule f(1))
  have "verify_checksum (ip_frame ?m n proto src dst mac) 34 (4 + length payload) = 0"
    by (subst verify_checksum_cong [of _ _ _ ?m]) (simp_all add: f(2) m(1))
  moreover have "ld_bytes (ip_frame ?m n proto src dst mac) 38 (length payload) =
      ld_bytes ?m 38 (length payload)"
    by (simp add: ld_bytes_def f(2))
  ultimately show "icmp_frame_ok (ip_frame ?m n proto src dst mac) ty co payload"
    using m f(3) assms(1) by (simp add: icmp_frame_ok_def hdr_offsets f(2))
qed

subsection \<open>What is sent\<close>

lemma send_icmp_packet_frame:
  assumes echo: "icmp_type = ICMP_TYPE_ECHO_REPLY \<Longrightarrow> 38 \<le> length p \<and> length p \<le> 60000"
    and macs: "\<forall>i\<in>set (rs_if_list rs). length (if_addr i) = 6"
  shows "case get_next_hop 32 rs (ip_src p get_ip_hdr) of
      None \<Rightarrow> send_icmp_packet now rs p icmp_type icmp_code = Some (1, rs)
    | Some (hop, ifc) \<Rightarrow> (case get_iface rs ifc of
        None \<Rightarrow> send_icmp_packet now rs p icmp_type icmp_code = None
      | Some i \<Rightarrow> \<exists>f. send_icmp_packet now rs p icmp_type icmp_code = send_ip now rs f hop (if_name i) \<and>
          ip_frame_ok f IP_PROTO_ICMP
            (if icmp_type = ICMP_TYPE_ECHO_REPLY \<or>
                icmp_type = ICMP_TYPE_DESTINATION_UNREACHABLE \<and> icmp_code = ICMP_CODE_PORT_UNREACHABLE
             then ip_dst p get_ip_hdr else if_ip i)
            (ip_src p get_ip_hdr) (if_addr i) \<and>
          icmp_frame_ok f icmp_type icmp_code
            (if icmp_type = ICMP_TYPE_ECHO_REPLY then drop 38 p
             else replicate 4 0 @ ld_bytes p get_ip_hdr 28))"
proof (cases "get_next_hop 32 rs (ip_src p get_ip_hdr)")
  case None
  then show ?thesis by (simp add: send_icmp_packet_def Let_def split: prod.split)
next
  case (Some r)
  obtain hop ifc where r: "r = (hop, ifc)" by (cases r)
  show ?thesis
  proof (cases "get_iface rs ifc")
    case None
    with Some r show ?thesis by (simp add: send_icmp_packet_def Let_def split: prod.split)
  next
    case i: (Some i)
    let ?src = "if icmp_type = ICMP_TYPE_ECHO_REPLY \<or>
        icmp_type = ICMP_TYPE_DESTINATION_UNREACHABLE \<and> icmp_code = ICMP_CODE_PORT_UNREACHABLE
      then ip_dst p get_ip_hdr else if_ip i"
    let ?payload = "if icmp_type = ICMP_TYPE_ECHO_REPLY then drop 38 p
      else replicate 4 0 @ ld_bytes p get_ip_hdr 28"
    let ?new = "replicate (38 + length ?payload) 0"
    let ?n = "of_nat (4 + length ?payload)"
    let ?f = "ip_frame (icmp_message ?new icmp_type icmp_code ?payload) ?n IP_PROTO_ICMP ?src
      (ip_src p get_ip_hdr) (if_addr i)"
    have mac: "length (if_addr i) = 6" using macs get_iface_Some [OF i] by blast
    have short: "length ?payload \<le> 60000" using echo by auto
    have "send_icmp_packet now rs p icmp_type icmp_code = send_ip now rs ?f hop (if_name i)"
    proof (cases "icmp_type = ICMP_TYPE_ECHO_REPLY")
      case True
      with echo obtain m where m: "length p = 38 + m" by (auto simp: le_iff_add)
      then have "ld_bytes p 38 m = drop 38 p"
        by (auto simp: ld_bytes_def ld8_def intro!: nth_equalityI)
      with True Some r i m show ?thesis
        by (simp add: send_icmp_packet_def ip_frame_def icmp_message_def hdr_offsets split_beta
            Let_def)
    next
      case False
      with Some r i show ?thesis
        by (simp add: send_icmp_packet_def ip_frame_def icmp_message_def hdr_offsets split_beta
            Let_def)
    qed
    moreover have "ip_frame_ok ?f IP_PROTO_ICMP ?src (ip_src p get_ip_hdr) (if_addr i)"
      by (rule icmp_frame(1)) (use mac short in simp_all)
    moreover have "icmp_frame_ok ?f icmp_type icmp_code ?payload"
      by (rule icmp_frame(2)) (use mac short in simp_all)
    ultimately show ?thesis using Some r i by auto
  qed
qed


text \<open>A router with a default route out of its interface, and an echo request to it.\<close>

definition rs2 :: router_state where
  "rs2 = rs1\<lparr>rs_rtable := [\<lparr>re_ip = 0, re_gw = 0x0200000a, re_mask = 0, re_iface = ''eth0'',
     re_is_static = True, re_is_active = True\<rparr>]\<rparr>"

definition echo_request_pkt :: packet where
  "echo_request_pkt = [2, 0, 0, 0, 0, 1, 7, 7, 7, 7, 7, 7, 8, 0,
     0x45, 0, 0, 28, 0, 0, 0, 0, 64, 1, 0x66, 0xd8, 10, 0, 0, 9, 10, 0, 0, 1,
     8, 0, 0xe6, 0xfb, 0x11, 2, 0, 2]"

lemma rs2_next_hop: "get_next_hop n rs2 d = Some (0x0200000a, take n ''eth0'')"
  by (simp add: get_next_hop_def rs2_def route_matches_def count_bits_nonneg
      less_le_trans [of "-1" 0])

lemma rs2_iface: "get_iface rs2 ''eth0'' = Some eth0_iface"
  by (simp add: get_iface_def rs2_def rs1_def strncmp_eq_def eth0_iface_def)


end
