(* ===== verification/Or_Pwospf.thy ===== *)
theory Or_Pwospf
  imports Or_Dijkstra Or_Icmp
begin

section \<open>The link state protocol (\<^verbatim>\<open>or_pwospf.c\<close>, \<^verbatim>\<open>or_iface.c\<close>)\<close>

text \<open>
  PWOSPF: validity of packets, the advertisements and the link state database, the flooding of
  updates, hellos and neighbour timeouts, the steps of the protocol's threads, and the changes
  of an interface's state that trigger a flood. Identifiers of routers and addresses are the
  words in network order that the code keeps.
\<close>

subsection \<open>Validity\<close>

definition pwospf_type_of :: "packet \<Rightarrow> nat \<Rightarrow> u8" where "pwospf_type_of p o1 = ld8 p (o1 + 1)"
definition pwospf_len_of :: "packet \<Rightarrow> nat \<Rightarrow> u16" where "pwospf_len_of p o1 = ld16 p (o1 + 2)"
definition pwospf_rid_of :: "packet \<Rightarrow> nat \<Rightarrow> u32" where "pwospf_rid_of p o1 = ld32 p (o1 + 4)"
definition pwospf_aid_of :: "packet \<Rightarrow> nat \<Rightarrow> u32" where "pwospf_aid_of p o1 = ld32 p (o1 + 8)"
definition pwospf_sum_of :: "packet \<Rightarrow> nat \<Rightarrow> u16" where "pwospf_sum_of p o1 = ld16 p (o1 + 12)"
definition lsu_seq_of :: "packet \<Rightarrow> u16" where "lsu_seq_of p = ntohs (ld16 p get_pwospf_lsu_hdr)"
definition lsu_ttl_of :: "packet \<Rightarrow> u16" where "lsu_ttl_of p = ntohs (ld16 p (get_pwospf_lsu_hdr + 2))"
definition lsu_num_of :: "packet \<Rightarrow> u32" where "lsu_num_of p = ntohl (ld32 p (get_pwospf_lsu_hdr + 4))"

lemmas pwospf_fields = pwospf_type_of_def pwospf_len_of_def pwospf_rid_of_def pwospf_aid_of_def
  pwospf_sum_of_def lsu_seq_of_def lsu_ttl_of_def lsu_num_of_def

text \<open>The check clears the checksum field of the packet, which its callers go on to use.\<close>

definition is_pwospf_packet_valid :: "router_state \<Rightarrow> packet \<Rightarrow> int \<times> packet" where
  "is_pwospf_packet_valid rs packet =
     (let pwospf = get_pwospf_hdr
      in if ld8 packet pwospf \<noteq> 2 then (0, packet)
         else (let pckt_sum = htons (pwospf_sum_of packet pwospf);
                   (sum, packet) = compute_pwospf_checksum packet pwospf
               in if pckt_sum \<noteq> sum then (0, packet)
                  else if ntohs (ld16 packet (pwospf + 14)) \<noteq> 0 then (0, packet)
                  else if ntohl (pwospf_aid_of packet pwospf) \<noteq> rs_area_id rs then (0, packet)
                  else if ntohl (pwospf_rid_of packet pwospf) = rs_router_id rs then (0, packet)
                  else (1, packet)))"

subsection \<open>Advertisements\<close>

text \<open>An advertisement in a packet: subnet, mask and router.\<close>

type_synonym lsu_adv = "u32 \<times> u32 \<times> u32"

definition read_adv :: "packet \<Rightarrow> nat \<Rightarrow> nat \<Rightarrow> lsu_adv" where
  "read_adv p data i = (ld32 p (data + 12 * i), ld32 p (data + 12 * i + 4), ld32 p (data + 12 * i + 8))"

definition read_advs :: "packet \<Rightarrow> lsu_adv list" where
  "read_advs p = map (read_adv p get_pwospf_lsu_data) [0..<unat (lsu_num_of p)]"

definition adv_matches :: "lsu_adv \<Rightarrow> pwospf_interface \<Rightarrow> bool" where
  "adv_matches adv entry = (case adv of (sub, msk, rid) \<Rightarrow>
     pi_subnet entry = sub AND msk \<and> pi_mask entry = msk \<and> pi_router_id entry = rid)"

text \<open>A new advertisement is stored with \<^verbatim>\<open>sub & sub\<close>, not \<^verbatim>\<open>sub & mask\<close>.\<close>

fun add_new_advs :: "lsu_adv list \<Rightarrow> pwospf_interface list \<Rightarrow> int \<Rightarrow> pwospf_interface list \<times> int" where
  "add_new_advs [] interface_list changed_list = (interface_list, changed_list)"
| "add_new_advs ((sub, msk, rid) # advs) interface_list changed_list =
     (if \<exists>entry\<in>set interface_list. adv_matches (sub, msk, rid) entry
      then add_new_advs advs interface_list changed_list
      else add_new_advs advs
        (interface_list @ [\<lparr>pi_subnet = sub AND sub, pi_mask = msk, pi_router_id = rid, pi_is_active = False\<rparr>]) 1)"

fun remove_missing_advs ::
  "lsu_adv list \<Rightarrow> pwospf_interface list \<Rightarrow> int \<Rightarrow> pwospf_interface list \<times> int" where
  "remove_missing_advs advs [] changed_list = ([], changed_list)"
| "remove_missing_advs advs (entry # walker) changed_list =
     (if \<exists>adv\<in>set advs. adv_matches adv entry
      then (let (l, c) = remove_missing_advs advs walker changed_list in (entry # l, c))
      else remove_missing_advs advs walker 1)"

definition populate_pwospf_router_interface_list ::
  "pwospf_router \<Rightarrow> packet \<Rightarrow> int \<times> pwospf_router" where
  "populate_pwospf_router_interface_list router packet =
     (let advs = read_advs packet
      in if r_interface_list router = [] then
           (1, router\<lparr>r_interface_list := map (\<lambda>(sub, msk, rid).
              \<lparr>pi_subnet = sub AND msk, pi_mask = msk, pi_router_id = rid, pi_is_active = False\<rparr>) advs\<rparr>)
         else
           (let (l, changed_list) = add_new_advs advs (r_interface_list router) 0;
                (l, changed_list) = remove_missing_advs advs l changed_list
            in (changed_list, router\<lparr>r_interface_list := l\<rparr>)))"

definition add_new_router_neighbor :: "int \<Rightarrow> router_state \<Rightarrow> packet \<Rightarrow> router_state" where
  "add_new_router_neighbor now rs packet =
     (let pwospf = get_pwospf_hdr;
          new_router = \<lparr>r_router_id = pwospf_rid_of packet pwospf,
            r_area_id = ntohl (pwospf_aid_of packet pwospf), r_seq = lsu_seq_of packet,
            r_last_update = now, r_distance = 0, r_shortest_path_found = False,
            r_interface_list = [], r_prev_router = None\<rparr>;
          (_, new_router) = populate_pwospf_router_interface_list new_router packet
      in rs\<lparr>rs_router_list := rs_router_list rs @ [new_router]\<rparr>)"

subsection \<open>Active links\<close>

definition iface_links :: "pwospf_interface \<Rightarrow> pwospf_interface \<Rightarrow> bool" where
  "iface_links pi_this pi_another \<longleftrightarrow>
     pi_subnet pi_this = pi_subnet pi_another \<and> pi_mask pi_this = pi_mask pi_another \<and>
     \<not> (pi_router_id pi_this = 0 \<or> pi_router_id pi_another = 0)"

text \<open>The interface at a position of the list of a router.\<close>

definition set_iface_active :: "u32 \<Rightarrow> nat \<Rightarrow> bool \<Rightarrow> pwospf_router list \<Rightarrow> pwospf_router list" where
  "set_iface_active rid j b = upd_first (\<lambda>r. r_router_id r = rid)
     (\<lambda>r. r\<lparr>r_interface_list := (r_interface_list r)[j := (r_interface_list r ! j)\<lparr>pi_is_active := b\<rparr>]\<rparr>)"

definition activate_links :: "u32 \<Rightarrow> nat \<Rightarrow> pwospf_interface \<Rightarrow> pwospf_router \<Rightarrow>
    pwospf_router list \<Rightarrow> pwospf_router list" where
  "activate_links rid j pi_this another_router l =
     foldl (\<lambda>l t. if iface_links pi_this (r_interface_list another_router ! t)
                  then set_iface_active (r_router_id another_router) t True (set_iface_active rid j True l)
                  else l) l [0..<length (r_interface_list another_router)]"

definition determine_active_interface :: "u32 \<Rightarrow> nat \<Rightarrow> pwospf_interface \<Rightarrow> pwospf_router list \<Rightarrow> pwospf_router list" where
  "determine_active_interface rid j pi_this l =
     (let l = set_iface_active rid j False l
      in case get_router_by_rid (pi_router_id pi_this) l of
           None \<Rightarrow> l
         | Some another_router \<Rightarrow> activate_links rid j pi_this another_router l)"

definition determine_active_interfaces :: "pwospf_router \<Rightarrow> pwospf_router list \<Rightarrow> pwospf_router list" where
  "determine_active_interfaces router l =
     foldl (\<lambda>l j. determine_active_interface (r_router_id router) j (r_interface_list router ! j) l) l
       [0..<length (r_interface_list router)]"

subsection \<open>Link state updates\<close>

text \<open>Our advertisements, one for each interface of our router.\<close>

definition construct_pwospf_lsu_adv :: "router_state \<Rightarrow> lsu_adv list option" where
  "construct_pwospf_lsu_adv rs = do {
     r \<leftarrow> get_router_by_rid (rs_router_id rs) (rs_router_list rs);
     Some (map (\<lambda>iface. (pi_subnet iface, pi_mask iface, pi_router_id iface)) (r_interface_list r))
   }"

fun store_advs :: "packet \<Rightarrow> nat \<Rightarrow> lsu_adv list \<Rightarrow> packet" where
  "store_advs p a [] = p"
| "store_advs p a ((sub, msk, rid) # advs) =
     store_advs (st32 (st32 (st32 p a sub) (a + 4) msk) (a + 8) rid) (a + 12) advs"

definition upd_router :: "u32 \<Rightarrow> (pwospf_router \<Rightarrow> pwospf_router) \<Rightarrow> router_state \<Rightarrow> router_state" where
  "upd_router rid f rs = rs\<lparr>rs_router_list := upd_first (\<lambda>r. r_router_id r = rid) f (rs_router_list rs)\<rparr>"

definition construct_pwospf_lsu_packet :: "int \<Rightarrow> router_state \<Rightarrow> (packet \<times> router_state) option" where
  "construct_pwospf_lsu_packet now rs = do {
     our_router \<leftarrow> get_router_by_rid (rs_router_id rs) (rs_router_list rs);
     advs \<leftarrow> construct_pwospf_lsu_adv rs;
     let len = sizeof_pwospf_hdr + sizeof_pwospf_lsu_hdr + length advs * sizeof_pwospf_lsu_adv;
     let packet = replicate len 0;
     let packet = populate_pwospf packet 0 PWOSPF_TYPE_LINK_STATE_UPDATE (of_nat len) (rs_router_id rs) (rs_area_id rs);
     let packet = populate_pwospf_lsu packet sizeof_pwospf_hdr (r_seq our_router) (of_nat (length advs));
     let packet = store_advs packet (sizeof_pwospf_hdr + sizeof_pwospf_lsu_hdr) advs;
     let (c, packet) = compute_pwospf_checksum packet 0;
     let packet = st16 packet 12 (htons c);
     Some (packet, upd_router (rs_router_id rs) (\<lambda>r. r\<lparr>r_last_update := now, r_seq := r_seq r + 1\<rparr>) rs)
   }"

text \<open>The frame that carries a PWOSPF packet to a neighbour of an interface.\<close>

definition lsu_frame :: "packet \<Rightarrow> iface_entry \<Rightarrow> nbr_router \<Rightarrow> packet" where
  "lsu_frame pwospf iface nbr =
     (let plen = unat (ntohs (pwospf_len_of pwospf 0));
          packet = replicate (ETH_HDR_LEN + sizeof_ip_hdr + plen) 0;
          packet = st_bytes packet get_pwospf_hdr (ld_bytes pwospf 0 plen);
          packet = populate_ip packet get_ip_hdr (ntohs (pwospf_len_of pwospf 0)) IP_PROTO_PWOSPF
                     (if_ip iface) (nbr_ip nbr);
          (c, packet) = compute_ip_checksum packet get_ip_hdr;
          packet = st16 packet (get_ip_hdr + 10) (htons c)
      in populate_eth_hdr packet None (if_addr iface) ETH_TYPE_IP)"

definition lsu_queue_entries :: "packet \<Rightarrow> u32 option \<Rightarrow> iface_entry \<Rightarrow> pwospf_lsu_queue_entry list" where
  "lsu_queue_entries pwospf src_ip iface =
     (if if_is_active iface \<and> if_nbr_routers iface \<noteq> [] then
        map (\<lambda>nbr. \<lparr>lqe_ip = if_ip iface, lqe_iface = take IF_LEN (if_name iface),
                    lqe_packet = lsu_frame pwospf iface nbr\<rparr>)
          (filter (\<lambda>nbr. src_ip = None \<or> src_ip \<noteq> Some (nbr_ip nbr)) (if_nbr_routers iface))
      else [])"

definition broadcast_pwospf_lsu_packet :: "router_state \<Rightarrow> packet \<Rightarrow> u32 option \<Rightarrow> router_state" where
  "broadcast_pwospf_lsu_packet rs pwospf src_ip =
     foldl (\<lambda>rs iface. rs\<lparr>rs_lsu_queue := rs_lsu_queue rs @ lsu_queue_entries pwospf src_ip iface\<rparr>)
       rs (rs_if_list rs)"

definition start_lsu_bcast_flood :: "int \<Rightarrow> router_state \<Rightarrow> router_state option" where
  "start_lsu_bcast_flood now rs =
     (if \<not> rs_lsu_broadcast rs then Some rs
      else do {
        (pwospf_packet, rs) \<leftarrow> construct_pwospf_lsu_packet now rs;
        let rs = broadcast_pwospf_lsu_packet rs pwospf_packet None;
        Some (upd_router (rs_router_id rs) (\<lambda>r. r\<lparr>r_last_update := now\<rparr>) rs)
      })"

text \<open>The routers are visited in order; their identifiers and interfaces stay in place.\<close>

definition propagate_pwospf_changes :: "int \<Rightarrow> router_state \<Rightarrow> router_state option" where
  "propagate_pwospf_changes now rs =
     (let rs = rs\<lparr>rs_router_list :=
            foldl (\<lambda>l router. determine_active_interfaces router l) (rs_router_list rs) (rs_router_list rs)\<rparr>;
          rs = dijkstra_trigger rs
      in start_lsu_bcast_flood now rs)"

text \<open>Forwarding a copy of an update to the other neighbours, with the given TTL.\<close>

definition rebroadcast_lsu :: "router_state \<Rightarrow> packet \<Rightarrow> u16 \<Rightarrow> router_state" where
  "rebroadcast_lsu rs packet ttl =
     (let pwospf = get_pwospf_hdr;
          bcasted = ld_bytes packet pwospf (unat (ntohs (pwospf_len_of packet pwospf)));
          bcasted = st16 bcasted (sizeof_pwospf_hdr + 2) (htons ttl);
          (c, bcasted) = compute_pwospf_checksum bcasted 0;
          bcasted = st16 bcasted 12 (htons c)
      in broadcast_pwospf_lsu_packet rs bcasted (Some (ip_src packet get_ip_hdr)))"

definition process_pwospf_lsu_packet :: "int \<Rightarrow> router_state \<Rightarrow> packet \<Rightarrow> router_state option" where
  "process_pwospf_lsu_packet now rs packet =
     (let pwospf = get_pwospf_hdr; rid = pwospf_rid_of packet pwospf
      in if rs_router_id rs = rid then Some rs
         else do {
           let (rebroadcast_packet, update_neighbors, rs) =
             (case get_router_by_rid rid (rs_router_list rs) of
                Some router \<Rightarrow>
                  if r_seq router \<noteq> lsu_seq_of packet \<and> lsu_seq_of packet > r_seq router
                  then (let router = router\<lparr>r_last_update := now, r_seq := lsu_seq_of packet\<rparr>;
                            (changed, router) = populate_pwospf_router_interface_list router packet
                        in (True, changed = 1, upd_router rid (\<lambda>_. router) rs))
                  else (False, False, rs)
              | None \<Rightarrow> (True, True, add_new_router_neighbor now rs packet));
           let ttl = lsu_ttl_of packet - 1;
           let rs = (if rebroadcast_packet \<and> ttl > 0 then rebroadcast_lsu rs packet ttl else rs);
           (if update_neighbors then propagate_pwospf_changes now rs else Some rs)
         })"

subsection \<open>Hellos and neighbours\<close>

text \<open>Rewriting the last element with a property: the walk keeps its latest match.\<close>

definition upd_last :: "('a \<Rightarrow> bool) \<Rightarrow> ('a \<Rightarrow> 'a) \<Rightarrow> 'a list \<Rightarrow> 'a list" where
  "upd_last P f xs = rev (upd_first P f (rev xs))"

definition upd_iface :: "string \<Rightarrow> (iface_entry \<Rightarrow> iface_entry) \<Rightarrow> router_state \<Rightarrow> router_state" where
  "upd_iface name f rs = rs\<lparr>rs_if_list :=
     upd_first (\<lambda>sr_if. strncmp_eq name (if_name sr_if) SR_NAMELEN) f (rs_if_list rs)\<rparr>"

definition iface_subnet :: "iface_entry \<Rightarrow> u32" where
  "iface_subnet iface = if_ip iface AND if_mask iface"

definition on_iface :: "iface_entry \<Rightarrow> pwospf_interface \<Rightarrow> bool" where
  "on_iface iface pi1 \<longleftrightarrow> pi_subnet pi1 = iface_subnet iface \<and> pi_mask pi1 = if_mask iface"

text \<open>Entering a new neighbour of an interface in our own entry of the router list.\<close>

definition add_neighbor_interface :: "iface_entry \<Rightarrow> u32 \<Rightarrow> pwospf_router \<Rightarrow> pwospf_router option" where
  "add_neighbor_interface iface rid r =
     (if \<exists>i\<in>set (r_interface_list r). on_iface iface i \<and> pi_router_id i = 0
      then Some (r\<lparr>r_interface_list := upd_first (\<lambda>i. on_iface iface i \<and> pi_router_id i = 0)
             (\<lambda>i. i\<lparr>pi_router_id := rid\<rparr>) (r_interface_list r)\<rparr>)
      else if r_interface_list r = [] then None
      else Some (r\<lparr>r_interface_list := r_interface_list r @
             [\<lparr>pi_subnet = iface_subnet iface, pi_mask = if_mask iface, pi_router_id = rid,
               pi_is_active = False\<rparr>]\<rparr>))"

text \<open>
  The packet with another mask is dropped without releasing the mutex of the router list; what
  a deadlocked router does afterwards is outside the model.
\<close>

definition process_pwospf_hello_packet ::
  "int \<Rightarrow> router_state \<Rightarrow> packet \<Rightarrow> string \<Rightarrow> router_state option" where
  "process_pwospf_hello_packet now rs packet interface =
     (let hello_hdr = get_pwospf_hello_hdr; rid = pwospf_rid_of packet get_pwospf_hdr;
          src = ip_src packet get_ip_hdr
      in if rs_hello_interval rs \<noteq> ntohs (ld16 packet (hello_hdr + 4)) then Some rs
         else do {
           iface \<leftarrow> get_iface rs interface;
           (if if_mask iface \<noteq> ld32 packet hello_hdr then Some rs
            else
              (let is_match = (\<lambda>nbr. nbr_ip nbr = src \<and> nbr_router_id nbr = rid)
               in if \<exists>nbr\<in>set (if_nbr_routers iface). is_match nbr
                  then Some (upd_iface interface (\<lambda>i. i\<lparr>if_nbr_routers :=
                    upd_last is_match (\<lambda>nbr. nbr\<lparr>nbr_last_rcvd_hello := now\<rparr>) (if_nbr_routers i)\<rparr>) rs)
                  else do {
                    let nbr = \<lparr>nbr_router_id = rid, nbr_ip = src, nbr_last_rcvd_hello = now\<rparr>;
                    let rs = upd_iface interface (\<lambda>i. i\<lparr>if_nbr_routers := if_nbr_routers i @ [nbr]\<rparr>) rs;
                    r \<leftarrow> get_router_by_rid (rs_router_id rs) (rs_router_list rs);
                    r \<leftarrow> add_neighbor_interface iface rid r;
                    propagate_pwospf_changes now (upd_router (rs_router_id rs) (\<lambda>_. r) rs)
                  }))
         })"

text \<open>
  Removing a neighbour that timed out from our entry in the router list: zeroing the
  identifier when the subnet has one entry, deleting the entry otherwise.
\<close>

definition drop_neighbor_interface :: "iface_entry \<Rightarrow> u32 \<Rightarrow> pwospf_router \<Rightarrow> pwospf_router option" where
  "drop_neighbor_interface iface rid our_router =
     (let count = length (filter (on_iface iface) (r_interface_list our_router))
      in if count = 0 then None
         else if count = 1 then
           Some (our_router\<lparr>r_interface_list := upd_first (on_iface iface)
             (\<lambda>i. i\<lparr>pi_router_id := 0\<rparr>) (r_interface_list our_router)\<rparr>)
         else
           (let is_nbr = (\<lambda>i. on_iface iface i \<and> rid = pi_router_id i);
                before = takeWhile (\<lambda>i. \<not> is_nbr i) (r_interface_list our_router);
                rest = dropWhile (\<lambda>i. \<not> is_nbr i) (r_interface_list our_router)
            in Some (our_router\<lparr>r_interface_list := before @ tl rest\<rparr>)))"

fun timedout_loop :: "int \<Rightarrow> u16 \<Rightarrow> u32 \<Rightarrow> iface_entry \<Rightarrow> nbr_router list \<Rightarrow>
    pwospf_router list \<Rightarrow> int \<Rightarrow> (nbr_router list \<times> pwospf_router list \<times> int) option" where
  "timedout_loop now hello our iface [] l has_timedout = Some ([], l, has_timedout)"
| "timedout_loop now hello our iface (nbr # cur) l has_timedout =
     (if now - nbr_last_rcvd_hello nbr > 3 * uint hello then do {
        our_router \<leftarrow> get_router_by_rid our l;
        our_router \<leftarrow> drop_neighbor_interface iface (nbr_router_id nbr) our_router;
        timedout_loop now hello our iface cur
          (upd_first (\<lambda>r. r_router_id r = our) (\<lambda>_. our_router) l) 1
      }
      else do {
        (nbrs, l, c) \<leftarrow> timedout_loop now hello our iface cur l has_timedout;
        Some (nbr # nbrs, l, c)
      })"

text \<open>The interface is the one at position \<open>k\<close> of the list.\<close>

definition determine_timedout_interface :: "int \<Rightarrow> router_state \<Rightarrow> nat \<Rightarrow> (int \<times> router_state) option" where
  "determine_timedout_interface now rs k = do {
     let iface = rs_if_list rs ! k;
     (nbrs, l, has_timedout) \<leftarrow> timedout_loop now (rs_hello_interval rs) (rs_router_id rs) iface
        (if_nbr_routers iface) (rs_router_list rs) 0;
     Some (has_timedout, rs\<lparr>rs_router_list := l,
       rs_if_list := (rs_if_list rs)[k := iface\<lparr>if_nbr_routers := nbrs\<rparr>]\<rparr>)
   }"

definition hello_frame :: "router_state \<Rightarrow> iface_entry \<Rightarrow> packet" where
  "hello_frame rs ie =
     (let plen = sizeof_pwospf_hdr + sizeof_pwospf_hello_hdr;
          packet = replicate (ETH_HDR_LEN + sizeof_ip_hdr + plen) 0;
          packet = populate_pwospf_hello packet get_pwospf_hello_hdr (if_mask ie) (rs_hello_interval rs);
          packet = populate_pwospf packet get_pwospf_hdr PWOSPF_TYPE_HELLO (of_nat plen)
                     (rs_router_id rs) (rs_area_id rs);
          (c, packet) = compute_pwospf_checksum packet get_pwospf_hdr;
          packet = st16 packet (get_pwospf_hdr + 12) (htons c);
          packet = populate_ip packet get_ip_hdr (of_nat plen) IP_PROTO_PWOSPF (if_ip ie) (htonl PWOSPF_HELLO_TIP);
          (c, packet) = compute_ip_checksum packet get_ip_hdr;
          packet = st16 packet (get_ip_hdr + 10) (htons c)
      in populate_eth_hdr packet (Some (replicate 6 0xFF)) (if_addr ie) ETH_TYPE_IP)"

fun hello_loop :: "int \<Rightarrow> nat list \<Rightarrow> int \<Rightarrow> router_state \<Rightarrow> (int \<times> router_state) option" where
  "hello_loop now [] has_timedout rs = Some (has_timedout, rs)"
| "hello_loop now (k # ks) has_timedout rs =
     (let ie = rs_if_list rs ! k
      in if if_is_active ie then do {
           let (_, rs) = send_packet (hello_frame rs ie) (if_name ie) rs;
           let rs = rs\<lparr>rs_if_list := (rs_if_list rs)[k := ie\<lparr>if_last_sent_hello := now\<rparr>]\<rparr>;
           (c, rs) \<leftarrow> determine_timedout_interface now rs k;
           hello_loop now ks (if c = 1 then 1 else has_timedout) rs
         }
         else hello_loop now ks has_timedout rs)"

definition broadcast_pwospf_hello_packet :: "int \<Rightarrow> router_state \<Rightarrow> router_state option" where
  "broadcast_pwospf_hello_packet now rs = do {
     (has_timedout, rs) \<leftarrow> hello_loop now [0..<length (rs_if_list rs)] 0 rs;
     (if has_timedout = 1 then propagate_pwospf_changes now rs else Some rs)
   }"

definition process_pwospf_packet :: "int \<Rightarrow> router_state \<Rightarrow> packet \<Rightarrow> string \<Rightarrow> router_state option" where
  "process_pwospf_packet now rs packet interface =
     (let (valid, packet) = is_pwospf_packet_valid rs packet
      in if valid = 0 then Some rs
         else if pwospf_type_of packet get_pwospf_hdr = PWOSPF_TYPE_HELLO
         then process_pwospf_hello_packet now rs packet interface
         else if pwospf_type_of packet get_pwospf_hdr = PWOSPF_TYPE_LINK_STATE_UPDATE
         then process_pwospf_lsu_packet now rs packet
         else Some rs)"

subsection \<open>The threads\<close>

text \<open>The difference of times is an int, compared with the unsigned interval.\<close>

definition overdue :: "int \<Rightarrow> int \<Rightarrow> u32 \<Rightarrow> bool" where
  "overdue now prev interval \<longleftrightarrow> (of_int (now - prev) :: u32) > interval"

definition pwospf_lsu_step :: "int \<Rightarrow> router_state \<Rightarrow> router_state option" where
  "pwospf_lsu_step now rs =
     (case get_router_by_rid (rs_router_id rs) (rs_router_list rs) of
        None \<Rightarrow> Some rs
      | Some our_router \<Rightarrow>
          if overdue now (r_last_update our_router) (rs_lsu_interval rs)
          then start_lsu_bcast_flood now rs else Some rs)"

definition pwospf_lsu_timeout_step :: "int \<Rightarrow> router_state \<Rightarrow> router_state option" where
  "pwospf_lsu_timeout_step now rs =
     (let stays = (\<lambda>rl_entry. r_router_id rl_entry = rs_router_id rs \<or>
            \<not> overdue now (r_last_update rl_entry) (rs_lsu_interval rs * 3))
      in if \<forall>r\<in>set (rs_router_list rs). stays r then Some rs
         else propagate_pwospf_changes now (rs\<lparr>rs_router_list := filter stays (rs_router_list rs)\<rparr>))"

fun lsu_bcast_loop :: "int \<Rightarrow> pwospf_lsu_queue_entry list \<Rightarrow> router_state \<Rightarrow> router_state option" where
  "lsu_bcast_loop now [] rs = Some rs"
| "lsu_bcast_loop now (lqe # cur) rs =
     (case get_next_hop IF_LEN rs (ip_dst (lqe_packet lqe) get_ip_hdr) of
        Some (next_hop, next_hop_iface) \<Rightarrow> do {
          (_, rs) \<leftarrow> send_ip now rs (lqe_packet lqe) next_hop next_hop_iface;
          lsu_bcast_loop now cur rs
        }
      | None \<Rightarrow> lsu_bcast_loop now cur rs)"

definition pwospf_lsu_bcast_step :: "int \<Rightarrow> router_state \<Rightarrow> router_state option" where
  "pwospf_lsu_bcast_step now rs =
     lsu_bcast_loop now (rs_lsu_queue rs) (rs\<lparr>rs_lsu_queue := []\<rparr>)"

definition default_route_present :: "router_state \<Rightarrow> pwospf_interface option" where
  "default_route_present rs =
     map_option (\<lambda>re. \<lparr>pi_subnet = re_ip re AND re_mask re, pi_mask = re_mask re,
                       pi_router_id = 0, pi_is_active = False\<rparr>)
       (find (\<lambda>re. re_is_static re \<and> re_ip re = 0 \<and> re_mask re = 0) (rs_rtable rs))"

definition is_route_present :: "pwospf_router \<Rightarrow> pwospf_interface \<Rightarrow> bool" where
  "is_route_present router iface \<longleftrightarrow> (\<exists>pi1\<in>set (r_interface_list router).
     pi_subnet pi1 = pi_subnet iface \<and> pi_mask pi1 = pi_mask iface \<and> pi_router_id pi1 = pi_router_id iface)"

subsection \<open>Interfaces going up and down\<close>

text \<open>
  Clearing a list of neighbours that is not empty uses a freed node (see
  \<^verbatim>\<open>clear_nbr_loop\<close> in \<^verbatim>\<open>Node_List\<close>), so it does not return normally.
\<close>

definition clear_nbrs :: "iface_entry \<Rightarrow> unit option" where
  "clear_nbrs iface = (if if_nbr_routers iface = [] then Some () else None)"

definition iface_up :: "int \<Rightarrow> router_state \<Rightarrow> string \<Rightarrow> (int \<times> router_state) option" where
  "iface_up now rs interface =
     (case get_iface rs interface of
        None \<Rightarrow> Some (1, rs)
      | Some iface \<Rightarrow>
          if if_is_active iface then Some (0, rs)
          else do {
            let rs = upd_iface interface (\<lambda>i. i\<lparr>if_is_active := True\<rparr>) rs;
            (_, rs) \<leftarrow> activate_routes rs interface;
            _ \<leftarrow> clear_nbrs iface;
            let new_pi = \<lparr>pi_subnet = iface_subnet iface, pi_mask = if_mask iface, pi_router_id = 0,
                          pi_is_active = False\<rparr>;
            our_router \<leftarrow> get_router_by_rid (rs_router_id rs) (rs_router_list rs);
            let rs = (if is_route_present our_router new_pi then rs
              else upd_router (rs_router_id rs)
                (\<lambda>r. r\<lparr>r_interface_list := r_interface_list r @ [new_pi]\<rparr>) rs);
            rs \<leftarrow> propagate_pwospf_changes now rs;
            Some (0, rs)
          })"

definition iface_down :: "int \<Rightarrow> router_state \<Rightarrow> string \<Rightarrow> (int \<times> router_state) option" where
  "iface_down now rs interface =
     (case get_iface rs interface of
        None \<Rightarrow> Some (1, rs)
      | Some iface \<Rightarrow>
          if \<not> if_is_active iface then Some (0, rs)
          else do {
            let rs = upd_iface interface (\<lambda>i. i\<lparr>if_is_active := False\<rparr>) rs;
            (_, rs) \<leftarrow> deactivate_routes rs interface;
            _ \<leftarrow> clear_nbrs iface;
            our_router \<leftarrow> get_router_by_rid (rs_router_id rs) (rs_router_list rs);
            let iface_removed = (\<exists>pi1\<in>set (r_interface_list our_router). pi_subnet pi1 = iface_subnet iface);
            let rs = upd_router (rs_router_id rs) (\<lambda>r. r\<lparr>r_interface_list :=
              filter (\<lambda>pi1. pi_subnet pi1 \<noteq> iface_subnet iface) (r_interface_list r)\<rparr>) rs;
            rs \<leftarrow> (if iface_removed then propagate_pwospf_changes now rs else Some rs);
            Some (0, rs)
          })"

subsection \<open>What floods and recomputations leave alone\<close>

text \<open>The identifier and the sequence number of every router.\<close>

definition seqs :: "pwospf_router list \<Rightarrow> (u32 \<times> u16) list" where
  "seqs l = map (\<lambda>r. (r_router_id r, r_seq r)) l"

lemma seqs_get: "map_option r_seq (get_router_by_rid v l) = map_of (seqs l) v"
  by (induction l) (auto simp: get_router_by_rid_def seqs_def)

lemma seqs_set_iface_active [simp]: "seqs (set_iface_active rid j b l) = seqs l"
  unfolding seqs_def set_iface_active_def by (rule map_upd_first) simp

lemma foldl_invariant: "(\<And>y x. f (g y x) = f y) \<Longrightarrow> f (foldl g y xs) = f y"
  by (induction xs arbitrary: y) auto

lemma seqs_activate_links [simp]: "seqs (activate_links rid j i a l) = seqs l"
  unfolding activate_links_def by (rule foldl_invariant) auto

lemma seqs_determine [simp]:
  "seqs (determine_active_interface rid j i l) = seqs l"
  "seqs (determine_active_interfaces r l) = seqs l"
  "seqs (foldl (\<lambda>l r. determine_active_interfaces r l) l rs) = seqs l"
proof -
  show one: "seqs (determine_active_interface rid j i l) = seqs l" for rid j i l
    by (simp add: determine_active_interface_def Let_def split: option.split)
  show two: "seqs (determine_active_interfaces r l) = seqs l" for r l
    unfolding determine_active_interfaces_def by (rule foldl_invariant) (rule one)
  show "seqs (foldl (\<lambda>l r. determine_active_interfaces r l) l rs) = seqs l"
    by (rule foldl_invariant) (rule two)
qed

lemma upd_router_frame [simp]:
  "rs_router_id (upd_router rid f rs) = rs_router_id rs" "rs_if_list (upd_router rid f rs) = rs_if_list rs"
  "rs_lsu_queue (upd_router rid f rs) = rs_lsu_queue rs"
  "rs_lsu_broadcast (upd_router rid f rs) = rs_lsu_broadcast rs"
  "rs_hello_interval (upd_router rid f rs) = rs_hello_interval rs"
  "rs_rtable (upd_router rid f rs) = rs_rtable rs"
  by (simp_all add: upd_router_def)

lemma broadcast_lsu_queue:
  "broadcast_pwospf_lsu_packet rs p src =
     rs\<lparr>rs_lsu_queue := rs_lsu_queue rs @ concat (map (lsu_queue_entries p src) (rs_if_list rs))\<rparr>"
proof -
  have "foldl (\<lambda>rs iface. rs\<lparr>rs_lsu_queue := rs_lsu_queue rs @ lsu_queue_entries p src iface\<rparr>) rs ifs =
      rs\<lparr>rs_lsu_queue := rs_lsu_queue rs @ concat (map (lsu_queue_entries p src) ifs)\<rparr>" for rs ifs
    by (induction ifs arbitrary: rs) auto
  then show ?thesis by (simp add: broadcast_pwospf_lsu_packet_def)
qed

lemma get_router_upd_other:
  "v \<noteq> rid \<Longrightarrow> (\<And>r. r_router_id r = rid \<Longrightarrow> r_router_id (f r) = rid) \<Longrightarrow>
     get_router_by_rid v (rs_router_list (upd_router rid f rs)) = get_router_by_rid v (rs_router_list rs)"
  by (simp add: upd_router_def get_router_by_rid_def find_upd_first_other)

lemma start_flood_frame:
  assumes "start_lsu_bcast_flood now rs = Some rs'"
  shows "rs_router_id rs' = rs_router_id rs" "rs_if_list rs' = rs_if_list rs" "rs_rtable rs' = rs_rtable rs"
    and "v \<noteq> rs_router_id rs \<Longrightarrow>
      get_router_by_rid v (rs_router_list rs') = get_router_by_rid v (rs_router_list rs)"
proof -
  have "rs_router_id rs' = rs_router_id rs \<and> rs_if_list rs' = rs_if_list rs \<and> rs_rtable rs' = rs_rtable rs \<and>
    (v \<noteq> rs_router_id rs \<longrightarrow>
      get_router_by_rid v (rs_router_list rs') = get_router_by_rid v (rs_router_list rs))"
  proof (cases "rs_lsu_broadcast rs")
    case True
    with assms obtain p rs1 where c: "construct_pwospf_lsu_packet now rs = Some (p, rs1)"
      and rs': "rs' = upd_router (rs_router_id rs1) (\<lambda>r. r\<lparr>r_last_update := now\<rparr>)
        (broadcast_pwospf_lsu_packet rs1 p None)"
      by (auto simp: start_lsu_bcast_flood_def bind_eq_Some_conv broadcast_lsu_queue split: prod.splits)
    from c have "rs1 = upd_router (rs_router_id rs) (\<lambda>r. r\<lparr>r_last_update := now, r_seq := r_seq r + 1\<rparr>) rs"
      by (auto simp: construct_pwospf_lsu_packet_def Let_def bind_eq_Some_conv split_beta)
    then show ?thesis
      unfolding rs' by (auto simp: broadcast_lsu_queue upd_router_def get_router_by_rid_def find_upd_first_other)
  next
    case False
    with assms show ?thesis by (simp add: start_lsu_bcast_flood_def)
  qed
  then show "rs_router_id rs' = rs_router_id rs" "rs_if_list rs' = rs_if_list rs" "rs_rtable rs' = rs_rtable rs"
    "v \<noteq> rs_router_id rs \<Longrightarrow>
      get_router_by_rid v (rs_router_list rs') = get_router_by_rid v (rs_router_list rs)" by blast+
qed

lemma propagate_seq:
  assumes "propagate_pwospf_changes now rs = Some rs'"
  shows "rs_router_id rs' = rs_router_id rs" "rs_if_list rs' = rs_if_list rs" "rs_rtable rs' = rs_rtable rs"
    and "v \<noteq> rs_router_id rs \<Longrightarrow> map_option r_seq (get_router_by_rid v (rs_router_list rs')) =
      map_option r_seq (get_router_by_rid v (rs_router_list rs))"
proof -
  let ?rs = "dijkstra_trigger (rs\<lparr>rs_router_list :=
    foldl (\<lambda>l r. determine_active_interfaces r l) (rs_router_list rs) (rs_router_list rs)\<rparr>)"
  have s: "start_lsu_bcast_flood now ?rs = Some rs'"
    using assms by (simp add: propagate_pwospf_changes_def Let_def)
  show "rs_router_id rs' = rs_router_id rs" "rs_if_list rs' = rs_if_list rs" "rs_rtable rs' = rs_rtable rs"
    using start_flood_frame(1-3) [OF s] by (simp_all add: dijkstra_trigger_def)
  show "v \<noteq> rs_router_id rs \<Longrightarrow> map_option r_seq (get_router_by_rid v (rs_router_list rs')) =
      map_option r_seq (get_router_by_rid v (rs_router_list rs))"
    using start_flood_frame(4) [OF s, of v] by (simp add: dijkstra_trigger_def seqs_get)
qed

subsection \<open>Sequence numbers\<close>

lemma lsu_not_newer:
  assumes "get_router_by_rid (pwospf_rid_of p get_pwospf_hdr) (rs_router_list rs) = Some r"
    and "lsu_seq_of p \<le> r_seq r"
  shows "process_pwospf_lsu_packet now rs p = Some rs"
  using assms by (auto simp: process_pwospf_lsu_packet_def Let_def)

lemma lsu_recorded:
  assumes "process_pwospf_lsu_packet now rs p = Some rs'" and "pwospf_rid_of p get_pwospf_hdr \<noteq> rs_router_id rs"
  shows "\<exists>r. get_router_by_rid (pwospf_rid_of p get_pwospf_hdr) (rs_router_list rs') = Some r \<and>
    lsu_seq_of p \<le> r_seq r"
proof -
  let ?rid = "pwospf_rid_of p get_pwospf_hdr"
  define own where "own = rs_router_id rs"
  have rid: "?rid \<noteq> own" using assms(2) by (simp add: own_def)
  let ?good = "\<lambda>rs. rs_router_id rs = own \<and> (\<exists>r. get_router_by_rid ?rid (rs_router_list rs) = Some r \<and> lsu_seq_of p \<le> r_seq r)"
  let ?fwd = "\<lambda>rs. if lsu_ttl_of p - 1 > 0 then rebroadcast_lsu rs p (lsu_ttl_of p - 1) else rs"
  have fwd: "?good (?fwd rs)" if "?good rs" for rs
    using that by (simp add: rebroadcast_lsu_def broadcast_lsu_queue Let_def split_beta)
  have keeps: "?good rs2" if "?good rs1" "propagate_pwospf_changes t rs1 = Some rs2" for rs1 rs2 t
  proof -
    have "map_option r_seq (get_router_by_rid ?rid (rs_router_list rs2)) =
        map_option r_seq (get_router_by_rid ?rid (rs_router_list rs1))"
      by (rule propagate_seq(4) [OF that(2)]) (use that(1) rid in simp)
    with that(1) propagate_seq(1) [OF that(2)] show ?thesis by (auto simp: map_option_eq_Some)
  qed
  have found: "?good (upd_router ?rid (\<lambda>_. r) rs)"
    if "get_router_by_rid ?rid (rs_router_list rs) \<noteq> None" "r_router_id r = ?rid" "r_seq r = lsu_seq_of p" for r
    using that by (auto simp: upd_router_def own_def get_router_by_rid_def find_upd_first)
  have pop: "r_router_id (snd (populate_pwospf_router_interface_list r q)) = r_router_id r"
    "r_seq (snd (populate_pwospf_router_interface_list r q)) = r_seq r" for r q
    by (simp_all add: populate_pwospf_router_interface_list_def Let_def split: prod.split)
  have new: "?good (add_new_router_neighbor now rs p)" if "get_router_by_rid ?rid (rs_router_list rs) = None"
    using that pop
    by (simp add: add_new_router_neighbor_def own_def Let_def split_beta get_router_by_rid_def find_append)
  show ?thesis
  proof (cases "get_router_by_rid ?rid (rs_router_list rs)")
    case None
    with assms have "propagate_pwospf_changes now (?fwd (add_new_router_neighbor now rs p)) = Some rs'"
      by (simp add: process_pwospf_lsu_packet_def Let_def)
    from keeps [OF fwd [OF new [OF None]] this] show ?thesis by blast
  next
    case (Some r)
    show ?thesis
    proof (cases "lsu_seq_of p \<le> r_seq r")
      case True
      with lsu_not_newer [OF Some] Some assms(1) show ?thesis by auto
    next
      case False
      let ?r = "snd (populate_pwospf_router_interface_list (r\<lparr>r_last_update := now, r_seq := lsu_seq_of p\<rparr>) p)"
      have r: "r_router_id r = ?rid" using Some by (auto simp: get_router_by_rid_def dest: find_SomeD)
      have "?good (upd_router ?rid (\<lambda>_. ?r) rs)" by (rule found) (use Some r pop in simp_all)
      then have good: "?good (?fwd (upd_router ?rid (\<lambda>_. ?r) rs))" by (rule fwd)
      have "propagate_pwospf_changes now (?fwd (upd_router ?rid (\<lambda>_. ?r) rs)) = Some rs' \<or>
          rs' = ?fwd (upd_router ?rid (\<lambda>_. ?r) rs)"
        using assms Some False by (auto simp: process_pwospf_lsu_packet_def Let_def split_beta split: if_splits)
      with keeps [OF good] good show ?thesis by blast
    qed
  qed
qed

text \<open>
  C26. Flooding stops: whatever an update did when it was processed, a second copy of it changes
  nothing, so it is neither stored nor forwarded nor answered with a flood again.
\<close>

theorem lsu_accepted_once:
  assumes "process_pwospf_lsu_packet now rs p = Some rs'"
  shows "process_pwospf_lsu_packet now' rs' p = Some rs'"
proof (cases "pwospf_rid_of p get_pwospf_hdr = rs_router_id rs")
  case True
  with assms show ?thesis by (auto simp: process_pwospf_lsu_packet_def)
next
  case False
  from lsu_recorded [OF assms False] show ?thesis using lsu_not_newer by blast
qed

text \<open>An update of router 9.9.9.9 without advertisements.\<close>

definition lsu_pkt :: packet where
  "lsu_pkt = replicate 34 0 @ [2, 4, 0, 32, 9, 9, 9, 9] @ replicate 16 0 @ [0, 5, 0, 64, 0, 0, 0, 0]"

theorem lsu_accepted_once_witness:
  "\<exists>rs'. process_pwospf_lsu_packet 1 rs0 lsu_pkt = Some rs' \<and>
    process_pwospf_lsu_packet 2 rs' lsu_pkt = Some rs'"
proof -
  have "\<not> rs_lsu_broadcast rs0" by (simp add: rs0_def zero_state_def)
  then have flood: "\<exists>rs'. propagate_pwospf_changes now rs = Some rs'" if "rs_lsu_broadcast rs = False" for now rs
    using that by (simp add: propagate_pwospf_changes_def start_lsu_bcast_flood_def dijkstra_trigger_def Let_def)
  have "get_router_by_rid v (rs_router_list rs0) = None" for v by (simp add: get_router_by_rid_def)
  then have "\<exists>rs'. process_pwospf_lsu_packet 1 rs0 lsu_pkt = Some rs'"
    using \<open>\<not> rs_lsu_broadcast rs0\<close>
    by (auto simp: process_pwospf_lsu_packet_def Let_def rebroadcast_lsu_def broadcast_lsu_queue
        add_new_router_neighbor_def split_beta intro!: flood)
  with lsu_accepted_once [of 1 rs0 lsu_pkt _ 2] show ?thesis by blast
qed

text \<open>
  The comparison of sequence numbers does not survive their wrap-around: once a router is
  known with sequence number 65535, none of its updates is accepted any more.
\<close>

theorem lsu_seq_wrap:
  assumes "get_router_by_rid (pwospf_rid_of p get_pwospf_hdr) (rs_router_list rs) = Some r"
    and "r_seq r = 0xFFFF"
  shows "process_pwospf_lsu_packet now rs p = Some rs"
proof -
  have "unat (lsu_seq_of p) \<le> unat (r_seq r)"
    using unat_u16 [of "lsu_seq_of p"] assms(2) by simp
  then show ?thesis by (intro lsu_not_newer [OF assms(1)]) (simp add: word_le_nat_alt)
qed

definition router9 :: pwospf_router where
  "router9 = \<lparr>r_router_id = 0x09090909, r_area_id = 0, r_seq = 0xFFFF, r_last_update = 0, r_distance = 0,
     r_shortest_path_found = False, r_interface_list = [], r_prev_router = None\<rparr>"

theorem lsu_seq_wrap_witness:
  "process_pwospf_lsu_packet 1 (rs0\<lparr>rs_router_list := [router9]\<rparr>) lsu_pkt =
     Some (rs0\<lparr>rs_router_list := [router9]\<rparr>)"
proof (rule lsu_seq_wrap)
  show "r_seq router9 = 0xFFFF" by (simp add: router9_def)
  show "get_router_by_rid (pwospf_rid_of lsu_pkt get_pwospf_hdr) (rs_router_list (rs0\<lparr>rs_router_list := [router9]\<rparr>)) =
      Some router9"
    by (simp add: get_router_by_rid_def router9_def pwospf_rid_of_def lsu_pkt_def hdr_offsets ld32_def ld8_def
        w32_def nth_append)
qed

end
