(* ===== verification/Or_Ip.thy ===== *)
theory Or_Ip
  imports Or_Nat Or_Pwospf
begin

section \<open>The IP layer (\<^verbatim>\<open>or_ip.c\<close>) and the entry of frames (\<^verbatim>\<open>or_main.c\<close>)\<close>

text \<open>
  What happens to a frame that arrives: the checks of its header, delivery to the router
  itself, translation on a WAN interface, and forwarding. The lemmas state what a forwarded
  packet looks like, what is never forwarded, and that the router answers pings.
\<close>

subsection \<open>The code\<close>

definition is_packet_valid :: "packet \<Rightarrow> int" where
  "is_packet_valid packet =
     (let ip = get_ip_hdr; frag_field = ntohs (ip_off packet ip)
      in if ip_v packet ip \<noteq> 4 then 0
         else if ip_hl packet ip \<noteq> 5 then 0
         else if frag_field AND IP_FRAG_MF \<noteq> 0 \<or> frag_field AND IP_FRAG_OFFMASK \<noteq> 0 then 0
         else if verify_checksum packet ip (4 * unat (ip_hl packet ip)) \<noteq> 0 then 0
         else 1)"

text \<open>The TCP stack gets a copy of the IP packet, of the length that its header says.\<close>

definition sr_transport_input :: "packet \<Rightarrow> nat \<Rightarrow> router_state \<Rightarrow> router_state" where
  "sr_transport_input packet ip rs =
     rs\<lparr>rs_tcp_in := rs_tcp_in rs @ [ld_bytes packet ip (unat (ntohs (ip_len packet ip)))]\<rparr>"

text \<open>The result of sending an ICMP message is not looked at.\<close>

definition send_icmp :: "int \<Rightarrow> router_state \<Rightarrow> packet \<Rightarrow> u8 \<Rightarrow> u8 \<Rightarrow> router_state option" where
  "send_icmp now rs packet icmp_type icmp_code =
     map_option snd (send_icmp_packet now rs packet icmp_type icmp_code)"

text \<open>A packet for one of our addresses.\<close>

definition ip_deliver :: "int \<Rightarrow> router_state \<Rightarrow> packet \<Rightarrow> string \<Rightarrow> router_state option" where
  "ip_deliver now rs packet interface =
     (let ip = get_ip_hdr; p = ip_p packet ip
      in if p = IP_PROTO_TCP then Some (sr_transport_input packet ip rs)
         else if p = IP_PROTO_ICMP then process_icmp_packet now rs packet
         else if p = IP_PROTO_PWOSPF then process_pwospf_packet now rs packet interface
         else if p = IP_PROTO_UDP then
           send_icmp now rs packet ICMP_TYPE_DESTINATION_UNREACHABLE ICMP_CODE_PORT_UNREACHABLE
         else send_icmp now rs packet ICMP_TYPE_DESTINATION_UNREACHABLE ICMP_CODE_PROTOCOL_UNREACHABLE)"

text \<open>The new TTL, checksum and source address of a packet that leaves on an interface.\<close>

definition ip_rewrite :: "packet \<Rightarrow> u8 list \<Rightarrow> packet" where
  "ip_rewrite packet mac =
     (let ip = get_ip_hdr;
          packet = st8 packet (ip + 8) (ip_ttl packet ip - 1);
          packet = st16 packet (ip + 10) 0;
          (c, packet) = compute_ip_checksum packet ip;
          packet = st16 packet (ip + 10) (htons c)
      in populate_eth_hdr packet None mac ETH_TYPE_IP)"

text \<open>A packet for another host; \<open>rnd\<close> are the ports that the random numbers give.\<close>

definition ip_forward ::
  "(nat \<Rightarrow> u16) \<Rightarrow> int \<Rightarrow> router_state \<Rightarrow> packet \<Rightarrow> string \<Rightarrow> router_state option" where
  "ip_forward rnd now rs packet interface =
     (case get_next_hop IF_LEN rs (ip_dst packet get_ip_hdr) of
        None \<Rightarrow> send_icmp now rs packet ICMP_TYPE_DESTINATION_UNREACHABLE ICMP_CODE_NET_UNKNOWN
      | Some (next_hop, next_hop_iface) \<Rightarrow>
          if strncmp_eq interface next_hop_iface IF_LEN
          then send_icmp now rs packet ICMP_TYPE_DESTINATION_UNREACHABLE ICMP_CODE_NET_UNREACHABLE
          else do {
            iface \<leftarrow> get_iface rs next_hop_iface;
            (packet, rs) \<leftarrow> (if if_is_wan iface \<noteq> 0
               then process_nat_int_packet rnd now rs packet (if_ip iface) else Some (packet, rs));
            (if ip_ttl packet get_ip_hdr = 1
             then send_icmp now rs packet ICMP_TYPE_TIME_EXCEEDED ICMP_CODE_TTL_EXCEEDED
             else do {
               sr_if \<leftarrow> get_iface rs next_hop_iface;
               map_option snd (send_ip now rs (ip_rewrite packet (if_addr sr_if)) next_hop next_hop_iface)
             })
          })"

definition process_ip_packet ::
  "(nat \<Rightarrow> u16) \<Rightarrow> int \<Rightarrow> router_state \<Rightarrow> packet \<Rightarrow> string \<Rightarrow> router_state option" where
  "process_ip_packet rnd now rs packet interface =
     (if is_packet_valid packet = 0 then Some rs
      else do {
        iface \<leftarrow> get_iface rs interface;
        let (packet, rs) = (if if_is_wan iface = 1 then process_nat_ext_packet rs packet else (packet, rs));
        (if iface_match_ip rs (ip_dst packet get_ip_hdr) \<noteq> 0 then ip_deliver now rs packet interface
         else if ip_dst packet get_ip_hdr = htonl PWOSPF_HELLO_TIP
         then process_pwospf_packet now rs packet interface
         else ip_forward rnd now rs packet interface)
      })"

text \<open>\<open>buf\<close> is the reply buffer of the ARP code.\<close>

definition process_packet ::
  "(nat \<Rightarrow> u16) \<Rightarrow> packet \<Rightarrow> int \<Rightarrow> router_state \<Rightarrow> packet \<Rightarrow> string \<Rightarrow> router_state option" where
  "process_packet rnd buf now rs packet interface =
     (if iface_is_active rs interface = 0 then Some rs
      else if ntohs (eth_type packet) = ETH_TYPE_IP then process_ip_packet rnd now rs packet interface
      else if ntohs (eth_type packet) = ETH_TYPE_ARP then process_arp_packet buf now rs packet
      else Some rs)"

text \<open>
  Sending for the TCP stack. Without a route the function returns 1 with its locks still
  taken; the model has no locks.
\<close>

definition send_ip_packet ::
  "int \<Rightarrow> router_state \<Rightarrow> u8 \<Rightarrow> u32 \<Rightarrow> u32 \<Rightarrow> u8 list \<Rightarrow> (int \<times> router_state) option" where
  "send_ip_packet now rs proto src dest payload = do {
     let data_offset = ETH_HDR_LEN + sizeof_ip_hdr;
     let new_packet = replicate (data_offset + length payload) 0;
     let new_packet = st_bytes new_packet data_offset payload;
     let new_packet = populate_ip new_packet get_ip_hdr (of_nat (length payload)) proto src dest;
     let (c, new_packet) = compute_ip_checksum new_packet get_ip_hdr;
     let new_packet = st16 new_packet (get_ip_hdr + 10) (htons c);
     (case get_next_hop 32 rs (ip_dst new_packet get_ip_hdr) of
        None \<Rightarrow> Some (1, rs)
      | Some (next_hop, iface) \<Rightarrow> do {
          iface_struct \<leftarrow> get_iface rs iface;
          let new_packet = populate_eth_hdr new_packet None (if_addr iface_struct) ETH_TYPE_IP;
          send_ip now rs new_packet next_hop (if_name iface_struct)
        })
   }"

definition integ_ip_output ::
  "int \<Rightarrow> router_state \<Rightarrow> u8 list \<Rightarrow> u8 \<Rightarrow> u32 \<Rightarrow> u32 \<Rightarrow> (int \<times> router_state) option" where
  "integ_ip_output now rs payload proto src dest = send_ip_packet now rs proto src dest payload"

definition find_srcip :: "router_state \<Rightarrow> u32 \<Rightarrow> u32 option" where
  "find_srcip rs dest =
     (case get_next_hop 32 rs dest of
        None \<Rightarrow> Some 0
      | Some (src, iface) \<Rightarrow> map_option if_ip (get_iface rs iface))"

subsection \<open>Forwarding\<close>

lemma is_packet_valid_1:
  "is_packet_valid p = 1 \<longleftrightarrow> ip_v p get_ip_hdr = 4 \<and> ip_hl p get_ip_hdr = 5 \<and>
     ntohs (ip_off p get_ip_hdr) AND IP_FRAG_MF = 0 \<and> ntohs (ip_off p get_ip_hdr) AND IP_FRAG_OFFMASK = 0 \<and>
     verify_checksum p get_ip_hdr 20 = 0"
  by (auto simp: is_packet_valid_def Let_def)

lemma ip_rewrite_fields:
  assumes valid: "is_packet_valid p = 1" and len: "34 \<le> length p" and mac: "length mac = 6"
  shows "length (ip_rewrite p mac) = length p" and "ip_ttl (ip_rewrite p mac) get_ip_hdr = ip_ttl p get_ip_hdr - 1"
    and "is_packet_valid (ip_rewrite p mac) = 1"
    and "eth_shost (ip_rewrite p mac) = mac" and "ntohs (eth_type (ip_rewrite p mac)) = ETH_TYPE_IP"
    and "14 \<le> j \<Longrightarrow> j \<notin> {22, 24, 25} \<Longrightarrow> ld8 (ip_rewrite p mac) j = ld8 p j"
proof -
  define a where "a = st16 (st8 p 22 (ip_ttl p 14 - 1)) 24 0"
  obtain c d where c: "compute_ip_checksum a 14 = (c, d)" by (cases "compute_ip_checksum a 14")
  have d: "d = st16 a 24 0" using c by (auto simp: compute_ip_checksum_def Let_def)
  define e where "e = st16 d 24 (htons c)"
  have q: "ip_rewrite p mac = populate_eth_hdr e None mac ETH_TYPE_IP"
    using c by (simp add: ip_rewrite_def hdr_offsets a_def e_def Let_def)
  have la: "length a = length p" "length e = length p" by (simp_all add: a_def e_def d)
  show lq: "length (ip_rewrite p mac) = length p" by (simp add: q la)
  have eth: "ld8 (ip_rewrite p mac) j = ld8 e j" if "14 \<le> j" for j
    using that mac by (simp add: q populate_eth_hdr_def mem_simps)
  have e: "ld8 e j = ld8 a j" if "j \<noteq> 24" "j \<noteq> 25" for j using that by (simp add: e_def d ld8_st16)
  have a: "ld8 a j = ld8 p j" if "j \<noteq> 22" "j \<noteq> 24" "j \<noteq> 25" for j
    using that by (simp add: a_def ld8_st16 ld8_st8)
  show same: "ld8 (ip_rewrite p mac) j = ld8 p j" if "14 \<le> j" "j \<notin> {22, 24, 25}" for j
    using that by (simp add: eth e a)
  have "ld8 a 22 = ip_ttl p 14 - 1" using len by (simp add: a_def ld8_st16 ld8_st8)
  then show "ip_ttl (ip_rewrite p mac) get_ip_hdr = ip_ttl p get_ip_hdr - 1"
    by (simp add: ip_ttl_def hdr_offsets eth e)
  have hl: "unat (ip_hl a 14) = 5"
    using valid a [of 14] by (simp add: is_packet_valid_1 ip_hl_def hdr_offsets)
  have "verify_checksum e 14 20 = 0"
    using ip_checksum_valid [OF _ _ c] hl len la by (simp add: e_def)
  then have "verify_checksum (ip_rewrite p mac) 14 20 = 0"
    by (subst verify_checksum_cong [of _ _ _ e]) (simp_all add: eth)
  then show "is_packet_valid (ip_rewrite p mac) = 1"
    using valid same [of 14] same [of 20] same [of 21]
    by (simp add: is_packet_valid_1 ip_fields hdr_offsets ld16_def)
  show "eth_shost (ip_rewrite p mac) = mac" "ntohs (eth_type (ip_rewrite p mac)) = ETH_TYPE_IP"
    using len mac la by (simp_all add: q populate_eth_hdr_def eth_shost_def eth_type_def mem_simps)
qed

text \<open>
  C2. A valid packet for another host leaves on the interface of the longest matching route, with
  its TTL decreased by one, a checksum that is valid again and the address of that interface as
  the source of the frame, and with every other byte of the packet as it was; a packet whose TTL
  is 1 is answered with a time exceeded message instead. The TTL is a byte: a packet that
  arrives with TTL 0 leaves with TTL 255.
\<close>

theorem forward_spec:
  assumes valid: "is_packet_valid p = 1" and len: "34 \<le> length p"
    and in_if: "get_iface rs ifc = Some i" "if_is_wan i \<noteq> 1"
    and other: "iface_match_ip rs (ip_dst p get_ip_hdr) = 0" "ip_dst p get_ip_hdr \<noteq> htonl PWOSPF_HELLO_TIP"
    and route: "get_next_hop IF_LEN rs (ip_dst p get_ip_hdr) = Some (hop, out)" "\<not> strncmp_eq ifc out IF_LEN"
    and out_if: "get_iface rs out = Some j" "if_is_wan j = 0" "length (if_addr j) = 6"
  shows "if ip_ttl p get_ip_hdr = 1
    then process_ip_packet rnd now rs p ifc = send_icmp now rs p ICMP_TYPE_TIME_EXCEEDED ICMP_CODE_TTL_EXCEEDED
    else \<exists>q. process_ip_packet rnd now rs p ifc = map_option snd (send_ip now rs q hop out) \<and>
      is_packet_valid q = 1 \<and> ip_ttl q get_ip_hdr = ip_ttl p get_ip_hdr - 1 \<and>
      eth_shost q = if_addr j \<and> ntohs (eth_type q) = ETH_TYPE_IP \<and> length q = length p \<and>
      (\<forall>k. 14 \<le> k \<and> k \<notin> {22, 24, 25} \<longrightarrow> ld8 q k = ld8 p k)"
proof (cases "ip_ttl p get_ip_hdr = 1")
  case True
  with assms show ?thesis by (simp add: process_ip_packet_def ip_forward_def)
next
  case False
  have "process_ip_packet rnd now rs p ifc = map_option snd (send_ip now rs (ip_rewrite p (if_addr j)) hop out)"
    using assms False by (simp add: process_ip_packet_def ip_forward_def)
  with False ip_rewrite_fields [OF valid len out_if(3)] show ?thesis by auto
qed

text \<open>A router between two networks, and a packet for a host behind its default route.\<close>

definition iface_out :: iface_entry where
  "iface_out = eth0_iface\<lparr>if_ip := 0x0700000a\<rparr>"

definition iface_in :: iface_entry where
  "iface_in = eth0_iface\<lparr>if_name := ''eth1'', if_ip := 0x0100000b\<rparr>"

definition rs_fwd :: router_state where
  "rs_fwd = rs2\<lparr>rs_if_list := [iface_out, iface_in]\<rparr>"

lemma echo_request_valid: "is_packet_valid echo_request_pkt = 1"
proof -
  have len: "length echo_request_pkt = 42" by (simp add: echo_request_pkt_def)
  have "shorts_sum (\<lambda>_. True) echo_request_pkt 14 [0..<20 div 2] = 65535"
    by (simp add: shorts_sum_def upt_rec ld16_def ld8_def unat_ntohs unat_w16 len)
       (simp add: echo_request_pkt_def)
  then have "verify_checksum echo_request_pkt 14 20 = 0"
    using verify_checksum_iff [of 20 echo_request_pkt 14] by (simp add: csum_full)
  moreover have "ld16 echo_request_pkt 20 = 0"
    by (simp add: ld16_def ld8_def w16_def echo_request_pkt_def)
  ultimately show ?thesis
    by (simp add: is_packet_valid_1 hdr_offsets ip_fields ld8_def)
       (simp add: echo_request_pkt_def)
qed

lemma rs_fwd_simps:
  "get_iface rs_fwd ''eth1'' = Some iface_in" "get_iface rs_fwd ''eth0'' = Some iface_out"
  "get_next_hop n rs_fwd d = Some (0x0200000a, take n ''eth0'')"
  "iface_match_ip rs_fwd (ip_dst echo_request_pkt get_ip_hdr) = 0"
  "ip_dst echo_request_pkt get_ip_hdr \<noteq> htonl PWOSPF_HELLO_TIP"
  "ip_ttl echo_request_pkt get_ip_hdr = 64"
proof -
  have dst: "ip_dst echo_request_pkt get_ip_hdr = 0x0100000a"
    by (simp add: ip_dst_def hdr_offsets ld32_def ld8_def) (simp add: echo_request_pkt_def w32_def)
  show "get_iface rs_fwd ''eth1'' = Some iface_in" "get_iface rs_fwd ''eth0'' = Some iface_out"
    by (simp_all add: get_iface_def rs_fwd_def iface_in_def iface_out_def eth0_iface_def strncmp_eq_def SR_NAMELEN_def)
  show "get_next_hop n rs_fwd d = Some (0x0200000a, take n ''eth0'')"
    using rs2_next_hop [of n d] by (simp add: get_next_hop_def rs_fwd_def)
  show "iface_match_ip rs_fwd (ip_dst echo_request_pkt get_ip_hdr) = 0"
    by (simp add: dst iface_match_ip_def rs_fwd_def iface_in_def iface_out_def)
  show "ip_dst echo_request_pkt get_ip_hdr \<noteq> htonl PWOSPF_HELLO_TIP"
    by (simp add: dst PWOSPF_HELLO_TIP_def ntohl_def take_bit_eq_mod drop_bit_eq_div push_bit_eq_mult)
  show "ip_ttl echo_request_pkt get_ip_hdr = 64"
    by (simp add: ip_ttl_def hdr_offsets ld8_def) (simp add: echo_request_pkt_def)
qed

theorem forward_spec_witness:
  "\<exists>q. process_ip_packet (\<lambda>_. 0) 5 rs_fwd echo_request_pkt ''eth1'' =
      map_option snd (send_ip 5 rs_fwd q 0x0200000a ''eth0'') \<and>
    is_packet_valid q = 1 \<and> ip_ttl q get_ip_hdr = 63"
proof -
  note r = rs_fwd_simps(3) [of IF_LEN]
  have facts: "34 \<le> length echo_request_pkt" "if_is_wan iface_in \<noteq> 1" "if_is_wan iface_out = 0"
    "length (if_addr iface_out) = 6" "take IF_LEN ''eth0'' = ''eth0''" "\<not> strncmp_eq ''eth1'' ''eth0'' IF_LEN"
    by (simp_all add: echo_request_pkt_def iface_in_def iface_out_def eth0_iface_def IF_LEN_def strncmp_eq_def)
  have route: "get_next_hop IF_LEN rs_fwd (ip_dst echo_request_pkt get_ip_hdr) = Some (0x0200000a, ''eth0'')"
    using rs_fwd_simps(3) facts(5) by simp
  from forward_spec [OF echo_request_valid facts(1) rs_fwd_simps(1) facts(2) rs_fwd_simps(4,5) route facts(6)
      rs_fwd_simps(2) facts(3,4), of "\<lambda>_. 0" 5]
  show ?thesis by (auto simp: rs_fwd_simps(6))
qed

subsection \<open>Packets for and from the router\<close>



text \<open>
  A segment that the TCP stack hands to the router leaves as one well-formed packet with the
  given addresses and exactly that payload on the route to its destination; the address that
  \<^verbatim>\<open>find_srcip\<close> offers the stack as the source is the one of the interface it leaves on.
\<close>

theorem send_ip_packet_spec:
  assumes macs: "\<forall>i\<in>set (rs_if_list rs). length (if_addr i) = 6"
  shows "case get_next_hop 32 rs dest of
      None \<Rightarrow> integ_ip_output now rs payload proto src dest = Some (1, rs) \<and> find_srcip rs dest = Some 0
    | Some (hop, out) \<Rightarrow> (case get_iface rs out of
        None \<Rightarrow> integ_ip_output now rs payload proto src dest = None \<and> find_srcip rs dest = None
      | Some j \<Rightarrow> find_srcip rs dest = Some (if_ip j) \<and>
          (\<exists>f. integ_ip_output now rs payload proto src dest = send_ip now rs f hop (if_name j) \<and>
            ip_frame_ok f proto src dest (if_addr j) \<and> length f = 34 + length payload \<and>
            ld_bytes f 34 (length payload) = payload))"
proof -
  let ?b = "st_bytes (replicate (34 + length payload) 0) 34 payload :: packet"
  let ?q = "populate_ip ?b 14 (of_nat (length payload)) proto src dest"
  obtain c d where c: "compute_ip_checksum ?q 14 = (c, d)" by (cases "compute_ip_checksum ?q 14")
  have d: "d = st16 ?q 24 0" using c by (auto simp: compute_ip_checksum_def Let_def)
  have "ip_dst ?q 14 = dest" by (rule populate_ip_fields(8)) simp
  then have dst: "ip_dst (st16 d 24 (htons c)) 14 = dest" by (simp add: d ip_dst_def mem_simps)
  have eq: "integ_ip_output now rs payload proto src dest = (case get_next_hop 32 rs dest of None \<Rightarrow> Some (1, rs)
      | Some (hop, out) \<Rightarrow> do { j \<leftarrow> get_iface rs out;
          send_ip now rs (ip_frame ?b (of_nat (length payload)) proto src dest (if_addr j)) hop (if_name j) })"
    using c dst
    by (cases "get_next_hop 32 rs dest")
       (auto simp: integ_ip_output_def send_ip_packet_def ip_frame_def hdr_offsets Let_def)
  show ?thesis
  proof (cases "get_next_hop 32 rs dest")
    case None
    then show ?thesis by (simp add: eq find_srcip_def)
  next
    case (Some r)
    obtain hop out where r: "r = (hop, out)" by (cases r)
    show ?thesis
    proof (cases "get_iface rs out")
      case None
      with Some r show ?thesis by (simp add: eq find_srcip_def)
    next
      case j: (Some j)
      have mac: "length (if_addr j) = 6" using macs get_iface_Some [OF j] by blast
      have len: "34 \<le> length ?b" "of_nat (length payload) = of_nat (length ?b - 34)" by simp_all
      note f = ip_frame_fields [OF len(1) mac len(2), where proto = proto and src = src and dst = dest]
      have "ld_bytes (ip_frame ?b (of_nat (length payload)) proto src dest (if_addr j)) 34 (length payload) =
          ld_bytes ?b 34 (length payload)"
        by (simp add: ld_bytes_def f(2))
      also have "\<dots> = payload" by (simp add: mem_simps)
      finally show ?thesis using Some r j f(1,3) by (auto simp: eq find_srcip_def)
    qed
  qed
qed

theorem send_ip_packet_spec_witness:
  "\<exists>f. integ_ip_output 5 rs2 [1, 2, 3] IP_PROTO_TCP 0x0100000a 0x0900000a =
      send_ip 5 rs2 f 0x0200000a ''eth0'' \<and> ld_bytes f 34 3 = [1, 2, 3]"
proof -
  have "\<forall>i\<in>set (rs_if_list rs2). length (if_addr i) = 6" by (simp add: rs2_def rs1_def eth0_iface_def)
  from send_ip_packet_spec [OF this, where dest = "0x0900000a" and now = 5 and payload = "[1, 2, 3]" and
      proto = IP_PROTO_TCP and src = "0x0100000a"]
  show ?thesis by (auto simp: rs2_next_hop rs2_iface) (auto simp: eth0_iface_def numeral_3_eq_3)
qed

end
