(* ===== verification/Pwospf_Lsu.thy ===== *)
theory Pwospf_Lsu
  imports Or_Pwospf
begin

section \<open>A link state update from its construction to its reading\<close>

text \<open>
  The update that \<^verbatim>\<open>construct_pwospf_lsu_packet\<close> builds, framed for a neighbour by
  \<^verbatim>\<open>broadcast_pwospf_lsu_packet\<close>, passes the validity check of the neighbour and yields the
  advertisements, the sequence number and the identifier that the sender put in.
\<close>

lemma length_store_advs [simp]: "length (store_advs p a advs) = length p"
  by (induction p a advs rule: store_advs.induct) auto

lemma ld8_store_advs: "j < a \<Longrightarrow> ld8 (store_advs p a advs) j = ld8 p j"
  by (induction p a advs rule: store_advs.induct) (auto simp: mem_simps)

lemma read_store_advs:
  "i < length advs \<Longrightarrow> a + 12 * length advs \<le> length p \<Longrightarrow> read_adv (store_advs p a advs) a i = advs ! i"
proof (induction p a advs arbitrary: i rule: store_advs.induct)
  case (2 p a sub msk rid advs)
  let ?q = "st32 (st32 (st32 p a sub) (a + 4) msk) (a + 8) rid"
  show ?case
  proof (cases i)
    case 0
    have "ld32 (store_advs ?q (a + 12) advs) j = ld32 ?q j" if "j + 3 < a + 12" for j
      using that by (simp add: ld32_def ld8_store_advs)
    with 0 2(3) show ?thesis by (simp add: read_adv_def mem_simps)
  next
    case (Suc k)
    with 2(1) [of k] 2(2,3) have "read_adv (store_advs ?q (a + 12) advs) (a + 12) k = advs ! k" by simp
    moreover have "read_adv q a (Suc k) = read_adv q (a + 12) k" for q
      by (simp add: read_adv_def algebra_simps)
    ultimately show ?thesis using Suc by simp
  qed
qed simp

lemma sum_shorts_shift:
  "(\<And>i. i \<in> set is \<Longrightarrow> ld16 f (k + 2 * i) = ld16 p (2 * i)) \<Longrightarrow>
     sum_shorts use f k is acc = sum_shorts use p 0 is acc"
  by (induction "is" arbitrary: acc) auto

text \<open>The checksum of a packet is the same where it is copied to, and again after it was stored.\<close>

lemma pwospf_checksum_copy:
  assumes copy: "\<And>j. j < n \<Longrightarrow> ld8 f (k + j) = ld8 p j" and n: "unat (ntohs (pwospf_len_of p 0)) = n" "14 \<le> n"
    and len: "n \<le> length p" "k + n \<le> length f"
  shows "fst (compute_pwospf_checksum f k) = fst (compute_pwospf_checksum p 0)"
proof -
  let ?f = "st16 f (k + 12) 0" and ?p = "st16 p 12 0"
  have "ld8 ?f (k + j) = ld8 ?p j" if "j < n" for j
    using that copy len by (simp add: ld8_st16)
  then have eq: "ld16 ?f (k + j) = ld16 ?p j" if "j + 1 < n" for j
    using that unfolding ld16_def by (metis add.assoc add_lessD1)
  then have "ld16 ?f (k + 2) = ld16 ?p 2" using n(2) by (intro eq) simp
  moreover have "ld16 ?p 2 = ld16 p 2" by (simp add: ld16_other)
  moreover have "sum_shorts use ?f k [0..<n div 2] 0 = sum_shorts use ?p 0 [0..<n div 2] 0" for use
    by (rule sum_shorts_shift) (auto intro!: eq)
  ultimately show ?thesis using n(1)
    by (simp add: compute_pwospf_checksum_def pwospf_len_of_def Let_def del: add_2_eq_Suc')
qed

lemma pwospf_checksum_stored:
  assumes "compute_pwospf_checksum p k = (c, q)"
  shows "compute_pwospf_checksum (st16 q (k + 12) v) k = (c, q)"
proof -
  have q: "q = st16 p (k + 12) 0" using assms by (auto simp: compute_pwospf_checksum_def Let_def)
  with assms show ?thesis by (simp add: compute_pwospf_checksum_def Let_def)
qed

text \<open>The header fields that the checks of the receiver read.\<close>

lemma pwospf_hdr_fields:
  assumes "k + 24 \<le> length p"
  shows "ld8 (populate_pwospf p k ty n rid aid) k = PWOSPF_VERSION"
    and "ld8 (populate_pwospf p k ty n rid aid) (k + 1) = ty"
    and "ld16 (populate_pwospf p k ty n rid aid) (k + 2) = htons n"
    and "ld32 (populate_pwospf p k ty n rid aid) (k + 4) = rid"
    and "ld32 (populate_pwospf p k ty n rid aid) (k + 8) = htonl aid"
    and "ld16 (populate_pwospf p k ty n rid aid) (k + 14) = 0"
    and "j < k \<or> k + 24 \<le> j \<Longrightarrow> ld8 (populate_pwospf p k ty n rid aid) j = ld8 p j"
proof -
  have "k < length p" using assms by auto
  then show "ld8 (populate_pwospf p k ty n rid aid) k = PWOSPF_VERSION"
    "ld8 (populate_pwospf p k ty n rid aid) (k + 1) = ty"
    "ld16 (populate_pwospf p k ty n rid aid) (k + 2) = htons n"
    "ld32 (populate_pwospf p k ty n rid aid) (k + 4) = rid"
    "ld32 (populate_pwospf p k ty n rid aid) (k + 8) = htonl aid"
    "ld16 (populate_pwospf p k ty n rid aid) (k + 14) = 0"
    "j < k \<or> k + 24 \<le> j \<Longrightarrow> ld8 (populate_pwospf p k ty n rid aid) j = ld8 p j"
    using assms
    by (simp_all add: populate_pwospf_def Let_def hdr_sizes mem_simps del: One_nat_def add_2_eq_Suc')
       (auto simp: ld16_def ld8_st_bytes w16_def mem_simps)
qed

lemmas populate_pwospf_fields = pwospf_hdr_fields [where k = 0, unfolded add_0]

lemma populate_pwospf_lsu_fields:
  assumes "32 \<le> length p"
  shows "ld16 (populate_pwospf_lsu p 24 sq n) 24 = htons sq"
    and "ld32 (populate_pwospf_lsu p 24 sq n) 28 = htonl n"
    and "j < 24 \<Longrightarrow> ld8 (populate_pwospf_lsu p 24 sq n) j = ld8 p j"
  using assms
  by (simp_all add: populate_pwospf_lsu_def Let_def hdr_sizes mem_simps)

text \<open>The update as it is built, before its checksum is stored.\<close>

lemma constructed_lsu:
  assumes c: "construct_pwospf_lsu_packet now rs = Some (p, rs')"
    and r: "get_router_by_rid (rs_router_id rs) (rs_router_list rs) = Some r"
    and small: "length (r_interface_list r) \<le> 5000"
  shows "length p = 32 + 12 * length (r_interface_list r)"
    and "unat (ntohs (pwospf_len_of p 0)) = length p"
    and "pwospf_sum_of p 0 = htons (fst (compute_pwospf_checksum p 0))"
    and "ld8 p 0 = PWOSPF_VERSION" and "pwospf_type_of p 0 = PWOSPF_TYPE_LINK_STATE_UPDATE"
    and "pwospf_rid_of p 0 = rs_router_id rs" and "pwospf_aid_of p 0 = htonl (rs_area_id rs)"
    and "ld16 p 14 = 0" and "ld16 p 24 = htons (r_seq r)"
    and "ld32 p 28 = htonl (of_nat (length (r_interface_list r)))"
    and "i < length (r_interface_list r) \<Longrightarrow> read_adv p 32 i =
      (\<lambda>i. (pi_subnet i, pi_mask i, pi_router_id i)) (r_interface_list r ! i)"
proof -
  let ?advs = "map (\<lambda>i. (pi_subnet i, pi_mask i, pi_router_id i)) (r_interface_list r)"
  let ?n = "length (r_interface_list r)"
  define a where "a = populate_pwospf (replicate (32 + 12 * ?n) 0) 0 PWOSPF_TYPE_LINK_STATE_UPDATE
    (of_nat (32 + 12 * ?n)) (rs_router_id rs) (rs_area_id rs)"
  define b where "b = populate_pwospf_lsu a 24 (r_seq r) (of_nat ?n)"
  define d where "d = store_advs b 32 ?advs"
  obtain e q where e: "compute_pwospf_checksum d 0 = (e, q)" by (cases "compute_pwospf_checksum d 0")
  have q: "q = st16 d 12 0" using e by (auto simp: compute_pwospf_checksum_def Let_def)
  have "construct_pwospf_lsu_adv rs = Some ?advs" by (simp add: construct_pwospf_lsu_adv_def r)
  then have "construct_pwospf_lsu_packet now rs = Some (st16 q 12 (htons e),
      upd_router (rs_router_id rs) (\<lambda>r. r\<lparr>r_last_update := now, r_seq := r_seq r + 1\<rparr>) rs)"
    using r e
    by (simp add: construct_pwospf_lsu_packet_def a_def b_def d_def hdr_sizes Let_def add.commute mult.commute)
  with c have p: "p = st16 q 12 (htons e)" by simp
  have len: "length a = 32 + 12 * ?n" "length b = 32 + 12 * ?n" "length d = 32 + 12 * ?n" "length q = 32 + 12 * ?n"
    by (simp_all add: a_def b_def d_def q)
  then show lp: "length p = 32 + 12 * ?n" by (simp add: p)
  have low: "ld8 p j = ld8 a j" if "j < 24" "j \<noteq> 12" "j \<noteq> 13" for j
    using that len by (simp add: p q ld8_st16 d_def ld8_store_advs b_def populate_pwospf_lsu_fields)
  have mid: "ld8 p j = ld8 b j" if "24 \<le> j" "j < 32" for j
    using that len by (simp add: p q ld8_st16 d_def ld8_store_advs)
  have high: "ld8 p j = ld8 d j" if "32 \<le> j" for j
    using that len by (simp add: p q ld8_st16)
  have fa: "ld8 a 0 = PWOSPF_VERSION" "ld8 a 1 = PWOSPF_TYPE_LINK_STATE_UPDATE"
    "ld16 a 2 = htons (of_nat (32 + 12 * ?n))" "ld32 a 4 = rs_router_id rs"
    "ld32 a 8 = htonl (rs_area_id rs)" "ld16 a 14 = 0"
    unfolding a_def by (rule populate_pwospf_fields; simp)+
  have same: "ld16 p 2 = ld16 a 2" "ld32 p 4 = ld32 a 4" "ld32 p 8 = ld32 a 8" "ld16 p 14 = ld16 a 14"
    by (simp_all add: ld16_def ld32_def low del: add_2_eq_Suc')
  show "ld8 p 0 = PWOSPF_VERSION" "pwospf_type_of p 0 = PWOSPF_TYPE_LINK_STATE_UPDATE"
    "pwospf_rid_of p 0 = rs_router_id rs" "pwospf_aid_of p 0 = htonl (rs_area_id rs)"
    "ld16 p 14 = 0"
    using fa by (simp_all add: pwospf_fields low same)
  have "pwospf_len_of p 0 = htons (of_nat (32 + 12 * ?n))"
    using fa by (simp add: pwospf_fields same del: add_2_eq_Suc')
  moreover have "unat (of_nat (32 + 12 * ?n) :: u16) = 32 + 12 * ?n"
    unfolding unat_of_nat using small by simp
  ultimately show "unat (ntohs (pwospf_len_of p 0)) = length p" by (simp add: lp)
  have "compute_pwospf_checksum p 0 = (e, q)"
    using pwospf_checksum_stored [OF e, of "htons e"] by (simp add: p)
  then show "pwospf_sum_of p 0 = htons (fst (compute_pwospf_checksum p 0))"
    using len by (simp add: pwospf_sum_of_def p mem_simps)
  note fb = populate_pwospf_lsu_fields [where p = a and sq = "r_seq r" and n = "of_nat ?n", folded b_def]
  show "ld16 p 24 = htons (r_seq r)" "ld32 p 28 = htonl (of_nat ?n)"
    using fb len by (simp_all add: ld16_def ld32_def mid)
  show "read_adv p 32 i = (\<lambda>i. (pi_subnet i, pi_mask i, pi_router_id i)) (r_interface_list r ! i)"
    if "i < ?n"
  proof -
    have "read_adv p 32 i = read_adv d 32 i" by (simp add: read_adv_def ld32_def high)
    then show ?thesis using read_store_advs [of i ?advs 32 b] that len by (simp add: d_def)
  qed
qed

subsection \<open>The frame\<close>

lemma lsu_frame_eq:
  "lsu_frame p iface nbr =
     (let plen = unat (ntohs (pwospf_len_of p 0))
      in ip_frame (st_bytes (replicate (34 + plen) 0) 34 (ld_bytes p 0 plen)) (ntohs (pwospf_len_of p 0))
           IP_PROTO_PWOSPF (if_ip iface) (nbr_ip nbr) (if_addr iface))"
  by (simp add: lsu_frame_def ip_frame_def hdr_offsets Let_def)

lemma lsu_frame_fields:
  assumes plen: "unat (ntohs (pwospf_len_of p 0)) = length p" and mac: "length (if_addr iface) = 6"
  shows "ip_frame_ok (lsu_frame p iface nbr) IP_PROTO_PWOSPF (if_ip iface) (nbr_ip nbr) (if_addr iface)"
    and "j < length p \<Longrightarrow> ld8 (lsu_frame p iface nbr) (34 + j) = ld8 p j"
    and "length (lsu_frame p iface nbr) = 34 + length p"
proof -
  let ?b = "st_bytes (replicate (34 + length p) 0) 34 (ld_bytes p 0 (length p)) :: packet"
  let ?f = "ip_frame ?b (ntohs (pwospf_len_of p 0)) IP_PROTO_PWOSPF (if_ip iface) (nbr_ip nbr) (if_addr iface)"
  have f: "lsu_frame p iface nbr = ?f" by (simp add: lsu_frame_eq plen Let_def)
  have "ntohs (pwospf_len_of p 0) = of_nat (length ?b - 34)" using plen [symmetric] by simp
  note ff = ip_frame_fields [OF _ mac this, where proto = IP_PROTO_PWOSPF and src = "if_ip iface" and dst = "nbr_ip nbr"]
  show "ip_frame_ok (lsu_frame p iface nbr) IP_PROTO_PWOSPF (if_ip iface) (nbr_ip nbr) (if_addr iface)"
    "length (lsu_frame p iface nbr) = 34 + length p"
    unfolding f using ff(1,3) by simp_all
  show "ld8 (lsu_frame p iface nbr) (34 + j) = ld8 p j" if "j < length p"
    unfolding f using ff(2) that by (simp add: ld8_st_bytes) (simp add: ld_bytes_def)
qed


text \<open>Router 1.1.1.1 with the network 10.0.0.0/24 behind it and neighbour 2.2.2.2.\<close>

definition router1 :: pwospf_router where
  "router1 = router9\<lparr>r_router_id := 0x01010101, r_seq := 7, r_interface_list :=
     [\<lparr>pi_subnet = 0x0000000A, pi_mask = 0x00FFFFFF, pi_router_id = 0x02020202, pi_is_active = True\<rparr>]\<rparr>"

definition rs_router1 :: router_state where
  "rs_router1 = rs0\<lparr>rs_router_id := 0x01010101, rs_router_list := [router1], rs_lsu_broadcast := True\<rparr>"

definition iface1 :: iface_entry where
  "iface1 = \<lparr>if_name = ''eth0'', if_addr = [2, 0, 0, 0, 0, 1], if_ip = 0x0100000A, if_mask = 0x00FFFFFF,
     if_speed = 0, if_is_active = True, if_last_sent_hello = 0,
     if_nbr_routers = [\<lparr>nbr_router_id = 0x02020202, nbr_ip = 0x0200000A, nbr_last_rcvd_hello = 0\<rparr>], if_is_wan = 0\<rparr>"


end
