(* ===== verification/Pwospf_Links.thy ===== *)
theory Pwospf_Links
  imports Or_Pwospf
begin

section \<open>Active links\<close>

text \<open>
  What \<^verbatim>\<open>propagate_pwospf_changes\<close> leaves in the flags of the interfaces: an interface that has a
  counterpart at the router it names is active, and an active interface has a counterpart at
  one of its ends. The flags are read by position, a router and an index in its list.
\<close>

type_synonym iface_pos = "u32 \<times> nat"

text \<open>Everything about the links but the flags.\<close>

definition skel :: "pwospf_router list \<Rightarrow> (u32 \<times> (u32 \<times> u32 \<times> u32) list) list" where
  "skel l = map (\<lambda>r. (r_router_id r,
     map (\<lambda>i. (pi_subnet i, pi_mask i, pi_router_id i)) (r_interface_list r))) l"

definition iface_at :: "pwospf_router list \<Rightarrow> iface_pos \<Rightarrow> pwospf_interface option" where
  "iface_at l k = (case get_router_by_rid (fst k) l of None \<Rightarrow> None
     | Some r \<Rightarrow> if snd k < length (r_interface_list r) then Some (r_interface_list r ! snd k) else None)"

definition act :: "pwospf_router list \<Rightarrow> iface_pos \<Rightarrow> bool" where
  "act l k = (case iface_at l k of None \<Rightarrow> False | Some i \<Rightarrow> pi_is_active i)"

text \<open>The interface at one position names the router of the other and has the same network.\<close>

definition link_at :: "pwospf_router list \<Rightarrow> iface_pos \<Rightarrow> iface_pos \<Rightarrow> bool" where
  "link_at l k k' = (case (iface_at l k, iface_at l k') of
     (Some i, Some i') \<Rightarrow> pi_router_id i = fst k' \<and> iface_links i i'
   | _ \<Rightarrow> False)"

lemma skel_length: "skel l = skel l' \<Longrightarrow> map r_router_id l = map r_router_id l'"
proof -
  assume "skel l = skel l'"
  then have "map fst (skel l) = map fst (skel l')" by simp
  then show ?thesis by (simp add: skel_def comp_def)
qed

definition net_at :: "pwospf_router list \<Rightarrow> iface_pos \<Rightarrow> (u32 \<times> u32 \<times> u32) option" where
  "net_at l k = map_option (\<lambda>i. (pi_subnet i, pi_mask i, pi_router_id i)) (iface_at l k)"

lemma net_at_skel:
  "net_at l k = (case map_of (skel l) (fst k) of None \<Rightarrow> None
     | Some is \<Rightarrow> if snd k < length is then Some (is ! snd k) else None)"
  by (induction l) (auto simp: net_at_def iface_at_def get_router_by_rid_def skel_def split: option.splits)

lemma link_at_net:
  "link_at l k k' = (case (net_at l k, net_at l k') of
     (Some (s, m, r), Some (s', m', r')) \<Rightarrow> r = fst k' \<and> s = s' \<and> m = m' \<and> r \<noteq> 0 \<and> r' \<noteq> 0
   | _ \<Rightarrow> False)"
  by (cases "iface_at l k"; cases "iface_at l k'") (simp_all add: link_at_def net_at_def iface_links_def)

lemma link_at_skel:
  assumes "skel l = skel l'"
  shows "link_at l k k' = link_at l' k k'" and "(iface_at l k = None) = (iface_at l' k = None)"
proof -
  have eq: "net_at l k = net_at l' k" for k by (simp add: net_at_skel assms)
  show "link_at l k k' = link_at l' k k'" by (simp only: link_at_net eq)
  have "(net_at l k = None) = (iface_at l k = None)" for l by (simp add: net_at_def)
  from this [of l] this [of l'] eq [of k] show "(iface_at l k = None) = (iface_at l' k = None)" by simp
qed

lemma act_valid: "act l k \<Longrightarrow> iface_at l k \<noteq> None"
  by (auto simp: act_def split: option.splits)

lemma map_update_same: "f y = f (xs ! j) \<Longrightarrow> map f (xs[j := y]) = map f xs"
  by (cases "j < length xs") (simp_all add: map_update list_update_same_conv list_update_beyond)

lemma skel_set_iface_active [simp]: "skel (set_iface_active rid j b l) = skel l"
  unfolding skel_def set_iface_active_def
  by (rule map_upd_first) (simp add: map_update_same)

lemma act_set_iface_active:
  "act (set_iface_active rid j b l) k = (if k = (rid, j) then b \<and> iface_at l k \<noteq> None else act l k)"
proof -
  let ?f = "\<lambda>r :: pwospf_router. r\<lparr>r_interface_list :=
    (r_interface_list r)[j := (r_interface_list r ! j)\<lparr>pi_is_active := b\<rparr>]\<rparr>"
  have "get_router_by_rid (fst k) (set_iface_active rid j b l) =
      map_option (\<lambda>r. if fst k = rid then ?f r else r) (get_router_by_rid (fst k) l)"
    unfolding set_iface_active_def by (rule get_router_upd_first) simp
  then show ?thesis
    by (cases k; cases "get_router_by_rid (fst k) l") (auto simp: act_def iface_at_def nth_list_update)
qed

text \<open>One interface: its own flag is computed anew, the flags of its counterparts are set.\<close>

lemma activate_links_act:
  assumes "get_router_by_rid v l = Some a"
  shows "skel (activate_links rid j i a l) = skel l"
    and "act (activate_links rid j i a l) k = (act l k \<or> iface_at l k \<noteq> None \<and>
      (\<exists>t<length (r_interface_list a). iface_links i (r_interface_list a ! t) \<and> (k = (rid, j) \<or> k = (v, t))))"
proof -
  have v: "r_router_id a = v" using assms by (auto simp: get_router_by_rid_def dest: find_SomeD)
  let ?g = "\<lambda>l t. if iface_links i (r_interface_list a ! t)
    then set_iface_active (r_router_id a) t True (set_iface_active rid j True l) else l"
  have "skel (foldl ?g l ts) = skel l \<and>
      act (foldl ?g l ts) k = (act l k \<or> iface_at l k \<noteq> None \<and>
        (\<exists>t\<in>set ts. iface_links i (r_interface_list a ! t) \<and> (k = (rid, j) \<or> k = (v, t))))" for ts
  proof (induction ts arbitrary: l)
    case (Cons t ts)
    have "skel (?g l t) = skel l" by simp
    moreover have "(iface_at (?g l t) k = None) = (iface_at l k = None)"
      by (rule link_at_skel(2)) simp
    moreover have "(iface_at (set_iface_active rid j True l) k = None) = (iface_at l k = None)"
      by (rule link_at_skel(2)) simp
    then have "act (?g l t) k = (act l k \<or> iface_at l k \<noteq> None \<and>
        iface_links i (r_interface_list a ! t) \<and> (k = (rid, j) \<or> k = (v, t)))"
      using act_valid [of l k] by (auto simp: act_set_iface_active v)
    ultimately show ?case using Cons.IH [of "?g l t"] by auto
  qed simp
  from this [of "[0..<length (r_interface_list a)]"]
  show "skel (activate_links rid j i a l) = skel l"
    "act (activate_links rid j i a l) k = (act l k \<or> iface_at l k \<noteq> None \<and>
      (\<exists>t<length (r_interface_list a). iface_links i (r_interface_list a ! t) \<and> (k = (rid, j) \<or> k = (v, t))))"
    by (simp_all add: activate_links_def Bex_def)
qed

lemma link_at_from:
  assumes "net_at l k = Some (pi_subnet i, pi_mask i, pi_router_id i)"
  shows "link_at l k k' \<longleftrightarrow> fst k' = pi_router_id i \<and> (\<exists>a. get_router_by_rid (pi_router_id i) l = Some a \<and>
    snd k' < length (r_interface_list a) \<and> iface_links i (r_interface_list a ! snd k'))"
proof -
  obtain i' where "iface_at l k = Some i'" "pi_subnet i' = pi_subnet i" "pi_mask i' = pi_mask i"
      "pi_router_id i' = pi_router_id i"
    using assms by (auto simp: net_at_def)
  then show ?thesis
    by (cases "get_router_by_rid (fst k') l") (auto simp: link_at_def iface_at_def [of l k'] iface_links_def)
qed

lemma determine_active_interface_act:
  assumes i: "net_at l (rid, j) = Some (pi_subnet i, pi_mask i, pi_router_id i)"
  shows "skel (determine_active_interface rid j i l) = skel l"
    and "act (determine_active_interface rid j i l) k =
      (if k = (rid, j) then \<exists>k'. link_at l k k' else act l k \<or> link_at l (rid, j) k)"
proof -
  define m where "m = set_iface_active rid j False l"
  have skel: "skel m = skel l" by (simp add: m_def)
  have link: "link_at l (rid, j) k' = link_at m (rid, j) k'" for k' using link_at_skel(1) [OF skel] by simp
  have i': "net_at m (rid, j) = Some (pi_subnet i, pi_mask i, pi_router_id i)"
    using i by (simp add: net_at_skel skel)
  note from_i = link_at_from [OF i']
  have m: "act m k = (k \<noteq> (rid, j) \<and> act l k)" for k
    by (simp add: m_def act_set_iface_active)
  have valid: "iface_at m (rid, j) \<noteq> None" using i' by (auto simp: net_at_def)
  have "skel (determine_active_interface rid j i l) = skel l \<and>
    act (determine_active_interface rid j i l) k =
      (if k = (rid, j) then \<exists>k'. link_at l k k' else act l k \<or> link_at l (rid, j) k)"
  proof (cases "get_router_by_rid (pi_router_id i) m")
    case None
    then show ?thesis
      by (auto simp: determine_active_interface_def m_def [symmetric] skel m link from_i)
  next
    case (Some a)
    note al = activate_links_act [OF Some, of rid j i]
    have k: "link_at m (rid, j) k \<Longrightarrow> iface_at m k \<noteq> None"
      by (auto simp: link_at_def split: option.splits)
    have "act (activate_links rid j i a m) k =
        (if k = (rid, j) then \<exists>k'. link_at m k k' else act l k \<or> link_at m (rid, j) k)"
    proof (cases "k = (rid, j)")
      case True
      then show ?thesis using valid Some by (auto simp: al(2) m from_i)
    next
      case False
      then show ?thesis using k Some by (cases k) (auto simp: al(2) m from_i)
    qed
    with Some show ?thesis
      by (simp add: determine_active_interface_def m_def [symmetric] al(1) skel link)
  qed
  then show "skel (determine_active_interface rid j i l) = skel l"
    "act (determine_active_interface rid j i l) k =
      (if k = (rid, j) then \<exists>k'. link_at l k k' else act l k \<or> link_at l (rid, j) k)" by blast+
qed

text \<open>What visiting a list of positions achieves, whatever their order.\<close>

definition visited :: "iface_pos list \<Rightarrow> pwospf_router list \<Rightarrow> pwospf_router list \<Rightarrow> bool" where
  "visited ks l l' \<longleftrightarrow> skel l' = skel l \<and>
     (\<forall>k. (\<exists>k'. link_at l k k') \<longrightarrow> k \<in> set ks \<or> act l k \<longrightarrow> act l' k) \<and>
     (\<forall>k. act l' k \<longrightarrow> (\<exists>k'. link_at l k k') \<or> (\<exists>k'. link_at l k' k) \<or> (act l k \<and> k \<notin> set ks))"

lemma visited_Nil: "visited [] l l"
  by (simp add: visited_def)

lemma visited_append:
  assumes "visited ks l m" and "visited ks' m l'"
  shows "visited (ks @ ks') l l'"
proof -
  have "link_at m = link_at l" using assms(1) link_at_skel(1) [of m l] by (simp add: visited_def fun_eq_iff)
  then show ?thesis using assms unfolding visited_def set_append Un_iff by (elim conjE) (intro conjI allI impI, metis+)
qed

lemma visited_one:
  "net_at l (rid, j) = Some (pi_subnet i, pi_mask i, pi_router_id i) \<Longrightarrow>
     visited [(rid, j)] l (determine_active_interface rid j i l)"
  unfolding visited_def by (auto simp: determine_active_interface_act)

lemma visited_foldl:
  assumes "\<And>m x. x \<in> set xs \<Longrightarrow> skel m = skel l \<Longrightarrow> visited (ks x) m (f m x)"
  shows "visited (concat (map ks xs)) l (foldl f l xs)"
proof -
  have "visited (concat (map ks xs)) m (foldl f m xs)" if "skel m = skel l" for m
    using assms that
  proof (induction xs arbitrary: m)
    case (Cons x xs)
    then have one: "visited (ks x) m (f m x)" by simp
    then have "skel (f m x) = skel l" using Cons.prems(2) by (simp add: visited_def)
    with Cons have "visited (concat (map ks xs)) (f m x) (foldl f (f m x) xs)" by simp
    with visited_append [OF one] show ?case by simp
  qed (simp add: visited_Nil)
  then show ?thesis by simp
qed

lemma visited_router:
  assumes "distinct (map r_router_id l)" and "r \<in> set l" and m: "skel m = skel l"
  shows "visited (map (Pair (r_router_id r)) [0..<length (r_interface_list r)]) m (determine_active_interfaces r m)"
proof -
  let ?rid = "r_router_id r"
  have "visited (concat (map (\<lambda>j. [(?rid, j)]) [0..<length (r_interface_list r)])) m
      (determine_active_interfaces r m)"
    unfolding determine_active_interfaces_def
  proof (rule visited_foldl)
    fix n j assume j: "j \<in> set [0..<length (r_interface_list r)]" and n: "skel n = skel m"
    have "get_router_by_rid ?rid l = Some r" using assms by (simp add: get_router_Some)
    with j have "net_at l (?rid, j) = Some (pi_subnet (r_interface_list r ! j),
        pi_mask (r_interface_list r ! j), pi_router_id (r_interface_list r ! j))"
      by (simp add: net_at_def iface_at_def)
    then show "visited [(?rid, j)] n (determine_active_interface ?rid j (r_interface_list r ! j) n)"
      by (intro visited_one) (simp add: net_at_skel n m)
  qed
  moreover have "concat (map (\<lambda>j. [(?rid, j)]) js) = map (Pair ?rid) js" for js :: "nat list"
    by (induction js) auto
  ultimately show ?thesis by simp
qed

subsection \<open>The flags after a change\<close>

text \<open>The interface names a router of the list that has the same network, or is named by one.\<close>

definition linked_to :: "pwospf_router list \<Rightarrow> pwospf_interface \<Rightarrow> bool" where
  "linked_to l i \<longleftrightarrow> (\<exists>a\<in>set l. r_router_id a = pi_router_id i \<and> (\<exists>i'\<in>set (r_interface_list a). iface_links i i'))"

definition linked_from :: "pwospf_router list \<Rightarrow> u32 \<Rightarrow> pwospf_interface \<Rightarrow> bool" where
  "linked_from l rid i \<longleftrightarrow> (\<exists>a\<in>set l. \<exists>i'\<in>set (r_interface_list a). pi_router_id i' = rid \<and> iface_links i' i)"

lemma iface_at_Some:
  assumes "distinct (map r_router_id l)"
  shows "iface_at l k = Some i \<longleftrightarrow>
     (\<exists>a\<in>set l. r_router_id a = fst k \<and> snd k < length (r_interface_list a) \<and> i = r_interface_list a ! snd k)"
proof -
  have "(\<exists>a\<in>set l. r_router_id a = fst k \<and> P a) \<longleftrightarrow> (\<exists>a. get_router_by_rid (fst k) l = Some a \<and> P a)" for P
    by (auto simp: get_router_Some [OF assms])
  then show ?thesis by (cases "get_router_by_rid (fst k) l") (auto simp: iface_at_def)
qed

lemma linked_positions:
  assumes l: "distinct (map r_router_id l)" and i: "iface_at l (rid, j) = Some i"
  shows "(\<exists>k. link_at l (rid, j) k) = linked_to l i" and "(\<exists>k. link_at l k (rid, j)) = linked_from l rid i"
proof -
  show "(\<exists>k. link_at l (rid, j) k) = linked_to l i"
  proof
    assume "\<exists>k. link_at l (rid, j) k"
    then show "linked_to l i"
      using i by (auto simp: link_at_def linked_to_def iface_at_Some [OF l] split: option.splits) (metis nth_mem)
  next
    assume "linked_to l i"
    then obtain a t where a: "a \<in> set l" "r_router_id a = pi_router_id i" "t < length (r_interface_list a)"
        "iface_links i (r_interface_list a ! t)"
      unfolding linked_to_def by (metis in_set_conv_nth)
    then have "iface_at l (r_router_id a, t) = Some (r_interface_list a ! t)" by (auto simp: iface_at_Some [OF l])
    with a i have "link_at l (rid, j) (r_router_id a, t)" by (simp add: link_at_def)
    then show "\<exists>k. link_at l (rid, j) k" ..
  qed
  show "(\<exists>k. link_at l k (rid, j)) = linked_from l rid i"
  proof
    assume "\<exists>k. link_at l k (rid, j)"
    then show "linked_from l rid i"
      using i by (auto simp: link_at_def linked_from_def iface_at_Some [OF l] split: option.splits) (metis nth_mem)
  next
    assume "linked_from l rid i"
    then obtain a t where a: "a \<in> set l" "pi_router_id (r_interface_list a ! t) = rid" "t < length (r_interface_list a)"
        "iface_links (r_interface_list a ! t) i"
      unfolding linked_from_def by (metis in_set_conv_nth)
    then have "iface_at l (r_router_id a, t) = Some (r_interface_list a ! t)" by (auto simp: iface_at_Some [OF l])
    with a i have "link_at l (r_router_id a, t) (rid, j)" by (simp add: link_at_def)
    then show "\<exists>k. link_at l k (rid, j)" ..
  qed
qed

definition links_ok :: "pwospf_router list \<Rightarrow> bool" where
  "links_ok l \<longleftrightarrow> (\<forall>r\<in>set l. \<forall>i\<in>set (r_interface_list r).
     (linked_to l i \<longrightarrow> pi_is_active i) \<and>
     (pi_is_active i \<longrightarrow> linked_to l i \<or> linked_from l (r_router_id r) i))"

lemma links_ok_links:
  "links_ok l \<longleftrightarrow> (\<forall>(rid, is)\<in>set (links l). \<forall>i\<in>set is.
     ((\<exists>(rid', is')\<in>set (links l). rid' = pi_router_id i \<and> (\<exists>i'\<in>set is'. iface_links i i')) \<longrightarrow> pi_is_active i) \<and>
     (pi_is_active i \<longrightarrow> (\<exists>(rid', is')\<in>set (links l). rid' = pi_router_id i \<and> (\<exists>i'\<in>set is'. iface_links i i')) \<or>
       (\<exists>(rid', is')\<in>set (links l). \<exists>i'\<in>set is'. pi_router_id i' = rid \<and> iface_links i' i)))"
  by (simp add: links_ok_def linked_to_def linked_from_def links_def)

lemma determine_all_links_ok:
  assumes "distinct (map r_router_id l)"
  shows "skel (foldl (\<lambda>m r. determine_active_interfaces r m) l l) = skel l"
    and "links_ok (foldl (\<lambda>m r. determine_active_interfaces r m) l l)"
proof -
  let ?ks = "\<lambda>r :: pwospf_router. map (Pair (r_router_id r)) [0..<length (r_interface_list r)]"
  let ?l' = "foldl (\<lambda>m r. determine_active_interfaces r m) l l"
  have v: "visited (concat (map ?ks l)) l ?l'"
    by (rule visited_foldl) (rule visited_router [OF assms])
  then show skel: "skel ?l' = skel l" by (simp add: visited_def)
  have dist: "distinct (map r_router_id ?l')" using assms skel_length [OF skel] by simp
  have "(linked_to ?l' i \<longrightarrow> pi_is_active i) \<and> (pi_is_active i \<longrightarrow> linked_to ?l' i \<or> linked_from ?l' (r_router_id r) i)"
    if r: "r \<in> set ?l'" and i: "i \<in> set (r_interface_list r)" for r i
  proof -
    from i obtain j where j: "j < length (r_interface_list r)" "i = r_interface_list r ! j"
      by (auto simp: in_set_conv_nth)
    let ?k = "(r_router_id r, j)"
    have at: "iface_at ?l' ?k = Some i" using r j by (auto simp: iface_at_Some [OF dist])
    then have "iface_at l ?k \<noteq> None" using link_at_skel(2) [OF skel, of ?k] by simp
    then obtain i0 where "iface_at l ?k = Some i0" by blast
    then have k: "?k \<in> set (concat (map ?ks l))" by (auto simp: iface_at_Some [OF assms] intro!: bexI)
    have active: "pi_is_active i = act ?l' ?k" using at by (simp add: act_def)
    have links: "link_at l a b = link_at ?l' a b" for a b by (rule link_at_skel(1) [OF skel, symmetric])
    note pos = linked_positions [OF dist at]
    from v k have "(\<exists>k'. link_at ?l' ?k k') \<longrightarrow> act ?l' ?k"
      "act ?l' ?k \<longrightarrow> (\<exists>k'. link_at ?l' ?k k') \<or> (\<exists>k'. link_at ?l' k' ?k)"
      unfolding visited_def links by blast+
    then show ?thesis unfolding pos active by blast
  qed
  then show "links_ok ?l'" unfolding links_ok_def by blast
qed

lemma upd_router_links:
  "(\<And>r. r_router_id (f r) = r_router_id r \<and> r_interface_list (f r) = r_interface_list r) \<Longrightarrow>
     links (rs_router_list (upd_router rid f rs)) = links (rs_router_list rs)"
  by (simp add: upd_router_def links_upd_first)

lemma start_flood_links:
  assumes "start_lsu_bcast_flood now rs = Some rs'"
  shows "links (rs_router_list rs') = links (rs_router_list rs)"
proof (cases "rs_lsu_broadcast rs")
  case True
  with assms obtain p m where c: "construct_pwospf_lsu_packet now rs = Some (p, m)"
    and rs': "rs' = upd_router (rs_router_id m) (\<lambda>r. r\<lparr>r_last_update := now\<rparr>) (broadcast_pwospf_lsu_packet m p None)"
    by (auto simp: start_lsu_bcast_flood_def bind_eq_Some_conv broadcast_lsu_queue split: prod.splits)
  from c have "m = upd_router (rs_router_id rs) (\<lambda>r. r\<lparr>r_last_update := now, r_seq := r_seq r + 1\<rparr>) rs"
    by (auto simp: construct_pwospf_lsu_packet_def Let_def bind_eq_Some_conv split_beta)
  then show ?thesis unfolding rs' by (simp add: upd_router_links broadcast_lsu_queue)
next
  case False
  with assms show ?thesis by (simp add: start_lsu_bcast_flood_def)
qed

lemma propagate_links:
  assumes "propagate_pwospf_changes now rs = Some rs'"
  shows "links (rs_router_list rs') =
    links (foldl (\<lambda>m r. determine_active_interfaces r m) (rs_router_list rs) (rs_router_list rs))"
  using start_flood_links assms
  by (fastforce simp: propagate_pwospf_changes_def dijkstra_trigger_def Let_def)

text \<open>
  C13. After every change that is propagated, an interface entry of the link state database that
  has a counterpart at the router it names is active, and an active entry has a counterpart at
  one of its two ends. Nothing but the flags changes in the entries.
\<close>

theorem propagate_active_links:
  assumes "distinct (map r_router_id (rs_router_list rs))" and "propagate_pwospf_changes now rs = Some rs'"
  shows "links_ok (rs_router_list rs') \<and> skel (rs_router_list rs') = skel (rs_router_list rs)"
proof -
  let ?l = "foldl (\<lambda>m r. determine_active_interfaces r m) (rs_router_list rs) (rs_router_list rs)"
  have links: "links (rs_router_list rs') = links ?l" by (rule propagate_links [OF assms(2)])
  have "skel l = map (\<lambda>(rid, is). (rid, map (\<lambda>i. (pi_subnet i, pi_mask i, pi_router_id i)) is)) (links l)" for l
    by (simp add: skel_def links_def)
  then have "skel (rs_router_list rs') = skel ?l" by (simp only: links)
  moreover have "links_ok (rs_router_list rs') = links_ok ?l" by (simp only: links_ok_links links)
  ultimately show ?thesis using determine_all_links_ok [OF assms(1)] by simp
qed

text \<open>Two neighbours on one network, before their flags are set.\<close>

definition rs_pair :: router_state where
  "rs_pair = rs0\<lparr>rs_router_id := 1, rs_router_list := map (\<lambda>(rid, n). \<lparr>r_router_id = rid, r_area_id = 0,
     r_seq = 0, r_last_update = 0, r_distance = 0, r_shortest_path_found = False,
     r_interface_list = [\<lparr>pi_subnet = 0x0A, pi_mask = 0xFF, pi_router_id = n, pi_is_active = False\<rparr>],
     r_prev_router = None\<rparr>) [(1, 2), (2, 1)]\<rparr>"

theorem propagate_active_links_witness:
  "\<exists>rs'. propagate_pwospf_changes 1 rs_pair = Some rs' \<and> links_ok (rs_router_list rs') \<and>
    skel (rs_router_list rs') = skel (rs_router_list rs_pair)"
proof -
  have "\<exists>rs'. propagate_pwospf_changes 1 rs_pair = Some rs'"
    by (simp add: propagate_pwospf_changes_def start_lsu_bcast_flood_def dijkstra_trigger_def Let_def
        rs_pair_def rs0_def zero_state_def)
  moreover have "distinct (map r_router_id (rs_router_list rs_pair))" by (simp add: rs_pair_def)
  ultimately show ?thesis using propagate_active_links by blast
qed

end
