(* ===== verification/Pwospf_Invariant.thy ===== *)
theory Pwospf_Invariant
  imports Pwospf_Links
begin

section \<open>The link state database over the runs of the router\<close>

text \<open>
  The events that touch the link state database as a step relation: a PWOSPF packet arrives, a
  thread of the protocol or of the route computation makes a round, or an interface goes up or
  down. In every state that they reach the database holds one entry per router identifier
  and one for our own.
\<close>

definition router_ids :: "router_state \<Rightarrow> u32 \<times> u32 list" where
  "router_ids rs = (rs_router_id rs, map r_router_id (rs_router_list rs))"

lemma links_router_ids:
  "links (rs_router_list rs') = links (rs_router_list rs) \<Longrightarrow> rs_router_id rs' = rs_router_id rs \<Longrightarrow>
     router_ids rs' = router_ids rs"
  by (auto simp: router_ids_def dest: links_rids)

subsection \<open>Operations that keep the identifiers\<close>

lemma upd_router_ids [simp]:
  "(\<And>r. r_router_id r = rid \<Longrightarrow> r_router_id (f r) = rid) \<Longrightarrow> router_ids (upd_router rid f rs) = router_ids rs"
  unfolding router_ids_def upd_router_def by simp (rule map_upd_first, simp)

lemma upd_iface_ids [simp]: "router_ids (upd_iface name f rs) = router_ids rs"
  by (simp add: router_ids_def upd_iface_def)

lemma send_packet_ids [simp]: "router_ids (snd (send_packet p ifc rs)) = router_ids rs"
  by (simp add: router_ids_def send_packet_def Let_def)

lemma write_rtable_rows_lists:
  "write_rtable_rows cur is rs = Some rs' \<Longrightarrow>
     rs_router_list rs' = rs_router_list rs \<and> rs_router_id rs' = rs_router_id rs"
  by (induction cur "is" rs rule: write_rtable_rows.induct)
     (auto simp: bind_eq_Some_conv write_rtable_row_def Let_def)

lemma trigger_rtable_lists:
  "trigger_rtable_modified rs = Some rs' \<Longrightarrow>
     rs_router_list rs' = rs_router_list rs \<and> rs_router_id rs' = rs_router_id rs"
  by (auto simp: trigger_rtable_modified_def bind_eq_Some_conv write_rtable_to_hw_def Let_def
      split: if_splits dest!: write_rtable_rows_lists)

lemma trigger_rtable_ids: "trigger_rtable_modified rs = Some rs' \<Longrightarrow> router_ids rs' = router_ids rs"
  using trigger_rtable_lists by (simp add: router_ids_def)

lemma change_routes_ids:
  "activate_routes rs ifc = Some (c, rs') \<Longrightarrow> router_ids rs' = router_ids rs"
  "deactivate_routes rs ifc = Some (c, rs') \<Longrightarrow> router_ids rs' = router_ids rs"
  by (auto simp: activate_routes_def deactivate_routes_def bind_eq_Some_conv router_ids_def
      dest!: trigger_rtable_ids)

lemma send_ip_ids: "send_ip now rs p hop ifc = Some (c, rs') \<Longrightarrow> router_ids rs' = router_ids rs"
  by (auto simp: send_ip_def arp_queue_add_def send_arp_request_def send_packet_def Let_def router_ids_def
      bind_eq_Some_conv split: option.splits)

lemma start_flood_ids:
  assumes "start_lsu_bcast_flood now rs = Some rs'"
  shows "router_ids rs' = router_ids rs"
  by (rule links_router_ids) (rule start_flood_links [OF assms], rule start_flood_frame(1) [OF assms])

lemma determine_active_ids:
  "map r_router_id (foldl (\<lambda>m r. determine_active_interfaces r m) l rs) = map r_router_id l"
proof -
  have "map fst (seqs (foldl (\<lambda>m r. determine_active_interfaces r m) l rs)) = map fst (seqs l)" by simp
  then show ?thesis by (simp add: seqs_def comp_def del: seqs_determine)
qed

lemma propagate_ids:
  assumes "propagate_pwospf_changes now rs = Some rs'"
  shows "router_ids rs' = router_ids rs"
  using links_rids [OF propagate_links [OF assms]] propagate_seq(1) [OF assms] determine_active_ids
  by (simp add: router_ids_def)

lemma broadcast_ids [simp]: "router_ids (broadcast_pwospf_lsu_packet rs p src) = router_ids rs"
  by (simp add: router_ids_def broadcast_lsu_queue)

lemma rebroadcast_ids [simp]: "router_ids (rebroadcast_lsu rs p ttl) = router_ids rs"
  by (simp add: rebroadcast_lsu_def Let_def split_beta)

lemma add_neighbor_interface_id: "add_neighbor_interface ifc rid r = Some r' \<Longrightarrow> r_router_id r' = r_router_id r"
  by (auto simp: add_neighbor_interface_def split: if_splits)

lemma drop_neighbor_interface_id: "drop_neighbor_interface ifc rid r = Some r' \<Longrightarrow> r_router_id r' = r_router_id r"
  by (auto simp: drop_neighbor_interface_def Let_def split: if_splits)

lemma timedout_loop_ids:
  "timedout_loop now hello our ifc nbrs l c = Some (nbrs', l', c') \<Longrightarrow> map r_router_id l' = map r_router_id l"
proof (induction now hello our ifc nbrs l c arbitrary: nbrs' l' c' rule: timedout_loop.induct)
  case (2 now hello our ifc nbr cur l c)
  show ?case
  proof (cases "now - nbr_last_rcvd_hello nbr > 3 * uint hello")
    case True
    with 2(3) obtain r r' where r: "get_router_by_rid our l = Some r"
        "drop_neighbor_interface ifc (nbr_router_id nbr) r = Some r'"
      and rec: "timedout_loop now hello our ifc cur (upd_first (\<lambda>r. r_router_id r = our) (\<lambda>_. r') l) 1 =
        Some (nbrs', l', c')"
      by (auto simp: bind_eq_Some_conv)
    have "r_router_id r' = our"
      using drop_neighbor_interface_id [OF r(2)] r(1) by (auto simp: get_router_by_rid_def dest: find_SomeD)
    then have "map r_router_id (upd_first (\<lambda>r. r_router_id r = our) (\<lambda>_. r') l) = map r_router_id l"
      by (intro map_upd_first) simp
    with 2(1) [OF True r rec] show ?thesis by simp
  next
    case False
    with 2(2,3) show ?thesis by (fastforce simp: bind_eq_Some_conv)
  qed
qed simp

lemma determine_timedout_ids:
  "determine_timedout_interface now rs k = Some (c, rs') \<Longrightarrow> router_ids rs' = router_ids rs"
  by (auto simp: determine_timedout_interface_def Let_def bind_eq_Some_conv router_ids_def dest: timedout_loop_ids)

lemma hello_loop_ids: "hello_loop now ks c rs = Some (c', rs') \<Longrightarrow> router_ids rs' = router_ids rs"
proof (induction now ks c rs rule: hello_loop.induct)
  case (2 now k ks c rs)
  show ?case
  proof (cases "if_is_active (rs_if_list rs ! k)")
    case True
    let ?s = "snd (send_packet (hello_frame rs (rs_if_list rs ! k)) (if_name (rs_if_list rs ! k)) rs)"
    let ?m = "?s\<lparr>rs_if_list := (rs_if_list ?s)[k := (rs_if_list rs ! k)\<lparr>if_last_sent_hello := now\<rparr>]\<rparr>"
    from True 2(3) obtain d n where d: "determine_timedout_interface now ?m k = Some (d, n)"
      and rec: "hello_loop now ks (if d = 1 then 1 else c) n = Some (c', rs')"
      by (auto simp: Let_def bind_eq_Some_conv split_beta)
    have "router_ids rs' = router_ids n"
      by (rule 2(1) [OF refl True refl prod.collapse refl d refl rec])
    also have "\<dots> = router_ids ?m" by (rule determine_timedout_ids [OF d])
    also have "\<dots> = router_ids rs"
      using send_packet_ids [of "hello_frame rs (rs_if_list rs ! k)" "if_name (rs_if_list rs ! k)" rs]
      by (simp add: router_ids_def)
    finally show ?thesis .
  next
    case False
    with 2(2,3) show ?thesis by (simp add: Let_def)
  qed
qed simp

lemma lsu_bcast_loop_ids: "lsu_bcast_loop now q rs = Some rs' \<Longrightarrow> router_ids rs' = router_ids rs"
proof (induction now q rs arbitrary: rs' rule: lsu_bcast_loop.induct)
  case (2 now lqe cur rs)
  show ?case
  proof (cases "get_next_hop IF_LEN rs (ip_dst (lqe_packet lqe) get_ip_hdr)")
    case None
    with 2(1,3) show ?thesis by simp
  next
    case (Some h)
    with 2(3) obtain c m where m: "send_ip now rs (lqe_packet lqe) (fst h) (snd h) = Some (c, m)"
      and rec: "lsu_bcast_loop now cur m = Some rs'"
      by (auto simp: bind_eq_Some_conv split: prod.splits)
    have "router_ids rs' = router_ids m"
      by (rule 2(2) [OF Some prod.collapse m refl rec])
    with send_ip_ids [OF m] show ?thesis by simp
  qed
qed simp

lemma dijkstra_loop_links: "links l' = links l" if "dijkstra_loop u l = Some l'"
proof (rule dijkstra_loop.raw_induct [where P = "\<lambda>u l l'. links l' = links l", OF _ that])
  fix f :: "u32 \<Rightarrow> pwospf_router list \<Rightarrow> pwospf_router list option" and u and l l' :: "pwospf_router list"
  assume IH: "\<And>u l l'. f u l = Some l' \<Longrightarrow> links l' = links l"
  let ?m = "upd_first (\<lambda>r. r_router_id r = u) (\<lambda>r. r\<lparr>r_shortest_path_found := True\<rparr>) l"
  assume "(let l = ?m in case get_router_by_rid u l of None \<Rightarrow> None
     | Some r_shortest \<Rightarrow> (let l = update_neighbor_distance r_shortest l
         in case get_shortest l of None \<Rightarrow> Some l | Some r \<Rightarrow> f (r_router_id r) l)) = Some l'"
  then obtain w where "links l' = links (update_neighbor_distance w ?m)"
    using IH by (auto simp: Let_def split: option.splits)
  also have "\<dots> = links ?m"
    using update_neighbor_loop_spec by (simp add: update_neighbor_distance_def)
  also have "\<dots> = links l" by (rule links_upd_first) simp
  finally show "links l' = links l" .
qed

lemma dijkstra_search_links:
  assumes "dijkstra_search our l = Some l'"
  shows "links l' = links l"
proof -
  have "links (dijkstra_init our l) = links l" by (simp add: dijkstra_init_def links_def)
  then show ?thesis
    using assms by (auto simp: dijkstra_search_def Let_def split: option.splits dest: dijkstra_loop_links)
qed

lemma dijkstra_step_links:
  assumes step: "dijkstra_step timed_out rs = Some rs'"
  shows "links (rs_router_list rs') = links (rs_router_list rs)" and "router_ids rs' = router_ids rs"
proof -
  have "links (rs_router_list rs') = links (rs_router_list rs) \<and> router_ids rs' = router_ids rs"
  proof (cases "timed_out \<and> \<not> rs_dijkstra_dirty rs")
    case True
    with step show ?thesis by (simp add: dijkstra_step_def)
  next
    case False
    with step obtain routes l' where
        c: "compute_rtable (rs_router_id rs) (rs_router_list rs) (rs_if_list rs) = Some (routes, l')"
      and t: "trigger_rtable_modified (rs\<lparr>rs_dijkstra_dirty := False, rs_router_list := l',
          rs_rtable := filter re_is_static (rs_rtable rs) @ routes\<rparr>) = Some rs'"
      by (auto simp: dijkstra_step_def Let_def bind_eq_Some_conv split: prod.splits if_splits)
    from c have "dijkstra_search (rs_router_id rs) (rs_router_list rs) = Some l'"
      by (auto simp: compute_rtable_def bind_eq_Some_conv)
    then have links: "links l' = links (rs_router_list rs)" by (rule dijkstra_search_links)
    have list: "rs_router_list rs' = l'" "rs_router_id rs' = rs_router_id rs"
      using trigger_rtable_lists [OF t] by simp_all
    then show ?thesis using links links_router_ids [of rs' rs] by simp
  qed
  then show "links (rs_router_list rs') = links (rs_router_list rs)" "router_ids rs' = router_ids rs" by blast+
qed

subsection \<open>The events\<close>

inductive router_step :: "router_state \<Rightarrow> router_state \<Rightarrow> bool" where
  packet: "process_pwospf_packet now rs p ifc = Some rs' \<Longrightarrow> router_step rs rs'"
| hello_round: "broadcast_pwospf_hello_packet now rs = Some rs' \<Longrightarrow> router_step rs rs'"
| lsu_round: "pwospf_lsu_step now rs = Some rs' \<Longrightarrow> router_step rs rs'"
| timeout_round: "pwospf_lsu_timeout_step now rs = Some rs' \<Longrightarrow> router_step rs rs'"
| bcast_round: "pwospf_lsu_bcast_step now rs = Some rs' \<Longrightarrow> router_step rs rs'"
| routes_round: "dijkstra_step timed_out rs = Some rs' \<Longrightarrow> router_step rs rs'"
| up: "iface_up now rs ifc = Some (c, rs') \<Longrightarrow> router_step rs rs'"
| down: "iface_down now rs ifc = Some (c, rs') \<Longrightarrow> router_step rs rs'"

text \<open>One entry for each identifier, and one of them is ours.\<close>

definition routers_inv :: "router_state \<Rightarrow> bool" where
  "routers_inv rs \<longleftrightarrow> distinct (map r_router_id (rs_router_list rs)) \<and> rs_router_id rs \<in> rids (rs_router_list rs)"

lemma routers_inv_ids:
  "routers_inv rs \<longleftrightarrow> distinct (snd (router_ids rs)) \<and> fst (router_ids rs) \<in> set (snd (router_ids rs))"
  by (simp add: routers_inv_def router_ids_def rids_def)

text \<open>What an event can do to the identifiers: nothing, add a new one, or drop others than ours.\<close>

definition ids_step :: "router_state \<Rightarrow> router_state \<Rightarrow> bool" where
  "ids_step rs rs' \<longleftrightarrow> rs_router_id rs' = rs_router_id rs \<and>
     (snd (router_ids rs') = snd (router_ids rs) \<or>
      (\<exists>rid. rid \<notin> set (snd (router_ids rs)) \<and> snd (router_ids rs') = snd (router_ids rs) @ [rid]) \<or>
      (\<exists>P. (\<forall>r. r_router_id r = rs_router_id rs \<longrightarrow> P r) \<and>
        snd (router_ids rs') = map r_router_id (filter P (rs_router_list rs))))"

lemma ids_step_same: "router_ids rs' = router_ids rs \<Longrightarrow> ids_step rs rs'"
  by (simp add: ids_step_def router_ids_def)

lemma ids_step_cong: "ids_step rs m \<Longrightarrow> router_ids rs' = router_ids m \<Longrightarrow> ids_step rs rs'"
  by (simp add: ids_step_def router_ids_def)

lemma ids_step_inv:
  assumes step: "ids_step rs rs'" and inv: "routers_inv rs"
  shows "routers_inv rs'"
proof -
  have own: "\<exists>r\<in>set (rs_router_list rs). r_router_id r = rs_router_id rs" "distinct (snd (router_ids rs))"
    using inv by (auto simp: routers_inv_def rids_def router_ids_def)
  have own': "rs_router_id rs \<in> set (snd (router_ids rs))"
    using inv by (simp add: routers_inv_def rids_def router_ids_def)
  have id: "fst (router_ids rs') = rs_router_id rs" using step by (simp add: ids_step_def router_ids_def)
  consider "snd (router_ids rs') = snd (router_ids rs)"
    | rid where "rid \<notin> set (snd (router_ids rs))" "snd (router_ids rs') = snd (router_ids rs) @ [rid]"
    | P where "\<forall>r. r_router_id r = rs_router_id rs \<longrightarrow> P r"
        "snd (router_ids rs') = map r_router_id (filter P (rs_router_list rs))"
    using step unfolding ids_step_def by blast
  then show ?thesis
  proof cases
    case 1
    with own(2) own' id show ?thesis by (simp add: routers_inv_ids)
  next
    case 2
    with own(2) own' id show ?thesis by (simp add: routers_inv_ids)
  next
    case 3
    from own(1) obtain r where r: "r \<in> set (rs_router_list rs)" "r_router_id r = rs_router_id rs" by blast
    with 3(1) have "r \<in> set (filter P (rs_router_list rs))" by simp
    then have "rs_router_id rs \<in> set (snd (router_ids rs'))"
      unfolding 3(2) r(2) [symmetric] by (simp only: set_map imageI)
    moreover have "distinct (snd (router_ids rs'))"
      using 3(2) own(2) by (simp add: router_ids_def distinct_map_filter)
    ultimately show ?thesis using id by (simp add: routers_inv_ids)
  qed
qed

lemma lsu_packet_ids:
  assumes "process_pwospf_lsu_packet now rs p = Some rs'"
  shows "ids_step rs rs'"
proof (cases "pwospf_rid_of p get_pwospf_hdr = rs_router_id rs")
  case True
  with assms show ?thesis by (auto simp: process_pwospf_lsu_packet_def intro: ids_step_same)
next
  case False
  let ?rid = "pwospf_rid_of p get_pwospf_hdr"
  let ?fwd = "\<lambda>rs. if lsu_ttl_of p - 1 > 0 then rebroadcast_lsu rs p (lsu_ttl_of p - 1) else rs"
  have fwd: "router_ids (?fwd m) = router_ids m" for m by simp
  have pop: "r_router_id (snd (populate_pwospf_router_interface_list r q)) = r_router_id r" for r q
    by (simp add: populate_pwospf_router_interface_list_def Let_def split: prod.split)
  show ?thesis
  proof (cases "get_router_by_rid ?rid (rs_router_list rs)")
    case None
    with assms False have "propagate_pwospf_changes now (?fwd (add_new_router_neighbor now rs p)) = Some rs'"
      by (simp add: process_pwospf_lsu_packet_def Let_def)
    from propagate_ids [OF this] have "router_ids rs' = router_ids (add_new_router_neighbor now rs p)"
      by (simp only: fwd)
    moreover have "router_ids (add_new_router_neighbor now rs p) =
        (rs_router_id rs, snd (router_ids rs) @ [?rid])"
      by (simp add: add_new_router_neighbor_def Let_def split_beta router_ids_def pop)
    moreover have "?rid \<notin> set (snd (router_ids rs))"
      using None by (simp add: get_router_None router_ids_def rids_def)
    ultimately show ?thesis by (auto simp: ids_step_def router_ids_def)
  next
    case (Some r)
    let ?r = "snd (populate_pwospf_router_interface_list (r\<lparr>r_last_update := now, r_seq := lsu_seq_of p\<rparr>) p)"
    have "r_router_id r = ?rid" using Some by (auto simp: get_router_by_rid_def dest: find_SomeD)
    then have r: "r_router_id ?r = ?rid" by (simp add: pop)
    have "router_ids (upd_router ?rid (\<lambda>_. ?r) rs) = router_ids rs" by (simp add: r)
    moreover have "rs' = rs \<or> propagate_pwospf_changes now (?fwd (upd_router ?rid (\<lambda>_. ?r) rs)) = Some rs' \<or>
        rs' = ?fwd (upd_router ?rid (\<lambda>_. ?r) rs)"
      using assms False Some by (auto simp: process_pwospf_lsu_packet_def Let_def split_beta split: if_splits)
    ultimately have "router_ids rs' = router_ids rs"
      using propagate_ids [of now "?fwd (upd_router ?rid (\<lambda>_. ?r) rs)" rs'] fwd [of "upd_router ?rid (\<lambda>_. ?r) rs"]
      by (elim disjE) simp_all
    then show ?thesis by (rule ids_step_same)
  qed
qed

lemma own_entry_ids:
  "get_router_by_rid v l = Some r \<Longrightarrow> add_neighbor_interface i rid r = Some r' \<Longrightarrow>
     router_ids (upd_router v (\<lambda>_. r') m) = router_ids m"
  by (rule upd_router_ids) (auto simp: get_router_by_rid_def dest!: find_SomeD add_neighbor_interface_id)

lemma hello_packet_ids:
  assumes "process_pwospf_hello_packet now rs p ifc = Some rs'"
  shows "router_ids rs' = router_ids rs"
proof -
  consider "rs' = rs" | f where "rs' = upd_iface ifc f rs"
    | f r i rid r' where "get_router_by_rid (rs_router_id (upd_iface ifc f rs)) (rs_router_list (upd_iface ifc f rs)) = Some r"
        "add_neighbor_interface i rid r = Some r'"
        "propagate_pwospf_changes now (upd_router (rs_router_id (upd_iface ifc f rs)) (\<lambda>_. r') (upd_iface ifc f rs)) = Some rs'"
    using assms unfolding process_pwospf_hello_packet_def Let_def
    by (auto simp: bind_eq_Some_conv split: if_splits)
  then show ?thesis
  proof cases
    case 3
    from propagate_ids [OF 3(3)] own_entry_ids [OF 3(1,2)] show ?thesis by simp
  qed simp_all
qed

lemma process_packet_ids:
  assumes "process_pwospf_packet now rs p ifc = Some rs'"
  shows "ids_step rs rs'"
  using assms
  by (auto simp: process_pwospf_packet_def split_beta Let_def split: if_splits
      intro: ids_step_same dest: hello_packet_ids lsu_packet_ids)

lemma hello_round_ids:
  assumes "broadcast_pwospf_hello_packet now rs = Some rs'"
  shows "router_ids rs' = router_ids rs"
  using assms
  by (auto simp: broadcast_pwospf_hello_packet_def bind_eq_Some_conv split: if_splits
      dest!: hello_loop_ids propagate_ids)

lemma timeout_round_ids:
  assumes "pwospf_lsu_timeout_step now rs = Some rs'"
  shows "ids_step rs rs'"
proof -
  define stays :: "pwospf_router \<Rightarrow> bool" where "stays = (\<lambda>r. r_router_id r = rs_router_id rs \<or>
    \<not> overdue now (r_last_update r) (rs_lsu_interval rs * 3))"
  let ?m = "rs\<lparr>rs_router_list := filter stays (rs_router_list rs)\<rparr>"
  have "pwospf_lsu_timeout_step now rs =
      (if \<forall>r\<in>set (rs_router_list rs). stays r then Some rs else propagate_pwospf_changes now ?m)"
    by (simp only: pwospf_lsu_timeout_step_def Let_def stays_def)
  with assms consider "rs' = rs" | "propagate_pwospf_changes now ?m = Some rs'" by (metis option.inject)
  then show ?thesis
  proof cases
    case 1
    then show ?thesis by (simp add: ids_step_same)
  next
    case 2
    have "\<forall>r. r_router_id r = rs_router_id rs \<longrightarrow> stays r" by (simp add: stays_def)
    then have "ids_step rs ?m" unfolding ids_step_def router_ids_def by auto
    then show ?thesis using propagate_ids [OF 2] by (rule ids_step_cong)
  qed
qed

lemma iface_change_ids:
  "iface_up now rs ifc = Some (c, rs') \<Longrightarrow> router_ids rs' = router_ids rs"
  "iface_down now rs ifc = Some (c, rs') \<Longrightarrow> router_ids rs' = router_ids rs"
  by (auto simp: iface_up_def iface_down_def Let_def bind_eq_Some_conv split: option.splits if_splits
      dest!: change_routes_ids propagate_ids)

lemma router_step_ids: "router_step rs rs' \<Longrightarrow> ids_step rs rs'"
proof (induction rule: router_step.induct)
  case (lsu_round now rs rs')
  then show ?case
    by (auto simp: pwospf_lsu_step_def split: option.splits if_splits intro: ids_step_same dest: start_flood_ids)
next
  case (bcast_round now rs rs')
  then have "router_ids rs' = router_ids (rs\<lparr>rs_lsu_queue := []\<rparr>)"
    unfolding pwospf_lsu_bcast_step_def by (rule lsu_bcast_loop_ids)
  then show ?case by (intro ids_step_same) (simp add: router_ids_def)
qed (auto intro: process_packet_ids ids_step_same timeout_round_ids
      dest: hello_round_ids dijkstra_step_links(2) iface_change_ids)

lemma router_steps_inv:
  assumes "router_step\<^sup>*\<^sup>* rs rs'" and "routers_inv rs"
  shows "routers_inv rs' \<and> rs_router_id rs' = rs_router_id rs"
  using assms
proof (induction rule: rtranclp_induct)
  case (step m n)
  have ids: "ids_step m n" by (rule router_step_ids [OF step(2)])
  then have "rs_router_id n = rs_router_id m" by (simp add: ids_step_def)
  with step ids_step_inv [OF ids] show ?case by simp
qed simp

text \<open>
  In every state that the events of the protocol and of the interfaces reach, the link state
  database has one entry per router identifier and one for our own, and our identifier has not
  changed.
\<close>

theorem reachable_routers_inv:
  assumes "router_step\<^sup>*\<^sup>* rs rs'" and "routers_inv rs"
  shows "routers_inv rs' \<and> rs_router_id rs' = rs_router_id rs"
  by (rule router_steps_inv [OF assms])

text \<open>After 100 seconds without an update the neighbour's entry has timed out.\<close>

lemma rs_pair_timeout: "\<exists>rs'. pwospf_lsu_timeout_step 100 rs_pair = Some rs' \<and> router_step\<^sup>*\<^sup>* rs_pair rs'"
proof -
  have "\<exists>rs'. pwospf_lsu_timeout_step 100 rs_pair = Some rs'"
    by (simp add: pwospf_lsu_timeout_step_def propagate_pwospf_changes_def start_lsu_bcast_flood_def
        dijkstra_trigger_def Let_def rs_pair_def rs0_def zero_state_def overdue_def)
  then show ?thesis using timeout_round by blast
qed

lemma rs_pair_inv: "routers_inv rs_pair"
  by (simp add: routers_inv_def rs_pair_def rids_def)

theorem reachable_routers_inv_witness:
  "\<exists>rs'. pwospf_lsu_timeout_step 100 rs_pair = Some rs' \<and> routers_inv rs' \<and> rs_router_id rs' = 1"
proof -
  from rs_pair_timeout obtain rs' where "pwospf_lsu_timeout_step 100 rs_pair = Some rs'" "router_step\<^sup>*\<^sup>* rs_pair rs'"
    by blast
  with reachable_routers_inv [OF _ rs_pair_inv, of rs'] show ?thesis by (auto simp: rs_pair_def)
qed

text \<open>
  From every state that the events reach, the search of the route computation returns with
  the hop distances over the active links of that moment, when no router has announced the
  identifier 0.
\<close>

theorem reachable_search_returns:
  assumes "router_step\<^sup>*\<^sup>* rs rs'" and "routers_inv rs"
    and zero: "0 \<notin> rids (rs_router_list rs')" and size: "length (rs_router_list rs') < DIST_MAX"
  shows "\<exists>l'. dijkstra_search (rs_router_id rs) (rs_router_list rs') = Some l' \<and>
    (\<forall>r\<in>set l'. if \<exists>n. (rs_router_id rs, r_router_id r) \<in> router_edges (rs_router_list rs') ^^ n
       then hop_dist (router_edges (rs_router_list rs')) (rs_router_id rs) (r_router_id r) (unat (r_distance r))
       else r_distance r = 0xFFFFFFFF)"
proof -
  have ok: "routers_ok (rs_router_id rs) (rs_router_list rs')"
    using router_steps_inv [OF assms(1,2)] zero size by (auto simp: routers_ok_def routers_inv_def)
  from dijkstra_search_total [OF ok] obtain l' where l': "dijkstra_search (rs_router_id rs) (rs_router_list rs') = Some l'"
      "links l' = links (rs_router_list rs')" "search_done (router_edges (rs_router_list rs')) (rs_router_id rs) l'"
      "\<forall>v. v \<notin> finished l' \<longrightarrow> DIST_MAX \<le> dist_of l' v" by blast
  with dijkstra_search_dist [OF ok l'(2-4)] show ?thesis by (intro exI [of _ l'] conjI ballI) auto
qed

theorem reachable_search_returns_witness:
  "\<exists>l'. dijkstra_search 1 (rs_router_list rs_pair) = Some l'"
proof -
  have "0 \<notin> rids (rs_router_list rs_pair)" "length (rs_router_list rs_pair) < DIST_MAX" "rs_router_id rs_pair = 1"
    by (simp_all add: rs_pair_def rids_def DIST_MAX_def)
  with reachable_search_returns [OF rtranclp.rtrancl_refl rs_pair_inv] show ?thesis by auto
qed

end
