(* ===== verification/Pwospf_Hello.thy ===== *)
theory Pwospf_Hello
  imports Pwospf_Lsu Pwospf_Invariant
begin

section \<open>Neighbours\<close>

text \<open>
  Hellos and timeouts as operations on the neighbours of an interface: a hello is accepted by
  every router on the network with the same settings and records its sender, and a round of the
  hello thread sends one hello per active interface and drops the neighbours that were silent
  for three intervals, and only these.
\<close>

subsection \<open>Timeouts\<close>

definition expired :: "int \<Rightarrow> u16 \<Rightarrow> nbr_router \<Rightarrow> bool" where
  "expired now hello nbr \<longleftrightarrow> now - nbr_last_rcvd_hello nbr > 3 * uint hello"

lemma timedout_loop_nbrs:
  "timedout_loop now hello our iface nbrs l c = Some (nbrs', l', c') \<Longrightarrow>
     nbrs' = filter (\<lambda>n. \<not> expired now hello n) nbrs \<and>
     c' = (if \<exists>n\<in>set nbrs. expired now hello n then 1 else c)"
proof (induction now hello our iface nbrs l c arbitrary: nbrs' l' c' rule: timedout_loop.induct)
  case (2 now hello our iface nbr cur l c)
  show ?case
  proof (cases "expired now hello nbr")
    case True
    then have t: "now - nbr_last_rcvd_hello nbr > 3 * uint hello" by (simp add: expired_def)
    with 2(3) obtain r r' where r: "get_router_by_rid our l = Some r"
        "drop_neighbor_interface iface (nbr_router_id nbr) r = Some r'"
      and rec: "timedout_loop now hello our iface cur (upd_first (\<lambda>r. r_router_id r = our) (\<lambda>_. r') l) 1 =
        Some (nbrs', l', c')"
      by (auto simp: bind_eq_Some_conv)
    from 2(1) [OF t r rec] True show ?thesis by auto
  next
    case False
    then have t: "\<not> now - nbr_last_rcvd_hello nbr > 3 * uint hello" by (simp add: expired_def)
    with 2(3) obtain n where n: "nbrs' = nbr # n" "timedout_loop now hello our iface cur l c = Some (n, l', c')"
      by (auto simp: bind_eq_Some_conv)
    from 2(2) [OF t n(2)] False n(1) show ?thesis by simp
  qed
qed simp

text \<open>An interface after its hello was sent and its neighbours were checked.\<close>

definition checked :: "int \<Rightarrow> u16 \<Rightarrow> iface_entry \<Rightarrow> iface_entry" where
  "checked now hello i = (if if_is_active i
     then i\<lparr>if_last_sent_hello := now, if_nbr_routers := filter (\<lambda>n. \<not> expired now hello n) (if_nbr_routers i)\<rparr>
     else i)"

definition hellos :: "router_state \<Rightarrow> iface_entry list \<Rightarrow> (packet \<times> string) list" where
  "hellos rs ifs = map (\<lambda>i. (pad60 (hello_frame rs i), if_name i)) (filter if_is_active ifs)"

lemma hello_frame_cong:
  "rs_hello_interval rs' = rs_hello_interval rs \<Longrightarrow> rs_router_id rs' = rs_router_id rs \<Longrightarrow>
     rs_area_id rs' = rs_area_id rs \<Longrightarrow> hello_frame rs' i = hello_frame rs i"
  by (simp add: hello_frame_def)

lemma hello_loop_spec:
  assumes "hello_loop now [j..<length (rs_if_list rs)] c rs = Some (c', rs')" and "j \<le> length (rs_if_list rs)"
  shows "rs_if_list rs' = take j (rs_if_list rs) @ map (checked now (rs_hello_interval rs)) (drop j (rs_if_list rs))"
    and "rs_sent rs' = rs_sent rs @ hellos rs (drop j (rs_if_list rs))"
    and "(c' = 1) = (c = 1 \<or> (\<exists>i\<in>set (drop j (rs_if_list rs)). if_is_active i \<and>
      (\<exists>n\<in>set (if_nbr_routers i). expired now (rs_hello_interval rs) n)))"
proof -
  let ?P = "\<lambda>j c rs c' rs'. rs_if_list rs' = take j (rs_if_list rs) @ map (checked now (rs_hello_interval rs)) (drop j (rs_if_list rs)) \<and>
    rs_sent rs' = rs_sent rs @ hellos rs (drop j (rs_if_list rs)) \<and>
    (c' = 1) = (c = 1 \<or> (\<exists>i\<in>set (drop j (rs_if_list rs)). if_is_active i \<and>
      (\<exists>n\<in>set (if_nbr_routers i). expired now (rs_hello_interval rs) n)))"
  have "?P j c rs c' rs'"
    using assms
  proof (induction "length (rs_if_list rs) - j" arbitrary: j c rs)
    case 0
    then show ?case by (simp add: hellos_def)
  next
    case (Suc m)
    let ?ifs = "rs_if_list rs" let ?i = "rs_if_list rs ! j"
    from Suc(2) have j: "j < length ?ifs" by simp
    then have ks: "[j..<length ?ifs] = j # [Suc j..<length ?ifs]" by (rule upt_conv_Cons)
    have drop: "drop j ?ifs = ?i # drop (Suc j) ?ifs" using j by (simp add: Cons_nth_drop_Suc)
    have take: "take (Suc j) ?ifs = take j ?ifs @ [?i]" using j by (simp add: take_Suc_conv_app_nth)
    show ?case
    proof (cases "if_is_active ?i")
      case False
      with Suc(3) ks have rec: "hello_loop now [Suc j..<length ?ifs] c rs = Some (c', rs')" by (simp add: Let_def)
      have "m = length ?ifs - Suc j" using Suc(2) by simp
      from Suc(1) [OF this rec] j False drop take show ?thesis
        by (simp add: checked_def hellos_def)
    next
      case True
      let ?s = "rs\<lparr>rs_sent := rs_sent rs @ [(pad60 (hello_frame rs ?i), if_name ?i)],
        rs_if_list := ?ifs[j := ?i\<lparr>if_last_sent_hello := now\<rparr>]\<rparr>"
      from True Suc(3) ks obtain d n where d: "determine_timedout_interface now ?s j = Some (d, n)"
        and rec: "hello_loop now [Suc j..<length ?ifs] (if d = 1 then 1 else c) n = Some (c', rs')"
        by (auto simp: Let_def bind_eq_Some_conv send_packet_pad)
      let ?h = "rs_hello_interval rs"
      from d j obtain nbrs l where t: "timedout_loop now ?h (rs_router_id rs) (?i\<lparr>if_last_sent_hello := now\<rparr>)
            (if_nbr_routers ?i) (rs_router_list rs) 0 = Some (nbrs, l, d)"
        and n: "n = ?s\<lparr>rs_router_list := l,
            rs_if_list := ?ifs[j := ?i\<lparr>if_last_sent_hello := now, if_nbr_routers := nbrs\<rparr>]\<rparr>"
        by (auto simp: determine_timedout_interface_def Let_def bind_eq_Some_conv)
      note nb = timedout_loop_nbrs [OF t]
      have lst: "rs_if_list n = ?ifs[j := checked now ?h ?i]"
        using nb True by (simp add: n checked_def)
      have same: "rs_sent n = rs_sent rs @ hellos rs [?i]" "rs_hello_interval n = ?h"
        "hellos n ifs = hellos rs ifs" for ifs
        using True by (simp_all add: n hellos_def hello_frame_def)
      have upd: "drop (Suc j) (?ifs[j := x]) = drop (Suc j) ?ifs" "take (Suc j) (?ifs[j := x]) = take j ?ifs @ [x]" for x
        using j by (simp_all add: take_Suc_conv_app_nth)
      have "m = length (rs_if_list n) - Suc j" "Suc j \<le> length (rs_if_list n)" using Suc(2) j by (simp_all add: lst)
      from Suc(1) [OF this(1) _ this(2)] rec have "?P (Suc j) (if d = 1 then 1 else c) n c' rs'" by (simp add: lst)
      moreover have "hellos rs (drop j ?ifs) = hellos rs [?i] @ hellos rs (drop (Suc j) ?ifs)"
        using True by (simp add: drop hellos_def)
      ultimately show ?thesis using nb True unfolding same lst upd by (auto simp: drop)
    qed
  qed
  then show "rs_if_list rs' = take j (rs_if_list rs) @ map (checked now (rs_hello_interval rs)) (drop j (rs_if_list rs))"
    "rs_sent rs' = rs_sent rs @ hellos rs (drop j (rs_if_list rs))"
    "(c' = 1) = (c = 1 \<or> (\<exists>i\<in>set (drop j (rs_if_list rs)). if_is_active i \<and>
      (\<exists>n\<in>set (if_nbr_routers i). expired now (rs_hello_interval rs) n)))" by blast+
qed

lemma propagate_sent:
  assumes "propagate_pwospf_changes now rs = Some rs'"
  shows "rs_sent rs' = rs_sent rs"
  using assms
  by (auto simp: propagate_pwospf_changes_def start_lsu_bcast_flood_def construct_pwospf_lsu_packet_def
      dijkstra_trigger_def upd_router_def broadcast_lsu_queue Let_def split_beta bind_eq_Some_conv split: if_splits)

text \<open>
  C25. A round of the hello thread sends one hello frame on every active interface, in the order of
  the interface list, and removes from each of them exactly the neighbours whose last hello is
  more than three intervals old; inactive interfaces stay as they are.
\<close>

theorem hello_round_spec:
  assumes "broadcast_pwospf_hello_packet now rs = Some rs'"
  shows "rs_sent rs' = rs_sent rs @ hellos rs (rs_if_list rs) \<and>
    rs_if_list rs' = map (checked now (rs_hello_interval rs)) (rs_if_list rs)"
proof -
  from assms obtain c m where m: "hello_loop now [0..<length (rs_if_list rs)] 0 rs = Some (c, m)"
    and c: "(if c = 1 then propagate_pwospf_changes now m else Some m) = Some rs'"
    by (auto simp: broadcast_pwospf_hello_packet_def bind_eq_Some_conv)
  have "rs_sent rs' = rs_sent m" "rs_if_list rs' = rs_if_list m"
    using c propagate_sent propagate_seq(2) by (auto split: if_splits)
  with hello_loop_spec [OF m] show ?thesis by simp
qed

text \<open>One active interface whose neighbour was silent for too long.\<close>

definition rs_silent :: router_state where
  "rs_silent = rs_router1\<lparr>rs_hello_interval := 5, rs_if_list := [iface1], rs_lsu_broadcast := False\<rparr>"

theorem hello_round_spec_witness:
  "\<exists>rs'. broadcast_pwospf_hello_packet 16 rs_silent = Some rs' \<and> length (rs_sent rs') = 1 \<and>
    map if_nbr_routers (rs_if_list rs') = [[]]"
proof -
  let ?i = "iface1\<lparr>if_last_sent_hello := 16\<rparr>"
  have nbrs: "if_nbr_routers iface1 = [\<lparr>nbr_router_id = 0x02020202, nbr_ip = 0x0200000A, nbr_last_rcvd_hello = 0\<rparr>]"
    "if_is_active iface1"
    by (simp_all add: iface1_def)
  have "\<exists>r. drop_neighbor_interface ?i 0x02020202 router1 = Some r"
    by (simp add: drop_neighbor_interface_def Let_def router1_def on_iface_def iface_subnet_def iface1_def)
  then obtain r where r: "drop_neighbor_interface ?i 0x02020202 router1 = Some r" by blast
  have get: "get_router_by_rid 0x01010101 [router1] = Some router1"
    by (simp add: router1_def router9_def get_router_by_rid_def)
  have "timedout_loop 16 5 0x01010101 ?i (if_nbr_routers iface1) [router1] 0 =
      Some ([], upd_first (\<lambda>r. r_router_id r = 0x01010101) (\<lambda>_. r) [router1], 1)"
    using r get by (simp add: nbrs)
  then have "\<exists>n. hello_loop 16 [0] 0 rs_silent = Some (1, n) \<and> \<not> rs_lsu_broadcast n"
    by (simp add: Let_def send_packet_pad determine_timedout_interface_def rs_silent_def rs_router1_def nbrs)
  moreover have "\<exists>m. propagate_pwospf_changes 16 rs = Some m" if "\<not> rs_lsu_broadcast rs" for rs
    using that by (simp add: propagate_pwospf_changes_def start_lsu_bcast_flood_def dijkstra_trigger_def Let_def)
  moreover have "length (rs_if_list rs_silent) = 1" by (simp add: rs_silent_def)
  ultimately have "\<exists>rs'. broadcast_pwospf_hello_packet 16 rs_silent = Some rs'"
    by (auto simp: broadcast_pwospf_hello_packet_def)
  then obtain rs' where rs': "broadcast_pwospf_hello_packet 16 rs_silent = Some rs'" by blast
  from hello_round_spec [OF rs'] rs' show ?thesis
    by (auto simp: hellos_def rs_silent_def checked_def iface1_def expired_def rs_router1_def)
qed

subsection \<open>Hellos\<close>

definition nbr_key :: "nbr_router \<Rightarrow> u32 \<times> u32" where
  "nbr_key n = (nbr_ip n, nbr_router_id n)"

lemma upd_last_map: "(\<And>x. P x \<Longrightarrow> g (f x) = g x) \<Longrightarrow> map g (upd_last P f xs) = map g xs"
  unfolding upd_last_def rev_map [symmetric] by (subst map_upd_first) (auto simp: rev_map)

lemma upd_first_mem: "x \<in> set xs \<Longrightarrow> P x \<Longrightarrow> \<exists>y\<in>set xs. P y \<and> f y \<in> set (upd_first P f xs)"
  by (induction xs) auto

lemma upd_last_mem: "x \<in> set xs \<Longrightarrow> P x \<Longrightarrow> \<exists>y\<in>set xs. P y \<and> f y \<in> set (upd_last P f xs)"
  using upd_first_mem [of x "rev xs" P f] by (simp add: upd_last_def)

lemma get_iface_upd:
  assumes "get_iface rs ifc = Some i" and "if_name (f i) = if_name i"
    and "\<And>i. if_name (f i) = if_name i"
  shows "get_iface (upd_iface ifc f rs) ifc = Some (f i)"
  using assms by (simp add: get_iface_def upd_iface_def find_upd_first)

lemma get_iface_cong: "rs_if_list rs' = rs_if_list rs \<Longrightarrow> get_iface rs' ifc = get_iface rs ifc"
  by (simp add: get_iface_def)

lemma hello_recorded:
  assumes hello: "process_pwospf_hello_packet now rs p ifc = Some rs'"
    and hint: "rs_hello_interval rs = ntohs (ld16 p (get_pwospf_hello_hdr + 4))"
    and i: "get_iface rs ifc = Some i" "if_mask i = ld32 p get_pwospf_hello_hdr"
  defines "key \<equiv> (ip_src p get_ip_hdr, pwospf_rid_of p get_pwospf_hdr)"
  shows "\<exists>i'. get_iface rs' ifc = Some i' \<and>
    map nbr_key (if_nbr_routers i') = map nbr_key (if_nbr_routers i) @
      (if key \<in> set (map nbr_key (if_nbr_routers i)) then [] else [key]) \<and>
    (\<exists>n\<in>set (if_nbr_routers i'). nbr_key n = key \<and> nbr_last_rcvd_hello n = now)"
proof (cases "\<exists>n\<in>set (if_nbr_routers i). nbr_key n = key")
  case True
  let ?m = "\<lambda>n. nbr_ip n = ip_src p get_ip_hdr \<and> nbr_router_id n = pwospf_rid_of p get_pwospf_hdr"
  let ?g = "\<lambda>n :: nbr_router. n\<lparr>nbr_last_rcvd_hello := now\<rparr>"
  let ?f = "\<lambda>i :: iface_entry. i\<lparr>if_nbr_routers := upd_last ?m ?g (if_nbr_routers i)\<rparr>"
  from True obtain n where n: "n \<in> set (if_nbr_routers i)" "?m n" by (auto simp: nbr_key_def key_def)
  then have "rs' = upd_iface ifc ?f rs"
    using hello hint i by (auto simp: process_pwospf_hello_packet_def Let_def split: if_splits)
  then have get: "get_iface rs' ifc = Some (?f i)" using get_iface_upd [OF i(1)] by simp
  from upd_last_mem [where P = ?m and f = ?g, OF n] obtain y where "?m y" "?g y \<in> set (upd_last ?m ?g (if_nbr_routers i))" by blast
  then have "\<exists>n\<in>set (if_nbr_routers (?f i)). nbr_key n = key \<and> nbr_last_rcvd_hello n = now"
    by (auto simp: nbr_key_def key_def intro!: bexI [of _ "?g y"])
  moreover have "map nbr_key (if_nbr_routers (?f i)) = map nbr_key (if_nbr_routers i)"
    by (simp add: upd_last_map nbr_key_def)
  ultimately show ?thesis using get True by auto
next
  case False
  let ?nbr = "\<lparr>nbr_router_id = pwospf_rid_of p get_pwospf_hdr, nbr_ip = ip_src p get_ip_hdr, nbr_last_rcvd_hello = now\<rparr>"
  let ?f = "\<lambda>i :: iface_entry. i\<lparr>if_nbr_routers := if_nbr_routers i @ [?nbr]\<rparr>"
  from False have no: "\<not> (\<exists>n\<in>set (if_nbr_routers i). nbr_ip n = ip_src p get_ip_hdr \<and>
      nbr_router_id n = pwospf_rid_of p get_pwospf_hdr)"
    by (auto simp: nbr_key_def key_def)
  then obtain r' where
    "propagate_pwospf_changes now (upd_router (rs_router_id (upd_iface ifc ?f rs)) (\<lambda>_. r') (upd_iface ifc ?f rs)) = Some rs'"
    using hello hint i unfolding process_pwospf_hello_packet_def Let_def
    by (simp del: not_ex bex_simps ball_simps add: bind_eq_Some_conv) blast
  from propagate_seq(2) [OF this] have "get_iface rs' ifc = get_iface (upd_iface ifc ?f rs) ifc"
    by (intro get_iface_cong) simp
  then have "get_iface rs' ifc = Some (?f i)" using get_iface_upd [OF i(1)] by simp
  with False show ?thesis by (auto simp: nbr_key_def key_def)
qed

subsection \<open>The hello on the wire\<close>

lemma pwospf_checksum_same:
  assumes same: "\<And>j. j < n \<Longrightarrow> ld8 f (k + j) = ld8 p (k + j)" and n: "unat (ntohs (pwospf_len_of p k)) = n" "14 \<le> n"
    and len: "k + n \<le> length p" "k + n \<le> length f"
  shows "fst (compute_pwospf_checksum f k) = fst (compute_pwospf_checksum p k)"
proof -
  let ?q = "drop k p"
  have q: "ld8 ?q j = ld8 p (k + j)" for j using len by (auto simp: ld8_def)
  have "unat (ntohs (pwospf_len_of ?q 0)) = n" using n(1) by (simp add: pwospf_len_of_def ld16_def q)
  then have "fst (compute_pwospf_checksum g k) = fst (compute_pwospf_checksum ?q 0)"
    if "\<And>j. j < n \<Longrightarrow> ld8 g (k + j) = ld8 p (k + j)" "k + n \<le> length g" for g
    using that n(2) len by (intro pwospf_checksum_copy) (simp_all add: q)
  from this [of f] this [of p] same len show ?thesis by simp
qed

lemma hello_frame_fields:
  assumes mac: "length (if_addr i) = 6"
  shows "length (hello_frame rs i) = 66"
    and "ld8 (hello_frame rs i) 34 = PWOSPF_VERSION" and "ld8 (hello_frame rs i) 35 = PWOSPF_TYPE_HELLO"
    and "ld32 (hello_frame rs i) 38 = rs_router_id rs" and "ld32 (hello_frame rs i) 42 = htonl (rs_area_id rs)"
    and "ld16 (hello_frame rs i) 48 = 0"
    and "ld32 (hello_frame rs i) 58 = if_mask i" and "ld16 (hello_frame rs i) 62 = htons (rs_hello_interval rs)"
    and "ld32 (hello_frame rs i) 26 = if_ip i"
    and "fst (compute_pwospf_checksum (hello_frame rs i) 34) = htons (ld16 (hello_frame rs i) 46)"
proof -
  define a where "a = populate_pwospf_hello (replicate 66 0) 58 (if_mask i) (rs_hello_interval rs)"
  define b where "b = populate_pwospf a 34 PWOSPF_TYPE_HELLO 32 (rs_router_id rs) (rs_area_id rs)"
  obtain c d where c: "compute_pwospf_checksum b 34 = (c, d)" by (cases "compute_pwospf_checksum b 34")
  have d: "d = st16 b 46 0" using c by (auto simp: compute_pwospf_checksum_def Let_def)
  define e where "e = st16 d 46 (htons c)"
  define g where "g = populate_ip e 14 32 IP_PROTO_PWOSPF (if_ip i) (htonl PWOSPF_HELLO_TIP)"
  obtain s t where s: "compute_ip_checksum g 14 = (s, t)" by (cases "compute_ip_checksum g 14")
  have t: "t = st16 g 24 0" using s by (auto simp: compute_ip_checksum_def Let_def)
  have f: "hello_frame rs i = populate_eth_hdr (st16 t 24 (htons s)) (Some (replicate 6 0xFF)) (if_addr i) ETH_TYPE_IP"
    using c s unfolding a_def b_def e_def g_def
    by (simp add: hello_frame_def hdr_offsets Let_def)
  have len: "length a = 66" "length b = 66" "length d = 66" "length e = 66" "length g = 66" "length t = 66"
    by (simp_all add: a_def b_def d e_def g_def t)
  then show lf: "length (hello_frame rs i) = 66" by (simp add: f)
  have eth: "ld8 (hello_frame rs i) j = ld8 (st16 t 24 (htons s)) j" if "14 \<le> j" for j
    using that mac by (simp add: f populate_eth_hdr_def mem_simps)
  have body: "ld8 (hello_frame rs i) j = ld8 e j" if "34 \<le> j" for j
    using that by (simp add: eth t mem_simps g_def populate_ip_other)
  have nosum: "ld8 e j = ld8 b j" if "j \<noteq> 46" "j \<noteq> 47" for j
    using that by (simp add: e_def d ld8_st16)
  have hello: "ld8 b j = ld8 a j" if "58 \<le> j" for j
    using that len(1) unfolding b_def by (intro pwospf_hdr_fields(7)) simp_all
  have fb: "ld8 b 34 = PWOSPF_VERSION" "ld8 b 35 = PWOSPF_TYPE_HELLO" "ld16 b 36 = htons 32"
    "ld32 b 38 = rs_router_id rs" "ld32 b 42 = htonl (rs_area_id rs)" "ld16 b 48 = 0"
    using pwospf_hdr_fields(1-6) [of 34 a PWOSPF_TYPE_HELLO 32 "rs_router_id rs" "rs_area_id rs"] len(1)
    by (simp_all add: b_def)
  have fa: "ld32 a 58 = if_mask i" "ld16 a 62 = htons (rs_hello_interval rs)"
    by (simp_all add: a_def populate_pwospf_hello_def Let_def hdr_sizes mem_simps)
  show "ld8 (hello_frame rs i) 34 = PWOSPF_VERSION" "ld8 (hello_frame rs i) 35 = PWOSPF_TYPE_HELLO"
    "ld32 (hello_frame rs i) 38 = rs_router_id rs" "ld32 (hello_frame rs i) 42 = htonl (rs_area_id rs)"
    "ld16 (hello_frame rs i) 48 = 0"
    "ld32 (hello_frame rs i) 58 = if_mask i" "ld16 (hello_frame rs i) 62 = htons (rs_hello_interval rs)"
    using fb fa by (simp_all add: ld16_def ld32_def body nosum hello)
  have "ld32 g 26 = if_ip i"
    using populate_ip_fields(7) [of 14 e 32 IP_PROTO_PWOSPF "if_ip i"] len(4) by (simp add: g_def ip_fields)
  then show "ld32 (hello_frame rs i) 26 = if_ip i" by (simp add: ld32_def eth t ld8_st16)
  have "compute_pwospf_checksum e 34 = (c, d)"
    using pwospf_checksum_stored [OF c, of "htons c"] by (simp add: e_def)
  moreover have "fst (compute_pwospf_checksum (hello_frame rs i) 34) = fst (compute_pwospf_checksum e 34)"
  proof (rule pwospf_checksum_same)
    show "unat (ntohs (pwospf_len_of e 34)) = 32"
      using fb(3) by (simp add: pwospf_len_of_def ld16_def nosum)
  qed (simp_all add: body len lf)
  moreover have "ld16 (hello_frame rs i) 46 = htons c"
    using len by (simp add: ld16_def body e_def d ld8_st16)
  ultimately show "fst (compute_pwospf_checksum (hello_frame rs i) 34) = htons (ld16 (hello_frame rs i) 46)" by simp
qed

lemma hello_frame_received:
  assumes mac: "length (if_addr i) = 6" and peer: "rs_area_id b = rs_area_id a" "ntohl (rs_router_id a) \<noteq> rs_router_id b"
  defines "g \<equiv> st16 (hello_frame a i) 46 0"
  shows "process_pwospf_packet now b (hello_frame a i) ifc = process_pwospf_hello_packet now b g ifc"
    and "ld16 g (get_pwospf_hello_hdr + 4) = htons (rs_hello_interval a)" and "ld32 g get_pwospf_hello_hdr = if_mask i"
    and "ip_src g get_ip_hdr = if_ip i" and "pwospf_rid_of g get_pwospf_hdr = rs_router_id a"
proof -
  let ?f = "hello_frame a i"
  note f = hello_frame_fields [OF mac, of a]
  have "snd (compute_pwospf_checksum ?f 34) = g" by (simp add: compute_pwospf_checksum_def Let_def g_def)
  then have c: "compute_pwospf_checksum ?f 34 = (htons (ld16 ?f 46), g)"
    using f(10) by (metis prod.collapse)
  have valid: "is_pwospf_packet_valid b ?f = (1, g)"
    using f(2,4-6) c peer
    by (simp add: is_pwospf_packet_valid_def hdr_offsets pwospf_fields PWOSPF_VERSION_def mem_simps g_def)
  have type: "pwospf_type_of g get_pwospf_hdr = PWOSPF_TYPE_HELLO"
    using f(3) by (simp add: hdr_offsets pwospf_fields mem_simps g_def)
  with valid show "process_pwospf_packet now b ?f ifc = process_pwospf_hello_packet now b g ifc"
    by (simp add: process_pwospf_packet_def)
  show "ld16 g (get_pwospf_hello_hdr + 4) = htons (rs_hello_interval a)" "ld32 g get_pwospf_hello_hdr = if_mask i"
    "ip_src g get_ip_hdr = if_ip i" "pwospf_rid_of g get_pwospf_hdr = rs_router_id a"
    using f(4,7-9) by (simp_all add: hdr_offsets ip_fields pwospf_fields mem_simps g_def)
qed


text \<open>Router 2.2.2.2 hears router 1.1.1.1 for the first time.\<close>

definition iface2 :: iface_entry where
  "iface2 = iface1\<lparr>if_ip := 0x0200000A, if_nbr_routers := []\<rparr>"

definition rs_router2 :: router_state where
  "rs_router2 = rs0\<lparr>rs_router_id := 0x02020202, rs_router_list := [router1\<lparr>r_router_id := 0x02020202\<rparr>],
     rs_if_list := [iface2], rs_lsu_broadcast := False\<rparr>"


end
