(* ===== verification/Or_Arp_Queue.thy ===== *)
theory Or_Arp_Queue
  imports Packet_Safety
begin

section \<open>Retries of the ARP queue (\<^verbatim>\<open>or_arp.c\<close>)\<close>

text \<open>
  The step of the ARP thread: expiry of the cache and a walk over the queue of packets that
  wait for an address. The lemmas give the number of requests that are sent, when the packets
  are given up, what their senders are told, and that no packet waits for ever.
\<close>

subsection \<open>The code\<close>

text \<open>An error is never sent for an ICMP error.\<close>

definition icmp_error_allowed :: "packet \<Rightarrow> bool" where
  "icmp_error_allowed packet \<longleftrightarrow> ip_p packet get_ip_hdr \<noteq> IP_PROTO_ICMP \<or>
     icmp_type_of packet = ICMP_TYPE_ECHO_REPLY \<or> icmp_type_of packet = ICMP_TYPE_ECHO_REQUEST"

text \<open>The TTL that forwarding took away is given back before the packet is quoted.\<close>

definition restore_ttl :: "packet \<Rightarrow> packet" where
  "restore_ttl packet =
     (let ip = get_ip_hdr
      in if ip_ttl packet ip < 255
         then let packet = st8 packet (ip + 8) (ip_ttl packet ip + 1);
                  packet = st16 packet (ip + 10) 0;
                  (checksum, packet) = compute_ip_checksum packet ip
              in st16 packet (ip + 10) (htons checksum)
         else packet)"

definition return_packet :: "int \<Rightarrow> router_state \<Rightarrow> packet \<Rightarrow> router_state option" where
  "return_packet now rs packet =
     (if icmp_error_allowed packet \<and> iface_match_ip rs (ip_src packet get_ip_hdr) = 0
      then send_icmp now rs (restore_ttl packet) ICMP_TYPE_DESTINATION_UNREACHABLE ICMP_CODE_HOST_UNREACHABLE
      else Some rs)"

text \<open>
  The packets of the entry at position \<open>k\<close>: the successor of a packet is read after the error
  for it is sent, so a packet that the error appends to the same entry is met by the loop.
\<close>

partial_function (option) return_packets :: "int \<Rightarrow> router_state \<Rightarrow> nat \<Rightarrow> router_state option" where
  "return_packets now rs k =
     (case aqe_head (rs_arp_queue rs ! k) of
        [] \<Rightarrow> Some rs
      | packet # _ \<Rightarrow> do {
          rs \<leftarrow> return_packet now rs packet;
          return_packets now (rs\<lparr>rs_arp_queue := (rs_arp_queue rs)[k := (rs_arp_queue rs ! k)
            \<lparr>aqe_head := tl (aqe_head (rs_arp_queue rs ! k))\<rparr>]\<rparr>) k
        })"

text \<open>The successor of an entry is read before the entry is handled.\<close>

partial_function (option) process_arp_queue_loop ::
  "int \<Rightarrow> router_state \<Rightarrow> nat \<Rightarrow> router_state option" where
  "process_arp_queue_loop now rs k =
     (if k < length (rs_arp_queue rs) then
        (let has_next = k + 1 < length (rs_arp_queue rs); aqe = rs_arp_queue rs ! k
         in if now - aqe_last_req_time aqe > 1 then
              if aqe_requests aqe < 5 then do {
                let rs = rs\<lparr>rs_arp_queue := (rs_arp_queue rs)[k :=
                      aqe\<lparr>aqe_last_req_time := now, aqe_requests := aqe_requests aqe + 1\<rparr>]\<rparr>;
                rs \<leftarrow> send_arp_request rs (aqe_next_hop aqe) (aqe_out_iface_name aqe);
                (if has_next then process_arp_queue_loop now rs (k + 1) else Some rs)
              }
              else do {
                rs \<leftarrow> return_packets now rs k;
                let rs = rs\<lparr>rs_arp_queue := remove_nth k (rs_arp_queue rs)\<rparr>;
                (if has_next then process_arp_queue_loop now rs k else Some rs)
              }
            else if has_next then process_arp_queue_loop now rs (k + 1) else Some rs)
      else Some rs)"

definition process_arp_queue :: "int \<Rightarrow> router_state \<Rightarrow> router_state option" where
  "process_arp_queue now rs = process_arp_queue_loop now rs 0"

text \<open>What the ARP thread does once a second.\<close>

definition arp_thread_step :: "int \<Rightarrow> router_state \<Rightarrow> router_state option" where
  "arp_thread_step now rs = process_arp_queue now (expire_arp_cache now rs)"

subsection \<open>Growth of the queue while errors are sent\<close>

abbreviation quiet :: "packet \<Rightarrow> bool" where
  "quiet p \<equiv> \<not> icmp_error_allowed p"

text \<open>An entry behind which only ICMP errors have queued up.\<close>

definition entry_ext :: "arp_queue_entry \<Rightarrow> arp_queue_entry \<Rightarrow> bool" where
  "entry_ext a b \<longleftrightarrow> aqe_next_hop b = aqe_next_hop a \<and> aqe_requests b = aqe_requests a \<and>
     aqe_last_req_time b = aqe_last_req_time a \<and> aqe_out_iface_name b = aqe_out_iface_name a \<and>
     (\<exists>ps. aqe_head b = aqe_head a @ ps \<and> (\<forall>p\<in>set ps. quiet p))"

definition entry_fresh :: "(string \<Rightarrow> bool) \<Rightarrow> int \<Rightarrow> arp_queue_entry \<Rightarrow> bool" where
  "entry_fresh ifok now a \<longleftrightarrow> aqe_requests a = 1 \<and> aqe_last_req_time a = now \<and> aqe_head a \<noteq> [] \<and>
     (\<forall>p\<in>set (aqe_head a). quiet p) \<and> ifok (aqe_out_iface_name a)"

definition queue_ext ::
  "(string \<Rightarrow> bool) \<Rightarrow> int \<Rightarrow> arp_queue_entry list \<Rightarrow> arp_queue_entry list \<Rightarrow> bool" where
  "queue_ext ifok now q q' \<longleftrightarrow>
     (\<exists>r s. q' = r @ s \<and> list_all2 entry_ext q r \<and> (\<forall>a\<in>set s. entry_fresh ifok now a))"

abbreviation keys_distinct :: "arp_queue_entry list \<Rightarrow> bool" where
  "keys_distinct q \<equiv> distinct (map aqe_next_hop q)"

lemma entry_ext_refl [simp]: "entry_ext a a"
  by (simp add: entry_ext_def)

lemma entry_ext_trans: "entry_ext a b \<Longrightarrow> entry_ext b c \<Longrightarrow> entry_ext a c"
  unfolding entry_ext_def by (elim conjE exE) (simp, blast)

lemma entry_ext_fields:
  assumes "entry_ext a b"
  shows "aqe_next_hop b = aqe_next_hop a" "aqe_requests b = aqe_requests a"
    "aqe_last_req_time b = aqe_last_req_time a" "aqe_out_iface_name b = aqe_out_iface_name a"
    "aqe_head a \<noteq> [] \<Longrightarrow> aqe_head b \<noteq> []"
    "p \<in> set (aqe_head b) \<Longrightarrow> p \<in> set (aqe_head a) \<or> quiet p"
  using assms unfolding entry_ext_def by auto

lemma entry_ext_head:
  "entry_ext a b \<Longrightarrow> entry_ext (a\<lparr>aqe_head := []\<rparr>) (b\<lparr>aqe_head := []\<rparr>)"
  "entry_ext a b \<Longrightarrow> aqe_head a \<noteq> [] \<Longrightarrow>
     entry_ext (a\<lparr>aqe_head := tl (aqe_head a)\<rparr>) (b\<lparr>aqe_head := tl (aqe_head b)\<rparr>)"
  by (auto simp: entry_ext_def)

lemma entry_fresh_ext:
  assumes "entry_fresh ifok now a" and "entry_ext a b"
  shows "entry_fresh ifok now b"
  using assms entry_ext_fields [OF assms(2)] unfolding entry_fresh_def by auto

lemma list_all2_ext_refl: "list_all2 entry_ext q q"
  by (simp add: list_all2_refl)

lemma queue_ext_refl: "queue_ext ifok now q q"
  unfolding queue_ext_def
  by (intro exI [of _ q] exI [of _ "[]"]) (simp add: list_all2_ext_refl)

lemma queue_ext_trans:
  assumes "queue_ext ifok now q q1" and "queue_ext ifok now q1 q2"
  shows "queue_ext ifok now q q2"
proof -
  from assms obtain r s r' s' where q1: "q1 = r @ s" "list_all2 entry_ext q r" "\<forall>a\<in>set s. entry_fresh ifok now a"
    and q2: "q2 = r' @ s'" "list_all2 entry_ext q1 r'" "\<forall>a\<in>set s'. entry_fresh ifok now a"
    unfolding queue_ext_def by blast
  from q2(2) [unfolded q1(1)] obtain r1 s1 where r': "r' = r1 @ s1" "list_all2 entry_ext r r1"
      "list_all2 entry_ext s s1"
    by (auto simp: list_all2_append1)
  have "list_all2 entry_ext q r1"
    using q1(2) r'(2) by (rule list_all2_trans [rotated]) (rule entry_ext_trans)
  moreover have "\<forall>a\<in>set s1. entry_fresh ifok now a"
    using r'(3) q1(3) by (induction rule: list_all2_induct) (auto intro: entry_fresh_ext)
  ultimately show ?thesis
    using assms q2 r'(1) unfolding queue_ext_def
    by (intro exI [of _ r1] exI [of _ "s1 @ s'"]) auto
qed

lemma queue_ext_update:
  assumes ext: "queue_ext ifok now q q'" and k: "k < length q"
    and f: "entry_ext (q ! k) (q' ! k) \<Longrightarrow> entry_ext (f (q ! k)) (f (q' ! k))"
  shows "queue_ext ifok now (q[k := f (q ! k)]) (q'[k := f (q' ! k)])" and "k < length q'"
    and "entry_ext (q ! k) (q' ! k)"
proof -
  from ext obtain r s where q': "q' = r @ s" "list_all2 entry_ext q r" "\<forall>a\<in>set s. entry_fresh ifok now a"
    unfolding queue_ext_def by blast
  then have len: "k < length r" using k list_all2_lengthD by fastforce
  then have nth: "q' ! k = r ! k" by (simp add: q' nth_append)
  show e: "entry_ext (q ! k) (q' ! k)" using q'(2) k by (simp add: nth list_all2_nthD)
  have "list_all2 entry_ext (q[k := f (q ! k)]) (r[k := f (r ! k)])"
    using q'(2) f [OF e] unfolding nth by (rule list_all2_update_cong)
  then show "queue_ext ifok now (q[k := f (q ! k)]) (q'[k := f (q' ! k)])"
    using q' len unfolding queue_ext_def nth
    by (intro exI [of _ "r[k := f (r ! k)]"] exI [of _ s]) (auto simp: list_update_append)
  show "k < length q'" using len by (simp add: q')
qed

lemma keys_update:
  "k < length q \<Longrightarrow> aqe_next_hop a = aqe_next_hop (q ! k) \<Longrightarrow> map aqe_next_hop (q[k := a]) = map aqe_next_hop q"
  by (simp add: map_update) (metis list_update_id nth_map)

text \<open>Sending touches the queue and the frames sent, and nothing else.\<close>

definition queue_step :: "int \<Rightarrow> router_state \<Rightarrow> router_state \<Rightarrow> bool" where
  "queue_step now rs rs' \<longleftrightarrow> (\<exists>q more. rs' = rs\<lparr>rs_arp_queue := q, rs_sent := rs_sent rs @ more\<rparr> \<and>
     queue_ext (\<lambda>n. get_iface rs n \<noteq> None) now (rs_arp_queue rs) q \<and>
     (keys_distinct (rs_arp_queue rs) \<longrightarrow> keys_distinct q))"

lemma upd_first_ext:
  "quiet p \<Longrightarrow> list_all2 entry_ext q (upd_first P (arp_queue_entry_add_packet p) q)"
  by (induction q) (simp_all add: list_all2_ext_refl entry_ext_def arp_queue_entry_add_packet_def)

lemma send_ip_step:
  assumes p: "quiet p" and out: "get_iface rs out \<noteq> None" and send: "send_ip now rs p hop out = Some (c, rs')"
  shows "queue_step now rs rs'"
proof (cases "get_from_arp_cache rs hop")
  case (Some ace)
  then have "rs' = rs\<lparr>rs_sent := rs_sent rs @ [(pad60 (st_bytes p 0 (ace_ha ace)), out)]\<rparr>"
    using send by (simp add: send_ip_hit)
  then show ?thesis unfolding queue_step_def
    by (intro exI [of _ "rs_arp_queue rs"] exI [of _ "[(pad60 (st_bytes p 0 (ace_ha ace)), out)]"])
       (simp add: queue_ext_refl)
next
  case miss: None
  show ?thesis
  proof (cases "get_from_arp_queue rs hop")
    case None
    then have new: "hop \<notin> aqe_next_hop ` set (rs_arp_queue rs)"
      by (simp add: get_from_arp_queue_def find_key_None)
    let ?a = "\<lparr>aqe_out_iface_name = take IF_LEN out, aqe_next_hop = hop, aqe_requests = 1,
      aqe_last_req_time = now, aqe_head = [p]\<rparr>"
    from send miss None obtain f where rs': "rs' = rs\<lparr>rs_sent := rs_sent rs @ [f], rs_arp_queue := rs_arp_queue rs @ [?a]\<rparr>"
      by (auto simp: send_ip_def arp_queue_add_def send_arp_request_frame arp_queue_entry_add_packet_def
          bind_eq_Some_conv Let_def split: option.splits)
    have "entry_fresh (\<lambda>n. get_iface rs n \<noteq> None) now ?a"
      using p out by (simp add: entry_fresh_def get_iface_take IF_LEN_def)
    then have "queue_ext (\<lambda>n. get_iface rs n \<noteq> None) now (rs_arp_queue rs) (rs_arp_queue rs @ [?a])"
      unfolding queue_ext_def
      by (intro exI [of _ "rs_arp_queue rs"] exI [of _ "[?a]"]) (simp add: list_all2_ext_refl)
    then show ?thesis unfolding queue_step_def rs'
      by (intro exI [of _ "rs_arp_queue rs @ [?a]"] exI [of _ "[f]"]) (simp add: new)
  next
    case (Some aqe)
    let ?q = "upd_first (\<lambda>aqe. hop = aqe_next_hop aqe) (arp_queue_entry_add_packet p) (rs_arp_queue rs)"
    from send miss Some have rs': "rs' = rs\<lparr>rs_arp_queue := ?q\<rparr>"
      by (simp add: send_ip_def arp_queue_add_def)
    have "queue_ext (\<lambda>n. get_iface rs n \<noteq> None) now (rs_arp_queue rs) ?q"
      unfolding queue_ext_def using upd_first_ext [OF p]
      by (intro exI [of _ ?q] exI [of _ "[]"]) simp
    then show ?thesis unfolding queue_step_def rs' 
      by (intro exI [of _ ?q] exI [of _ "[]"]) (simp add: distinct_key_upd_first)
  qed
qed

lemma icmp_error_quiet:
  assumes "ip_frame_ok f IP_PROTO_ICMP src dst mac" and "icmp_frame_ok f ICMP_TYPE_DESTINATION_UNREACHABLE co pl"
  shows "quiet f"
  using assms by (simp add: icmp_error_allowed_def ip_frame_ok_def icmp_frame_ok_def icmp_type_of_def icmp_consts)

definition macs_ok :: "router_state \<Rightarrow> bool" where
  "macs_ok rs \<longleftrightarrow> (\<forall>i\<in>set (rs_if_list rs). length (if_addr i) = 6)"

lemma queue_step_refl: "queue_step now rs rs"
  unfolding queue_step_def by (intro exI [of _ "rs_arp_queue rs"] exI [of _ "[]"]) (simp add: queue_ext_refl)

lemma send_error_step:
  assumes ok: "config_ok rs" "macs_ok rs"
    and send: "send_icmp now rs p ICMP_TYPE_DESTINATION_UNREACHABLE co = Some rs'"
  shows "queue_step now rs rs'"
proof (cases "get_next_hop 32 rs (ip_src p get_ip_hdr)")
  case None
  then have "rs' = rs" using send by (auto simp: send_icmp_def send_icmp_packet_def Let_def split: prod.splits)
  then show ?thesis by (simp add: queue_step_refl)
next
  case (Some r)
  obtain hop out where r: "r = (hop, out)" by (cases r)
  from next_hop_iface [OF ok(1) Some [unfolded r]] obtain j where j: "get_iface rs out = Some j" by auto
  have "\<forall>i\<in>set (rs_if_list rs). length (if_addr i) = 6" using ok(2) by (simp add: macs_ok_def)
  from send_icmp_packet_frame [OF _ this, of ICMP_TYPE_DESTINATION_UNREACHABLE p now co] Some r j
  obtain f src where f: "send_icmp_packet now rs p ICMP_TYPE_DESTINATION_UNREACHABLE co = send_ip now rs f hop (if_name j)"
      "ip_frame_ok f IP_PROTO_ICMP src (ip_src p get_ip_hdr) (if_addr j)"
      "icmp_frame_ok f ICMP_TYPE_DESTINATION_UNREACHABLE co (replicate 4 0 @ ld_bytes p get_ip_hdr 28)"
    by (auto simp: icmp_consts)
  from send f(1) obtain c where "send_ip now rs f hop (if_name j) = Some (c, rs')"
    by (auto simp: send_icmp_def)
  from send_ip_step [OF icmp_error_quiet [OF f(2,3)] get_iface_name [OF j] this] show ?thesis .
qed

lemma queue_step_frame:
  assumes "queue_step now rs m"
  shows "config_ok m = config_ok rs" "macs_ok m = macs_ok rs" "get_iface m n = get_iface rs n"
    "iface_match_ip m ip = iface_match_ip rs ip"
  using assms unfolding queue_step_def
  by (auto simp: config_ok_def macs_ok_def get_iface_def iface_match_ip_def)

lemma queue_step_ext:
  "queue_step now rs m \<Longrightarrow> queue_ext (\<lambda>n. get_iface rs n \<noteq> None) now (rs_arp_queue rs) (rs_arp_queue m)"
  by (auto simp: queue_step_def)

lemma queue_step_trans:
  assumes "queue_step now rs m" and "queue_step now m rs'"
  shows "queue_step now rs rs'"
proof -
  from assms(1) obtain q s where m: "m = rs\<lparr>rs_arp_queue := q, rs_sent := rs_sent rs @ s\<rparr>"
      "queue_ext (\<lambda>n. get_iface rs n \<noteq> None) now (rs_arp_queue rs) q"
      "keys_distinct (rs_arp_queue rs) \<longrightarrow> keys_distinct q"
    unfolding queue_step_def by blast
  from assms(2) obtain q' s' where r: "rs' = m\<lparr>rs_arp_queue := q', rs_sent := rs_sent m @ s'\<rparr>"
      "queue_ext (\<lambda>n. get_iface rs n \<noteq> None) now (rs_arp_queue m) q'"
      "keys_distinct (rs_arp_queue m) \<longrightarrow> keys_distinct q'"
    unfolding queue_step_def queue_step_frame(3) [OF assms(1)] by blast
  with m queue_ext_trans [OF m(2), of q'] show ?thesis
    unfolding queue_step_def by (intro exI [of _ q'] exI [of _ "s @ s'"]) simp
qed

lemma queue_step_update:
  assumes step: "queue_step now rs m" and k: "k < length (rs_arp_queue rs)"
    and key: "\<And>a. aqe_next_hop (f a) = aqe_next_hop a"
    and f: "\<And>b. entry_ext (rs_arp_queue rs ! k) b \<Longrightarrow> entry_ext (f (rs_arp_queue rs ! k)) (f b)"
  shows "queue_step now (rs\<lparr>rs_arp_queue := (rs_arp_queue rs)[k := f (rs_arp_queue rs ! k)]\<rparr>)
    (m\<lparr>rs_arp_queue := (rs_arp_queue m)[k := f (rs_arp_queue m ! k)]\<rparr>)"
proof -
  from step obtain q s where m: "m = rs\<lparr>rs_arp_queue := q, rs_sent := rs_sent rs @ s\<rparr>"
      and ext: "queue_ext (\<lambda>n. get_iface rs n \<noteq> None) now (rs_arp_queue rs) q"
      and d: "keys_distinct (rs_arp_queue rs) \<longrightarrow> keys_distinct q"
    unfolding queue_step_def by blast
  have g: "get_iface (rs\<lparr>rs_arp_queue := x\<rparr>) n = get_iface rs n" for x n by (simp add: get_iface_def)
  note u = queue_ext_update [OF ext k, of f, OF f]
  show ?thesis unfolding queue_step_def
    by (intro exI [of _ "q[k := f (q ! k)]"] exI [of _ s])
       (use u k d in \<open>simp add: m g keys_update key\<close>)
qed

subsection \<open>The packets that are given up\<close>

lemma return_packet_returns:
  assumes ok: "config_ok rs" "macs_ok rs"
  shows "\<exists>rs'. return_packet now rs p = Some rs' \<and> queue_step now rs rs' \<and> (quiet p \<longrightarrow> rs' = rs)"
proof (cases "icmp_error_allowed p \<and> iface_match_ip rs (ip_src p get_ip_hdr) = 0")
  case True
  have "\<exists>rs'. send_icmp now rs (restore_ttl p) ICMP_TYPE_DESTINATION_UNREACHABLE ICMP_CODE_HOST_UNREACHABLE = Some rs'"
    by (rule send_icmp_returns [OF ok(1)]) (simp add: icmp_consts)
  with True send_error_step [OF ok] show ?thesis by (auto simp: return_packet_def)
next
  case False
  then show ?thesis by (auto simp: return_packet_def queue_step_refl)
qed

lemma return_packets_step:
  assumes "config_ok rs" "macs_ok rs" "k < length (rs_arp_queue rs)"
  shows "\<exists>rs'. return_packets now rs k = Some rs' \<and>
    queue_step now (rs\<lparr>rs_arp_queue := (rs_arp_queue rs)[k := (rs_arp_queue rs ! k)\<lparr>aqe_head := []\<rparr>]\<rparr>) rs'"
  using assms
proof (induction rs rule: wf_induct_rule [OF wf_measures [of
    "[\<lambda>rs. length (filter icmp_error_allowed (aqe_head (rs_arp_queue rs ! k))),
      \<lambda>rs. length (aqe_head (rs_arp_queue rs ! k))]"]])
  case (1 rs)
  let ?q = "rs_arp_queue rs"
  show ?case
  proof (cases "aqe_head (?q ! k)")
    case Nil
    then have "?q[k := (?q ! k)\<lparr>aqe_head := []\<rparr>] = ?q" by (metis arp_queue_entry.surjective arp_queue_entry.update_convs(5) list_update_id)
    with Nil show ?thesis by (subst return_packets.simps) (simp add: queue_step_refl)
  next
    case (Cons p ps)
    from return_packet_returns [OF 1(2,3)] obtain m where m: "return_packet now rs p = Some m" "queue_step now rs m"
        "quiet p \<longrightarrow> m = rs" by blast
    let ?f = "\<lambda>a. a\<lparr>aqe_head := tl (aqe_head a)\<rparr>" and ?g = "\<lambda>a :: arp_queue_entry. a\<lparr>aqe_head := []\<rparr>"
    let ?m = "m\<lparr>rs_arp_queue := (rs_arp_queue m)[k := ?f (rs_arp_queue m ! k)]\<rparr>"
    note u = queue_ext_update [OF queue_step_ext [OF m(2)] 1(4), of id]
    have k: "k < length (rs_arp_queue m)" using u by simp
    obtain qs where qs: "aqe_head (rs_arp_queue m ! k) = p # ps @ qs" "\<forall>p\<in>set qs. quiet p"
      using u(3) Cons by (auto simp: entry_ext_def)
    have allowed: "filter icmp_error_allowed qs = []" using qs(2) by (simp add: filter_empty_conv)
    have dec: "(?m, rs) \<in> measures [\<lambda>rs. length (filter icmp_error_allowed (aqe_head (rs_arp_queue rs ! k))),
        \<lambda>rs. length (aqe_head (rs_arp_queue rs ! k))]"
      using Cons k qs(1) m(3) by (cases "quiet p") (simp_all add: allowed)
    have ok: "config_ok ?m" "macs_ok ?m"
      using 1(2,3) queue_step_frame(1,2) [OF m(2)] by (simp_all add: config_ok_def macs_ok_def get_iface_def)
    from 1(1) [OF dec ok] k obtain rs' where rs': "return_packets now ?m k = Some rs'"
        "queue_step now (?m\<lparr>rs_arp_queue := (rs_arp_queue ?m)[k := ?g (rs_arp_queue ?m ! k)]\<rparr>) rs'"
      by auto
    have eq: "?m\<lparr>rs_arp_queue := (rs_arp_queue ?m)[k := ?g (rs_arp_queue ?m ! k)]\<rparr> =
        m\<lparr>rs_arp_queue := (rs_arp_queue m)[k := ?g (rs_arp_queue m ! k)]\<rparr>"
      using k by simp
    have "queue_step now (rs\<lparr>rs_arp_queue := ?q[k := ?g (?q ! k)]\<rparr>)
        (m\<lparr>rs_arp_queue := (rs_arp_queue m)[k := ?g (rs_arp_queue m ! k)]\<rparr>)"
      by (rule queue_step_update [OF m(2) 1(4)]) (simp_all add: entry_ext_head)
    from queue_step_trans [OF this rs'(2) [unfolded eq]]
    have "queue_step now (rs\<lparr>rs_arp_queue := ?q[k := ?g (?q ! k)]\<rparr>) rs'" .
    with Cons m(1) rs'(1) show ?thesis by (subst return_packets.simps) simp
  qed
qed

subsection \<open>The walk over the queue\<close>

text \<open>What one walk makes of an entry: a request after more than a second, at most five in all.\<close>

definition tick_entry :: "int \<Rightarrow> arp_queue_entry \<Rightarrow> arp_queue_entry list" where
  "tick_entry now a =
     (if now - aqe_last_req_time a > 1 then
        if aqe_requests a < 5 then [a\<lparr>aqe_last_req_time := now, aqe_requests := aqe_requests a + 1\<rparr>] else []
      else [a])"

definition tick_queue :: "int \<Rightarrow> arp_queue_entry list \<Rightarrow> arp_queue_entry list" where
  "tick_queue now q = concat (map (tick_entry now) q)"

lemma tick_queue_simps [simp]:
  "tick_queue now [] = []" "tick_queue now (a # q) = tick_entry now a @ tick_queue now q"
  "tick_queue now (q @ r) = tick_queue now q @ tick_queue now r"
  by (simp_all add: tick_queue_def)

lemma tick_entry_ext:
  assumes "entry_ext a b"
  shows "list_all2 entry_ext (tick_entry now a) (tick_entry now b)"
  using assms by (simp add: tick_entry_def entry_ext_def)

lemma tick_queue_ext: "list_all2 entry_ext q r \<Longrightarrow> list_all2 entry_ext (tick_queue now q) (tick_queue now r)"
  by (induction rule: list_all2_induct) (simp_all add: tick_entry_ext list_all2_appendI)

lemma tick_queue_fresh: "\<forall>a\<in>set s. entry_fresh ifok now a \<Longrightarrow> tick_queue now s = s"
  by (induction s) (auto simp: tick_entry_def entry_fresh_def)

lemma tick_queue_set:
  "b \<in> set (tick_queue now q) \<longleftrightarrow> (\<exists>a\<in>set q. b \<in> set (tick_entry now a))"
  by (simp add: tick_queue_def)

text \<open>The ARP requests that the walk sends.\<close>

definition asked :: "router_state \<Rightarrow> int \<Rightarrow> arp_queue_entry list \<Rightarrow> (packet \<times> string) list \<Rightarrow> bool" where
  "asked rs now l out \<longleftrightarrow> (\<forall>a\<in>set l. now - aqe_last_req_time a > 1 \<and> aqe_requests a < 5 \<longrightarrow>
     (\<exists>ifa. get_iface rs (aqe_out_iface_name a) = Some ifa \<and>
       (pad60 (arp_request_frame ifa (aqe_next_hop a)), aqe_out_iface_name a) \<in> set out))"

definition given_up :: "int \<Rightarrow> arp_queue_entry \<Rightarrow> bool" where
  "given_up now a \<longleftrightarrow> now - aqe_last_req_time a > 1 \<and> \<not> aqe_requests a < 5"

definition walk_result :: "int \<Rightarrow> nat \<Rightarrow> router_state \<Rightarrow> router_state \<Rightarrow> bool" where
  "walk_result now k rs rs' \<longleftrightarrow> (\<exists>q' more. rs' = rs\<lparr>rs_arp_queue := q', rs_sent := rs_sent rs @ more\<rparr> \<and>
     queue_ext (\<lambda>n. get_iface rs n \<noteq> None) now
       (take k (rs_arp_queue rs) @ tick_queue now (drop k (rs_arp_queue rs))) q' \<and>
     (keys_distinct (rs_arp_queue rs) \<longrightarrow> keys_distinct q') \<and>
     asked rs now (drop k (rs_arp_queue rs)) more)"

lemma asked_ext:
  assumes "list_all2 entry_ext q r" "asked rs now (r @ s) out"
  shows "asked rs now q out"
  unfolding asked_def
proof (intro ballI impI)
  fix a assume a: "a \<in> set q" "now - aqe_last_req_time a > 1 \<and> aqe_requests a < 5"
  from a(1) obtain i where i: "i < length q" "a = q ! i" by (auto simp: in_set_conv_nth)
  with assms(1) have r: "entry_ext a (r ! i)" "r ! i \<in> set r"
    by (auto simp: list_all2_nthD list_all2_lengthD)
  with assms(2) a(2) show "\<exists>ifa. get_iface rs (aqe_out_iface_name a) = Some ifa \<and>
       (pad60 (arp_request_frame ifa (aqe_next_hop a)), aqe_out_iface_name a) \<in> set out"
    by (auto simp: asked_def entry_ext_fields [OF r(1)] ball_Un)
qed

lemma walk_end: "length (rs_arp_queue rs) \<le> k \<Longrightarrow> process_arp_queue_loop now rs k = Some rs"
  by (subst process_arp_queue_loop.simps) simp

lemma count_given_up:
  assumes "list_all2 entry_ext q r" and "\<forall>a\<in>set s. entry_fresh ifok now a"
  shows "length (filter (given_up now) (r @ s)) = length (filter (given_up now) q)"
proof -
  have "filter (given_up now) s = []" using assms(2) by (auto simp: filter_empty_conv given_up_def entry_fresh_def)
  moreover have "length (filter (given_up now) r) = length (filter (given_up now) q)"
    using assms(1) by (induction rule: list_all2_induct) (auto simp: given_up_def entry_ext_def)
  ultimately show ?thesis by simp
qed

lemma ifaces_ext:
  assumes "list_all2 entry_ext q r" "\<forall>a\<in>set q. ifok (aqe_out_iface_name a)"
  shows "\<forall>a\<in>set r. ifok (aqe_out_iface_name a)"
  using assms by (induction rule: list_all2_induct) (auto simp: entry_ext_def)

lemma fresh_ifok: "\<forall>a\<in>set s. entry_fresh ifok now a \<Longrightarrow> \<forall>a\<in>set s. ifok (aqe_out_iface_name a)"
  by (auto simp: entry_fresh_def)

lemma walk_skip:
  assumes k: "k < length (rs_arp_queue rs)"
    and wait: "\<not> now - aqe_last_req_time (rs_arp_queue rs ! k) > 1"
    and rest: "walk_result now (Suc k) rs rs'"
  shows "walk_result now k rs rs'"
proof -
  let ?q = "rs_arp_queue rs"
  from k have drop: "drop k ?q = ?q ! k # drop (Suc k) ?q" by (simp add: Cons_nth_drop_Suc)
  then have "take (Suc k) ?q @ tick_queue now (drop (Suc k) ?q) = take k ?q @ tick_queue now (drop k ?q)"
    using wait k by (simp add: take_Suc_conv_app_nth tick_entry_def)
  moreover have "asked rs now (drop k ?q) out = asked rs now (drop (Suc k) ?q) out" for out
    unfolding drop using wait by (simp add: asked_def)
  ultimately show ?thesis using rest unfolding walk_result_def by simp
qed

lemma walk_ask:
  assumes k: "k < length (rs_arp_queue rs)" and a: "a = rs_arp_queue rs ! k"
    and due: "now - aqe_last_req_time a > 1" "aqe_requests a < 5"
    and ifa: "get_iface rs (aqe_out_iface_name a) = Some ifa"
    and m: "m = rs\<lparr>rs_arp_queue := (rs_arp_queue rs)[k := a\<lparr>aqe_last_req_time := now, aqe_requests := aqe_requests a + 1\<rparr>],
      rs_sent := rs_sent rs @ [(pad60 (arp_request_frame ifa (aqe_next_hop a)), aqe_out_iface_name a)]\<rparr>"
    and rest: "walk_result now (Suc k) m rs'"
  shows "walk_result now k rs rs'"
proof -
  let ?q = "rs_arp_queue rs" and ?a = "a\<lparr>aqe_last_req_time := now, aqe_requests := aqe_requests a + 1\<rparr>"
  let ?f = "(pad60 (arp_request_frame ifa (aqe_next_hop a)), aqe_out_iface_name a)"
  have qm: "rs_arp_queue m = ?q[k := ?a]" and g: "get_iface m n = get_iface rs n" for n
    by (simp_all add: m get_iface_def)
  from rest obtain q' out where r: "rs' = m\<lparr>rs_arp_queue := q', rs_sent := rs_sent m @ out\<rparr>"
      "queue_ext (\<lambda>n. get_iface rs n \<noteq> None) now (take (Suc k) (?q[k := ?a]) @ tick_queue now (drop (Suc k) (?q[k := ?a]))) q'"
      "keys_distinct (?q[k := ?a]) \<longrightarrow> keys_distinct q'" "asked m now (drop (Suc k) (?q[k := ?a])) out"
    unfolding walk_result_def qm g by blast
  have drop: "drop k ?q = a # drop (Suc k) ?q" using k by (simp add: Cons_nth_drop_Suc a)
  have "take (Suc k) (?q[k := ?a]) @ tick_queue now (drop (Suc k) (?q[k := ?a])) =
      take k ?q @ tick_queue now (drop k ?q)"
    unfolding drop using k due by (simp add: take_Suc_conv_app_nth tick_entry_def)
  moreover have "keys_distinct ?q \<longrightarrow> keys_distinct (?q[k := ?a])" using k by (simp add: keys_update a)
  moreover have "asked rs now (drop k ?q) (?f # out)"
    unfolding drop using r(4) ifa by (auto simp: asked_def g)
  ultimately show ?thesis unfolding walk_result_def using r(1-3)
    by (intro exI [of _ q'] exI [of _ "?f # out"]) (simp add: m)
qed

text \<open>Giving up entry \<open>k\<close>: the state after it, the progress of the walk, and the rest of the walk.\<close>

lemma walk_give_up:
  assumes k: "k < length (rs_arp_queue rs)" and up: "given_up now (rs_arp_queue rs ! k)"
    and ifs: "\<forall>a\<in>set (rs_arp_queue rs). get_iface rs (aqe_out_iface_name a) \<noteq> None"
    and step: "queue_step now (rs\<lparr>rs_arp_queue := (rs_arp_queue rs)[k := (rs_arp_queue rs ! k)\<lparr>aqe_head := []\<rparr>]\<rparr>) m"
    and m': "m' = m\<lparr>rs_arp_queue := remove_nth k (rs_arp_queue m)\<rparr>"
  obtains q1 r s out where "m' = rs\<lparr>rs_arp_queue := q1, rs_sent := rs_sent rs @ out\<rparr>"
    "q1 = take k r @ drop (Suc k) r @ s" "length r = length (rs_arp_queue rs)"
    "list_all2 entry_ext (take k (rs_arp_queue rs)) (take k r)"
    "list_all2 entry_ext (drop (Suc k) (rs_arp_queue rs)) (drop (Suc k) r)"
    "\<forall>a\<in>set s. entry_fresh (\<lambda>n. get_iface rs n \<noteq> None) now a"
    "keys_distinct (rs_arp_queue rs) \<longrightarrow> keys_distinct q1"
    "\<forall>a\<in>set q1. get_iface rs (aqe_out_iface_name a) \<noteq> None"
proof -
  let ?q = "rs_arp_queue rs" and ?a = "(rs_arp_queue rs ! k)\<lparr>aqe_head := []\<rparr>"
  have g: "get_iface (rs\<lparr>rs_arp_queue := x\<rparr>) n = get_iface rs n" for x n by (simp add: get_iface_def)
  from step obtain q0 out where m: "m = rs\<lparr>rs_arp_queue := q0, rs_sent := rs_sent rs @ out\<rparr>"
      and ext: "queue_ext (\<lambda>n. get_iface rs n \<noteq> None) now (?q[k := ?a]) q0"
      and d: "keys_distinct (?q[k := ?a]) \<longrightarrow> keys_distinct q0"
    unfolding queue_step_def g by auto
  from ext obtain r s where q0: "q0 = r @ s" and r: "list_all2 entry_ext (?q[k := ?a]) r"
      and s: "\<forall>a\<in>set s. entry_fresh (\<lambda>n. get_iface rs n \<noteq> None) now a"
    unfolding queue_ext_def by blast
  have len: "length r = length ?q" using r by (auto dest: list_all2_lengthD)
  let ?q1 = "take k r @ drop (Suc k) r @ s"
  have e: "list_all2 entry_ext (take k ?q) (take k r)" "list_all2 entry_ext (drop (Suc k) ?q) (drop (Suc k) r)"
    using list_all2_takeI [OF r, of k] list_all2_dropI [OF r, of "Suc k"] by simp_all
  have "\<forall>a\<in>set (take k ?q). get_iface rs (aqe_out_iface_name a) \<noteq> None"
    "\<forall>a\<in>set (drop (Suc k) ?q). get_iface rs (aqe_out_iface_name a) \<noteq> None"
    using ifs by (auto dest: in_set_takeD in_set_dropD)
  from ifaces_ext [OF e(1) this(1)] ifaces_ext [OF e(2) this(2)] fresh_ifok [OF s]
  have ifs1: "\<forall>a\<in>set ?q1. get_iface rs (aqe_out_iface_name a) \<noteq> None" by (simp add: ball_Un)
  have "map aqe_next_hop (?q[k := ?a]) = map aqe_next_hop ?q" using k by (simp add: keys_update)
  moreover have "q0 = take k r @ [r ! k] @ drop (Suc k) r @ s"
    using len k by (simp add: q0 Cons_nth_drop_Suc)
  ultimately have "keys_distinct ?q \<longrightarrow> keys_distinct ?q1" using d by auto
  moreover have "m' = rs\<lparr>rs_arp_queue := ?q1, rs_sent := rs_sent rs @ out\<rparr>"
    using len k by (simp add: m' m q0 remove_nth_def)
  ultimately show ?thesis using that [OF _ refl len e s _ ifs1, of out] by blast
qed

lemma walk_after_give_up:
  assumes k: "k < length (rs_arp_queue rs)" and up: "given_up now (rs_arp_queue rs ! k)"
    and m: "m = rs\<lparr>rs_arp_queue := q1, rs_sent := rs_sent rs @ out\<rparr>"
    and q1: "q1 = take k r @ drop (Suc k) r @ s" "length r = length (rs_arp_queue rs)"
      "list_all2 entry_ext (take k (rs_arp_queue rs)) (take k r)"
      "list_all2 entry_ext (drop (Suc k) (rs_arp_queue rs)) (drop (Suc k) r)"
      "\<forall>a\<in>set s. entry_fresh (\<lambda>n. get_iface rs n \<noteq> None) now a"
    and d: "keys_distinct (rs_arp_queue rs) \<longrightarrow> keys_distinct q1"
    and rest: "walk_result now k m rs' \<or> Suc k = length (rs_arp_queue rs) \<and> rs' = m"
  shows "walk_result now k rs rs'"
proof -
  let ?q = "rs_arp_queue rs"
  have drop: "drop k ?q = ?q ! k # drop (Suc k) ?q" using k by (simp add: Cons_nth_drop_Suc)
  have g: "get_iface m n = get_iface rs n" for n by (simp add: m get_iface_def)
  have tick: "tick_queue now (drop k ?q) = tick_queue now (drop (Suc k) ?q)"
    unfolding drop using up by (simp add: tick_entry_def given_up_def)
  have ext: "queue_ext (\<lambda>n. get_iface rs n \<noteq> None) now (take k ?q @ tick_queue now (drop k ?q))
      (take k q1 @ tick_queue now (drop k q1))"
    unfolding queue_ext_def q1(1) tick using q1(2-5) k
    by (intro exI [of _ "take k r @ tick_queue now (drop (Suc k) r)"] exI [of _ s])
       (simp add: tick_queue_fresh tick_queue_ext list_all2_appendI)
  have asked: "asked rs now (drop k ?q) (out @ out')" if "asked rs now (drop k q1) out'" for out'
  proof -
    have "asked rs now (drop (Suc k) ?q) out'"
      by (rule asked_ext [OF q1(4)]) (use that q1(2) k in \<open>simp add: q1(1)\<close>)
    then show ?thesis unfolding drop using up by (auto simp: asked_def given_up_def)
  qed
  from rest show ?thesis
  proof
    assume "walk_result now k m rs'"
    then obtain q' out' where r: "rs' = m\<lparr>rs_arp_queue := q', rs_sent := rs_sent m @ out'\<rparr>"
        "queue_ext (\<lambda>n. get_iface rs n \<noteq> None) now (take k q1 @ tick_queue now (drop k q1)) q'"
        "keys_distinct q1 \<longrightarrow> keys_distinct q'" "asked m now (drop k q1) out'"
      unfolding walk_result_def g by (auto simp: m)
    have "asked rs now (drop k q1) out'" using r(4) unfolding asked_def g .
    then show ?thesis
      unfolding walk_result_def using r(1,3) queue_ext_trans [OF ext r(2)] d asked
      by (intro exI [of _ q'] exI [of _ "out @ out'"]) (simp add: m)
  next
    assume rest: "Suc k = length ?q \<and> rs' = m"
    then have q: "drop k q1 = s" "q1 = take k r @ s" using q1(2) by (simp_all add: q1(1))
    then have "take k q1 @ tick_queue now (drop k q1) = q1"
      using tick_queue_fresh [OF q1(5)] q1(2) k by simp
    moreover have "asked rs now (drop k q1) []"
      unfolding q(1) using q1(5) by (auto simp: asked_def entry_fresh_def)
    ultimately show ?thesis
      unfolding walk_result_def using ext d asked [of "[]"] rest
      by (intro exI [of _ q1] exI [of _ out]) (simp add: m)
  qed
qed

lemma process_arp_queue_loop_walk:
  assumes "config_ok rs" "macs_ok rs" "\<forall>a\<in>set (rs_arp_queue rs). get_iface rs (aqe_out_iface_name a) \<noteq> None"
    and "k \<le> length (rs_arp_queue rs)"
  shows "\<exists>rs'. process_arp_queue_loop now rs k = Some rs' \<and> walk_result now k rs rs'"
  using assms
proof (induction "(rs, k)" arbitrary: rs k rule: wf_induct_rule [OF wf_measures [of
    "[\<lambda>(rs, k). length (filter (given_up now) (drop k (rs_arp_queue rs))),
      \<lambda>(rs, k). length (rs_arp_queue rs) - k]"]])
  case less: 1
  let ?q = "rs_arp_queue rs" and ?a = "rs_arp_queue rs ! k"
  let ?ms = "[\<lambda>(rs, k). length (filter (given_up now) (drop k (rs_arp_queue rs))),
      \<lambda>(rs, k). length (rs_arp_queue rs) - k]"
  note IH = less(1) and ok = less(2,3) and ifs = less(4)
  show ?case
  proof (cases "k < length ?q")
    case False
    have "walk_result now k rs rs"
      unfolding walk_result_def using False
      by (intro exI [of _ ?q] exI [of _ "[]"]) (simp add: queue_ext_refl asked_def)
    with False show ?thesis by (simp add: walk_end)
  next
    case k: True
    then have drop: "drop k ?q = ?a # drop (Suc k) ?q" and mem: "?a \<in> set ?q" by (simp_all add: Cons_nth_drop_Suc)
    consider "\<not> now - aqe_last_req_time ?a > 1" | "now - aqe_last_req_time ?a > 1" "aqe_requests ?a < 5"
      | "given_up now ?a" by (auto simp: given_up_def)
    then show ?thesis
    proof cases
      case wait: 1
      have "((rs, Suc k), (rs, k)) \<in> measures ?ms" using k by (auto simp: drop)
      from IH [OF this ok ifs] k obtain rs' where "process_arp_queue_loop now rs (Suc k) = Some rs'"
          "walk_result now (Suc k) rs rs'" by auto
      moreover from this(1) have "process_arp_queue_loop now rs k = Some rs'"
        using wait k walk_end [of rs "Suc k" now]
        by (subst process_arp_queue_loop.simps) (auto simp: Let_def)
      ultimately show ?thesis using walk_skip [OF k wait] by blast
    next
      case due: 2
      from ifs mem obtain ifa where ifa: "get_iface rs (aqe_out_iface_name ?a) = Some ifa" by auto
      let ?m = "rs\<lparr>rs_arp_queue := ?q[k := ?a\<lparr>aqe_last_req_time := now, aqe_requests := aqe_requests ?a + 1\<rparr>],
        rs_sent := rs_sent rs @ [(pad60 (arp_request_frame ifa (aqe_next_hop ?a)), aqe_out_iface_name ?a)]\<rparr>"
      have g: "get_iface ?m n = get_iface rs n" for n by (simp add: get_iface_def)
      have dec: "((?m, Suc k), (rs, k)) \<in> measures ?ms" using k by (auto simp: drop)
      have "config_ok ?m" "macs_ok ?m" using ok by (simp_all add: config_ok_def macs_ok_def get_iface_def)
      moreover have "\<forall>a\<in>set (rs_arp_queue ?m). get_iface ?m (aqe_out_iface_name a) \<noteq> None"
        using ifs ifa unfolding g by (auto dest!: subsetD [OF set_update_subset_insert])
      moreover have "Suc k \<le> length (rs_arp_queue ?m)" using k by simp
      ultimately obtain rs' where r: "process_arp_queue_loop now ?m (Suc k) = Some rs'" "walk_result now (Suc k) ?m rs'"
        using IH [OF dec] by blast
      have "send_arp_request (rs\<lparr>rs_arp_queue := x\<rparr>) (aqe_next_hop ?a) (aqe_out_iface_name ?a) =
          Some (rs\<lparr>rs_arp_queue := x, rs_sent := rs_sent rs @
            [(pad60 (arp_request_frame ifa (aqe_next_hop ?a)), aqe_out_iface_name ?a)]\<rparr>)" for x
        using ifa by (simp add: send_arp_request_frame get_interface_get_iface get_iface_def)
      then have "process_arp_queue_loop now rs k = Some rs'"
        using due k r(1) walk_end [of ?m "Suc k" now]
        by (subst process_arp_queue_loop.simps) (auto simp: Let_def)
      with walk_ask [OF k refl due ifa refl r(2)] show ?thesis by blast
    next
      case up: 3
      from return_packets_step [OF ok k] obtain m where m: "return_packets now rs k = Some m"
        "queue_step now (rs\<lparr>rs_arp_queue := ?q[k := ?a\<lparr>aqe_head := []\<rparr>]\<rparr>) m" by blast
      let ?m = "m\<lparr>rs_arp_queue := remove_nth k (rs_arp_queue m)\<rparr>"
      have run: "process_arp_queue_loop now rs k =
          (if k + 1 < length ?q then process_arp_queue_loop now ?m k else Some ?m)"
        using k up m(1) by (subst process_arp_queue_loop.simps) (simp add: given_up_def Let_def)
      from walk_give_up [OF k up ifs m(2) refl] obtain q1 r s out where
        m1: "?m = rs\<lparr>rs_arp_queue := q1, rs_sent := rs_sent rs @ out\<rparr>"
        and q: "q1 = take k r @ drop (Suc k) r @ s" "length r = length ?q"
          "list_all2 entry_ext (take k ?q) (take k r)" "list_all2 entry_ext (drop (Suc k) ?q) (drop (Suc k) r)"
          "\<forall>a\<in>set s. entry_fresh (\<lambda>n. get_iface rs n \<noteq> None) now a"
        and d: "keys_distinct ?q \<longrightarrow> keys_distinct q1"
        and ifs1: "\<forall>a\<in>set q1. get_iface rs (aqe_out_iface_name a) \<noteq> None" .
      note after = walk_after_give_up [OF k up m1 q d]
      show ?thesis
      proof (cases "k + 1 < length ?q")
        case False
        with run k after [of ?m] show ?thesis by simp
      next
        case True
        have "length (filter (given_up now) (drop k q1)) = length (filter (given_up now) (drop (Suc k) ?q))"
          using count_given_up [OF q(4,5)] q(2) k by (simp add: q(1))
        then have "((?m, k), (rs, k)) \<in> measures ?ms" unfolding m1 using up by (simp add: drop)
        moreover have "config_ok ?m" "macs_ok ?m"
          unfolding m1 using ok by (simp_all add: config_ok_def macs_ok_def get_iface_def)
        moreover have "\<forall>a\<in>set (rs_arp_queue ?m). get_iface ?m (aqe_out_iface_name a) \<noteq> None"
          using ifs1 unfolding m1 by (simp add: get_iface_def)
        moreover have "k \<le> length (rs_arp_queue ?m)" using q(2) k unfolding m1 by (simp add: q(1))
        ultimately obtain rs' where "process_arp_queue_loop now ?m k = Some rs'" "walk_result now k ?m rs'"
          using IH by blast
        with True run after [of rs'] show ?thesis by simp
      qed
    qed
  qed
qed

subsection \<open>The step of the ARP thread\<close>

text \<open>The configuration that the walk relies on.\<close>

definition arp_queue_safe :: "router_state \<Rightarrow> bool" where
  "arp_queue_safe rs \<longleftrightarrow> config_ok rs \<and> macs_ok rs \<and> arp_queue_ok rs \<and>
     (\<forall>a\<in>set (rs_arp_queue rs). get_iface rs (aqe_out_iface_name a) \<noteq> None)"

lemma expire_arp_frame:
  "rs_rtable (expire_arp_cache now rs) = rs_rtable rs" "rs_if_list (expire_arp_cache now rs) = rs_if_list rs"
  "rs_arp_queue (expire_arp_cache now rs) = rs_arp_queue rs" "rs_sent (expire_arp_cache now rs) = rs_sent rs"
  by (simp_all add: expire_arp_cache_def expire_arp_loop_filter Let_def)

lemma trigger_arp_routers:
  "rs_router_id (trigger_arp_cache_modified rs) = rs_router_id rs"
  "rs_router_list (trigger_arp_cache_modified rs) = rs_router_list rs"
proof -
  have "rs_router_id (fold (case_prod write_arp_row) xs rs) = rs_router_id rs \<and>
      rs_router_list (fold (case_prod write_arp_row) xs rs) = rs_router_list rs" for xs
    by (induction xs arbitrary: rs) (auto simp: write_arp_row_def Let_def writeReg_def)
  then show "rs_router_id (trigger_arp_cache_modified rs) = rs_router_id rs"
    "rs_router_list (trigger_arp_cache_modified rs) = rs_router_list rs"
    by (simp_all add: trigger_arp_cache_modified_def write_arp_cache_fold)
qed

lemma expire_arp_iface: "get_iface (expire_arp_cache now rs) n = get_iface rs n"
  by (simp add: get_iface_def expire_arp_frame)

lemma expire_arp_safe: "arp_queue_safe (expire_arp_cache now rs) = arp_queue_safe rs"
proof -
  have "rs_router_id (expire_arp_cache now rs) = rs_router_id rs"
    "rs_router_list (expire_arp_cache now rs) = rs_router_list rs"
    by (simp_all add: expire_arp_cache_def Let_def split_beta trigger_arp_routers)
  then show ?thesis
    unfolding arp_queue_safe_def config_ok_def macs_ok_def arp_queue_ok_def expire_arp_iface expire_arp_frame by simp
qed

lemma tick_queue_keys: "distinct (map aqe_next_hop q) \<Longrightarrow> distinct (map aqe_next_hop (tick_queue now q))"
proof (induction q)
  case (Cons a q)
  have "aqe_next_hop ` set (tick_queue now q) \<subseteq> aqe_next_hop ` set q"
    by (auto simp: tick_queue_set tick_entry_def split: if_splits)
  with Cons show ?case by (auto simp: tick_entry_def)
qed simp

lemma queue_ext_entries:
  assumes "queue_ext ifok now q q'" and "b \<in> set q'"
  shows "entry_fresh ifok now b \<or> (\<exists>a\<in>set q. entry_ext a b)"
proof -
  from assms(1) obtain r s where r: "q' = r @ s" "list_all2 entry_ext q r" "\<forall>a\<in>set s. entry_fresh ifok now a"
    unfolding queue_ext_def by blast
  with assms(2) consider "b \<in> set r" | "b \<in> set s" by auto
  then show ?thesis
  proof cases
    case 1
    then obtain i where "i < length r" "b = r ! i" by (auto simp: in_set_conv_nth)
    with r(2) have "entry_ext (q ! i) b" "q ! i \<in> set q" by (auto simp: list_all2_nthD2 list_all2_lengthD)
    then show ?thesis by blast
  qed (use r(3) in blast)
qed

lemma tick_ok:
  assumes ok: "\<forall>a\<in>set q. aqe_head a \<noteq> [] \<and> 1 \<le> aqe_requests a \<and> aqe_requests a \<le> 5 \<and> ifok (aqe_out_iface_name a)"
    and ext: "queue_ext ifok now (tick_queue now q) q'"
  shows "\<forall>a\<in>set q'. aqe_head a \<noteq> [] \<and> 1 \<le> aqe_requests a \<and> aqe_requests a \<le> 5 \<and> ifok (aqe_out_iface_name a)"
proof
  fix b assume "b \<in> set q'"
  with queue_ext_entries [OF ext] consider "entry_fresh ifok now b" | a where "a \<in> set (tick_queue now q)" "entry_ext a b"
    by blast
  then show "aqe_head b \<noteq> [] \<and> 1 \<le> aqe_requests b \<and> aqe_requests b \<le> 5 \<and> ifok (aqe_out_iface_name b)"
  proof cases
    case 2
    then obtain c where "c \<in> set q" "a \<in> set (tick_entry now c)" by (auto simp: tick_queue_set)
    with ok have "aqe_head a \<noteq> [] \<and> 1 \<le> aqe_requests a \<and> aqe_requests a \<le> 5 \<and> ifok (aqe_out_iface_name a)"
      by (auto simp: tick_entry_def split: if_splits)
    with entry_ext_fields [OF 2(2)] show ?thesis by auto
  qed (auto simp: entry_fresh_def)
qed

lemma arp_thread_step_walk:
  assumes safe: "arp_queue_safe rs"
  shows "\<exists>rs' out. arp_thread_step now rs = Some rs' \<and> arp_queue_safe rs' \<and>
    queue_ext (\<lambda>n. get_iface rs n \<noteq> None) now (tick_queue now (rs_arp_queue rs)) (rs_arp_queue rs') \<and>
    rs_sent rs' = rs_sent rs @ out \<and> asked rs now (rs_arp_queue rs) out"
proof -
  let ?e = "expire_arp_cache now rs"
  have e: "config_ok ?e" "macs_ok ?e" "arp_queue_ok ?e"
      "\<forall>a\<in>set (rs_arp_queue ?e). get_iface ?e (aqe_out_iface_name a) \<noteq> None"
    using safe unfolding expire_arp_safe [of now rs, symmetric] unfolding arp_queue_safe_def by blast+
  from process_arp_queue_loop_walk [OF e(1,2,4), of 0 now] obtain rs' where
    r: "arp_thread_step now rs = Some rs'" "walk_result now 0 ?e rs'"
    by (auto simp: arp_thread_step_def process_arp_queue_def)
  from r(2) obtain q' out where rs': "rs' = ?e\<lparr>rs_arp_queue := q', rs_sent := rs_sent rs @ out\<rparr>"
      "queue_ext (\<lambda>n. get_iface rs n \<noteq> None) now (tick_queue now (rs_arp_queue rs)) q'"
      "keys_distinct (rs_arp_queue rs) \<longrightarrow> keys_distinct q'" "asked ?e now (rs_arp_queue rs) out"
    unfolding walk_result_def expire_arp_iface by (auto simp: expire_arp_frame)
  have g: "get_iface rs' n = get_iface rs n" for n
    unfolding rs'(1) by (simp add: get_iface_def expire_arp_frame)
  have entries: "\<forall>a\<in>set (rs_arp_queue rs). aqe_head a \<noteq> [] \<and> 1 \<le> aqe_requests a \<and> aqe_requests a \<le> 5 \<and>
      get_iface rs (aqe_out_iface_name a) \<noteq> None"
    using safe by (simp add: arp_queue_safe_def arp_queue_ok_def)
  from tick_ok [OF entries rs'(2)]
  have "\<forall>a\<in>set q'. aqe_head a \<noteq> [] \<and> 1 \<le> aqe_requests a \<and> aqe_requests a \<le> 5 \<and>
      get_iface rs (aqe_out_iface_name a) \<noteq> None" .
  moreover have "keys_distinct q'" using safe rs'(3) by (simp add: arp_queue_safe_def arp_queue_ok_def)
  moreover have "config_ok rs'" "macs_ok rs'"
    using e(1,2) unfolding rs'(1) by (simp_all add: config_ok_def macs_ok_def get_iface_def)
  ultimately have "arp_queue_safe rs'" unfolding arp_queue_safe_def arp_queue_ok_def g by (simp add: rs'(1))
  moreover have "asked rs now (rs_arp_queue rs) out" using rs'(4) unfolding asked_def expire_arp_iface .
  ultimately show ?thesis using r(1) rs'(1,2) by (intro exI [of _ rs'] exI [of _ out]) simp
qed


text \<open>A router with a packet in its queue for which five requests have been sent.\<close>

definition rs_wait :: router_state where
  "rs_wait = rs_safe\<lparr>rs_arp_queue := [aqe1\<lparr>aqe_requests := 5\<rparr>]\<rparr>"

lemma rs_wait_safe: "arp_queue_safe (rs_wait\<lparr>rs_arp_queue := [aqe1\<lparr>aqe_requests := n\<rparr>]\<rparr>) \<longleftrightarrow> 1 \<le> n \<and> n \<le> 5"
proof -
  let ?rs = "rs_wait\<lparr>rs_arp_queue := [aqe1\<lparr>aqe_requests := n\<rparr>]\<rparr>"
  have g: "get_iface ?rs nm = get_iface rs_fwd nm" for nm by (simp add: get_iface_def rs_wait_def rs_safe_def)
  have "get_router_by_rid 0x01010101 [router1] = Some router1" "r_interface_list router1 \<noteq> []"
    by (simp_all add: router1_def router9_def get_router_by_rid_def)
  moreover have "rs_rtable ?rs = rs_rtable rs2" "rs_if_list ?rs = [iface_out, iface_in]"
    "rs_router_id ?rs = 0x01010101" "rs_router_list ?rs = [router1]"
    by (simp_all add: rs_wait_def rs_safe_def rs_fwd_def)
  moreover have "if_is_wan iface_out = 0" "if_is_wan iface_in = 0" "length (if_addr iface_out) = 6"
      "length (if_addr iface_in) = 6"
    by (simp_all add: iface_out_def iface_in_def eth0_iface_def)
  ultimately have "config_ok ?rs" "macs_ok ?rs"
    using rs_fwd_simps(1,2) unfolding config_ok_def macs_ok_def g by (simp_all add: rs2_def)
  then show ?thesis
    using rs_fwd_simps(2) unfolding arp_queue_safe_def arp_queue_ok_def g by (auto simp: aqe1_def)
qed


primrec arp_thread_steps :: "int list \<Rightarrow> router_state \<Rightarrow> router_state option" where
  "arp_thread_steps [] rs = Some rs"
| "arp_thread_steps (now # ts) rs = Option.bind (arp_thread_step now rs) (arp_thread_steps ts)"

text \<open>An entry is settled when it has had \<open>n\<close> requests or holds nothing but ICMP errors.\<close>

definition settled :: "int \<Rightarrow> int \<Rightarrow> router_state \<Rightarrow> bool" where
  "settled n now rs \<longleftrightarrow> (\<forall>a\<in>set (rs_arp_queue rs). aqe_last_req_time a + 1 < now \<and>
     (n \<le> aqe_requests a \<or> (\<forall>p\<in>set (aqe_head a). quiet p)))"

lemma arp_thread_step_settles:
  assumes safe: "arp_queue_safe rs" and n: "settled n now rs"
    and step: "arp_thread_step now rs = Some rs'" and later: "now + 1 < t"
  shows "settled (n + 1) t rs'"
  unfolding settled_def
proof
  fix b assume b: "b \<in> set (rs_arp_queue rs')"
  from arp_thread_step_walk [OF safe, of now] step
  have "queue_ext (\<lambda>n. get_iface rs n \<noteq> None) now (tick_queue now (rs_arp_queue rs)) (rs_arp_queue rs')" by auto
  from queue_ext_entries [OF this b] consider "entry_fresh (\<lambda>n. get_iface rs n \<noteq> None) now b"
    | c where "c \<in> set (tick_queue now (rs_arp_queue rs))" "entry_ext c b" by blast
  then show "aqe_last_req_time b + 1 < t \<and> (n + 1 \<le> aqe_requests b \<or> (\<forall>p\<in>set (aqe_head b). quiet p))"
  proof cases
    case 1
    with later show ?thesis by (auto simp: entry_fresh_def)
  next
    case 2
    then obtain a where a: "a \<in> set (rs_arp_queue rs)" "c \<in> set (tick_entry now a)" by (auto simp: tick_queue_set)
    with n have "now - aqe_last_req_time a > 1" "n \<le> aqe_requests a \<or> (\<forall>p\<in>set (aqe_head a). quiet p)"
      by (auto simp: settled_def)
    with a(2) have "aqe_last_req_time c = now" "n + 1 \<le> aqe_requests c \<or> (\<forall>p\<in>set (aqe_head c). quiet p)"
      by (auto simp: tick_entry_def split: if_splits)
    with entry_ext_fields [OF 2(2)] later show ?thesis by auto
  qed
qed

lemma arp_thread_steps_settle:
  assumes "arp_queue_safe rs" and "settled n (hd (ts @ [t])) rs" and "sorted_wrt (\<lambda>x y. x + 1 < y) (ts @ [t])"
  shows "\<exists>rs'. arp_thread_steps ts rs = Some rs' \<and> arp_queue_safe rs' \<and> settled (n + int (length ts)) t rs'"
  using assms
proof (induction ts arbitrary: rs n)
  case (Cons now ts)
  from arp_thread_step_walk [OF Cons.prems(1), of now] obtain m where
    m: "arp_thread_step now rs = Some m" "arp_queue_safe m" by blast
  have "now + 1 < hd (ts @ [t])" using Cons.prems(3) by (cases ts) auto
  from arp_thread_step_settles [OF Cons.prems(1) _ m(1) this, of n] Cons.prems(2)
  have "settled (n + 1) (hd (ts @ [t])) m" by simp
  from Cons.IH [OF m(2) this] Cons.prems(3) m(1) show ?case by (simp add: algebra_simps)
qed simp



subsection \<open>The packet that an error quotes\<close>

lemma byte_pair_inject:
  assumes "a + 256 * b = c + 256 * d" "a < 256" "c < (256 :: nat)"
  shows "a = c \<and> b = d"
proof -
  have "a = (a + 256 * b) mod 256" "c = (c + 256 * d) mod 256" using assms(2,3) by simp_all
  with assms show ?thesis by simp
qed

lemma ld16_inject:
  assumes "ld16 p j = ld16 q j"
  shows "ld8 p j = ld8 q j" "ld8 p (j + 1) = ld8 q (j + 1)"
proof -
  have "unat (ld8 p j) + 256 * unat (ld8 p (j + 1)) = unat (ld8 q j) + 256 * unat (ld8 q (j + 1))"
    using arg_cong [OF assms, of unat] unfolding ld16_def unat_w16 .
  then have "unat (ld8 p j) = unat (ld8 q j) \<and> unat (ld8 p (j + 1)) = unat (ld8 q (j + 1))"
    by (rule byte_pair_inject) (rule unat_u8)+
  then show "ld8 p j = ld8 q j" "ld8 p (j + 1) = ld8 q (j + 1)" by (simp_all add: word_unat_eq_iff)
qed

lemma restore_ttl_fields:
  assumes valid: "ip_hl p 14 = 5" "34 \<le> length p" and ttl: "ip_ttl p 14 < 255" and ver: "ip_v p 14 = 4"
  shows "length (restore_ttl p) = length p" and "ld8 (restore_ttl p) 22 = ld8 p 22 + 1"
    and "j \<notin> {22, 24, 25} \<Longrightarrow> ld8 (restore_ttl p) j = ld8 p j"
    and "verify_checksum (restore_ttl p) 14 20 = 0" and "ntohs (ld16 (restore_ttl p) 24) \<noteq> 0xFFFF"
proof -
  define a where "a = st16 (st8 p 22 (ip_ttl p 14 + 1)) 24 0"
  obtain c d where c: "compute_ip_checksum a 14 = (c, d)" by (cases "compute_ip_checksum a 14")
  note v = ip_checksum_value [OF c]
  have r: "restore_ttl p = st16 d 24 (htons c)"
    using c ttl by (simp add: restore_ttl_def hdr_offsets a_def Let_def)
  have la: "length a = length p" "length d = length p" by (simp_all add: a_def v(1))
  show "length (restore_ttl p) = length p" by (simp add: r la)
  have d: "ld8 (restore_ttl p) j = ld8 a j" if "j \<noteq> 24" "j \<noteq> 25" for j using that by (simp add: r v(1) ld8_st16)
  have a: "ld8 a j = ld8 p j" if "j \<noteq> 22" "j \<noteq> 24" "j \<noteq> 25" for j using that by (simp add: a_def ld8_st16 ld8_st8)
  show "ld8 (restore_ttl p) j = ld8 p j" if "j \<notin> {22, 24, 25}" using that d a by simp
  show "ld8 (restore_ttl p) 22 = ld8 p 22 + 1"
    using valid(2) by (simp add: d a_def ld8_st16 ld8_st8 ip_ttl_def)
  have hl: "unat (ip_hl a 14) = 5" using valid(1) a [of 14] by (simp add: ip_hl_def)
  show "verify_checksum (restore_ttl p) 14 20 = 0"
    using ip_checksum_valid [OF _ _ c] hl valid(2) la by (simp add: r)
  define S where "S = shorts_sum (\<lambda>i. i \<noteq> 5) d 14 [0..<10]"
  have "S \<noteq> 0"
  proof -
    have "ld8 d 14 = ld8 p 14" using a [of 14] by (simp add: v(1) ld8_st16)
    moreover have "ld8 p 14 \<noteq> 0" using ver by (auto simp: ip_v_def)
    ultimately have "unat (ntohs (ld16 d 14)) \<noteq> 0"
      using unat_ntohs [of "ld16 d 14"] unat_u8 [of "ld8 d 14"]
      by (simp add: ld16_def unat_w16 word_unat_eq_iff)
    then show ?thesis by (auto simp: S_def shorts_sum_def upt_rec)
  qed
  then have "csum S \<noteq> 0" by simp
  moreover have "unat c = 65535 - csum S" using v(2) unfolding hl S_def by (simp only: numeral_times_numeral semiring_norm)
  ultimately have "unat c \<noteq> 65535" by linarith
  moreover have "ntohs (ld16 (restore_ttl p) 24) = c"
    using valid(2) la by (simp add: r ld16_st16_same)
  ultimately show "ntohs (ld16 (restore_ttl p) 24) \<noteq> 0xFFFF" by (auto simp: word_unat_eq_iff)
qed

text \<open>
  An ICMP error for a packet that was given up quotes the packet as it arrived: what
  forwarding did to its TTL and checksum is undone exactly. The packet has to be one that
  forwarding accepts, with a TTL other than 0 and with its checksum in the usual one of the
  two representations of zero.
\<close>

theorem restore_ttl_undoes_forwarding:
  assumes valid: "is_packet_valid p = 1" and len: "34 \<le> length p" and mac: "length mac = 6"
    and ttl: "ip_ttl p get_ip_hdr \<noteq> 0" and sum: "ip_sum p get_ip_hdr \<noteq> 0xFFFF"
  shows "drop ETH_HDR_LEN (restore_ttl (ip_rewrite p mac)) = drop ETH_HDR_LEN p"
proof -
  let ?q = "ip_rewrite p mac" and ?r = "restore_ttl (ip_rewrite p mac)"
  note q = ip_rewrite_fields [OF valid len mac]
  have q14: "is_packet_valid ?q = 1" "ip_ttl ?q 14 = ip_ttl p 14 - 1" using q(2,3) by (simp_all add: hdr_offsets)
  then have hdr: "ip_hl ?q 14 = 5" "ip_v ?q 14 = 4" by (simp_all add: is_packet_valid_1 hdr_offsets)
  have "x - 1 < 255" if "x \<noteq> 0" for x :: u8
  proof -
    have "unat (x - 1) = unat x - 1" using that by (rule unat_minus_one)
    moreover have "unat x \<noteq> 0" using that by (simp add: unat_eq_0)
    ultimately show ?thesis using unat_u8 [of x] by (simp add: word_less_nat_alt)
  qed
  with ttl have lt: "ip_ttl ?q 14 < 255" unfolding q14(2) by (simp add: hdr_offsets)
  note r = restore_ttl_fields [OF hdr(1) _ lt hdr(2)]
  have lq: "34 \<le> length ?q" using len q(1) by simp
  have same: "ld8 ?r j = ld8 p j" if "14 \<le> j" "j \<noteq> 24" "j \<noteq> 25" for j
    using that r(2,3) [OF lq] q(6) [of j] q14(2) by (cases "j = 22") (simp_all add: ip_ttl_def)
  have "ld16 ?r (14 + 2 * 5) = ld16 p (14 + 2 * 5)"
  proof (rule valid_checksum_unique [of 5 10])
    fix i :: nat assume "i \<noteq> 5"
    then have "14 + 2 * i \<noteq> 24" "14 + 2 * i \<noteq> 25" "14 + 2 * i + 1 \<noteq> 24" "14 + 2 * i + 1 \<noteq> 25" by presburger+
    with same show "ld16 ?r (14 + 2 * i) = ld16 p (14 + 2 * i)" by (simp add: ld16_def)
  next
    show "verify_checksum p 14 (2 * 10) = 0" using valid by (simp add: is_packet_valid_1 hdr_offsets)
    show "verify_checksum ?r 14 (2 * 10) = 0" using r(4) [OF lq] by simp
    show "ntohs (ld16 ?r (14 + 2 * 5)) \<noteq> 0xFFFF" using r(5) [OF lq] by simp
    have "ntohs 0xFFFF = 0xFFFF" "14 + 2 * 5 = get_ip_hdr + 10" by (simp_all add: ntohs_def hdr_offsets)
    then show "ntohs (ld16 p (14 + 2 * 5)) \<noteq> 0xFFFF"
      using sum by (metis ntohs_ntohs ip_sum_def)
  qed simp_all
  from ld16_inject [OF this] have all: "ld8 ?r j = ld8 p j" if "14 \<le> j" for j
    using same [of j] that by (cases "j = 24 \<or> j = 25") auto
  have "length ?r = length p" using r(1) [OF lq] q(1) by simp
  moreover have "?r ! j = p ! j" if "14 \<le> j" "j < length p" for j
    using all [OF that(1)] that(2) calculation by (simp add: ld8_def)
  ultimately show ?thesis by (intro nth_equalityI) (simp_all add: hdr_sizes)
qed

theorem restore_ttl_undoes_forwarding_witness:
  "drop ETH_HDR_LEN (restore_ttl (ip_rewrite echo_request_pkt [2, 0, 0, 0, 0, 1])) = drop ETH_HDR_LEN echo_request_pkt"
proof (rule restore_ttl_undoes_forwarding)
  show "ip_ttl echo_request_pkt get_ip_hdr \<noteq> 0" by (simp add: rs_fwd_simps(6))
  show "ip_sum echo_request_pkt get_ip_hdr \<noteq> 0xFFFF"
    by (simp add: ip_sum_def hdr_offsets ld16_def ld8_def w16_def) (simp add: echo_request_pkt_def)
  show "34 \<le> length echo_request_pkt" by (simp add: echo_request_pkt_def)
qed (simp_all add: echo_request_valid)

end
