(* ===== verification/C_Strings.thy ===== *)
theory C_Strings
  imports Or_Utils Or_Iface
begin

section \<open>The C library functions on strings that the command line uses\<close>

text \<open>
  The conversions of \<^verbatim>\<open>sscanf\<close> that the handlers use (\<^verbatim>\<open>%as\<close>, which allocates the word that
  it reads, \<^verbatim>\<open>%u\<close>, \<^verbatim>\<open>%d\<close> and \<^verbatim>\<open>%2X\<close>), \<^verbatim>\<open>inet_pton\<close>, \<^verbatim>\<open>inet_ntop\<close> and the conversions of
  \<^verbatim>\<open>snprintf\<close>, as glibc implements them. Addresses are the words held in memory: the first
  octet is the low byte. The lemmas are the round trips between the two directions.
\<close>

subsection \<open>Numbers\<close>

definition digit_char :: "nat \<Rightarrow> char" where
  "digit_char d = char_of (48 + d)"

fun show_nat :: "nat \<Rightarrow> string" where
  "show_nat n = (if n < 10 then [digit_char n] else show_nat (n div 10) @ [digit_char (n mod 10)])"

declare show_nat.simps [simp del]

definition show_int :: "int \<Rightarrow> string" where
  "show_int i = (if i < 0 then CHR ''-'' # show_nat (nat (- i)) else show_nat (nat i))"

definition is_space :: "char \<Rightarrow> bool" where
  "is_space c \<longleftrightarrow> of_char c = (32 :: nat) \<or> (9 \<le> (of_char c :: nat) \<and> of_char c \<le> (13 :: nat))"

definition digit_val :: "nat \<Rightarrow> char \<Rightarrow> nat option" where
  "digit_val base c =
     (let n = of_char c :: nat;
          v = (if 48 \<le> n \<and> n \<le> 57 then Some (n - 48)
               else if 65 \<le> n \<and> n \<le> 70 then Some (n - 55)
               else if 97 \<le> n \<and> n \<le> 102 then Some (n - 87) else None)
      in case v of None \<Rightarrow> None | Some d \<Rightarrow> if d < base then Some d else None)"

text \<open>Digits up to a width: their value, how many there are, and the rest of the input.\<close>

fun read_digits :: "nat \<Rightarrow> nat \<Rightarrow> string \<Rightarrow> nat \<Rightarrow> nat \<Rightarrow> nat \<times> nat \<times> string" where
  "read_digits base 0 s acc k = (acc, k, s)"
| "read_digits base (Suc w) [] acc k = (acc, k, [])"
| "read_digits base (Suc w) (c # s) acc k =
     (case digit_val base c of
        None \<Rightarrow> (acc, k, c # s)
      | Some d \<Rightarrow> read_digits base w s (base * acc + d) (k + 1))"

text \<open>
  The \<^verbatim>\<open>number\<close> part of glibc's scanner: a sign, for base 16 an optional \<^verbatim>\<open>0x\<close> whose \<^verbatim>\<open>x\<close> is
  dropped, and digits. All of them count against the width.
\<close>

definition scan_number :: "nat \<Rightarrow> nat \<Rightarrow> string \<Rightarrow> (bool \<times> nat \<times> string) option" where
  "scan_number base width s =
     (let (neg, width, s) = (case s of
            c # t \<Rightarrow> if c = CHR ''-'' then (True, width - 1, t)
                    else if c = CHR ''+'' then (False, width - 1, t) else (False, width, s)
          | [] \<Rightarrow> (False, width, s));
          (k, width, s) = (if width \<noteq> 0 \<and> s \<noteq> [] \<and> hd s = CHR ''0'' then
              (if base = 16 \<and> width \<noteq> 1 \<and> tl s \<noteq> [] \<and> (hd (tl s) = CHR ''x'' \<or> hd (tl s) = CHR ''X'')
               then (1, width - 2, tl (tl s)) else (1, width - 1, tl s))
            else (0, width, s));
          (n, k, s) = read_digits base width s 0 k
      in if k = 0 then None else Some (neg, n, s))"

text \<open>
  \<^verbatim>\<open>strtoul\<close> and \<^verbatim>\<open>strtol\<close> saturate at 64 bits; the result is stored in 32 bits.
\<close>

definition store_unsigned :: "bool \<Rightarrow> nat \<Rightarrow> u32" where
  "store_unsigned neg n = (if 2 ^ 64 \<le> n then - 1 else if neg then - of_nat n else of_nat n)"

definition store_signed :: "bool \<Rightarrow> nat \<Rightarrow> u32" where
  "store_signed neg n =
     (if neg then (if 2 ^ 63 < n then 0 else - of_nat n)
      else if 2 ^ 63 \<le> n then - 1 else of_nat n)"

subsection \<open>sscanf\<close>

datatype fmt = Lit char | Word | Unsigned | Signed | Hex2

datatype scanned = Str string | Num u32

definition skip_space :: "string \<Rightarrow> string" where
  "skip_space = dropWhile is_space"

text \<open>
  The values converted before the first failure; the result of \<^verbatim>\<open>sscanf\<close> is their number, or
  EOF, which no caller tells from 0. A space in the format skips any amount of space.
\<close>

fun sscanf :: "fmt list \<Rightarrow> string \<Rightarrow> scanned list" where
  "sscanf [] s = []"
| "sscanf (Lit c # fs) s =
     (if is_space c then sscanf fs (skip_space s)
      else case s of [] \<Rightarrow> [] | d # t \<Rightarrow> if d = c then sscanf fs t else [])"
| "sscanf (Word # fs) s =
     (let s = skip_space s; w = takeWhile (\<lambda>c. \<not> is_space c) s
      in if w = [] then [] else Str w # sscanf fs (dropWhile (\<lambda>c. \<not> is_space c) s))"
| "sscanf (Unsigned # fs) s =
     (let s = skip_space s in case scan_number 10 (length s) s of
        None \<Rightarrow> [] | Some (neg, n, t) \<Rightarrow> Num (store_unsigned neg n) # sscanf fs t)"
| "sscanf (Signed # fs) s =
     (let s = skip_space s in case scan_number 10 (length s) s of
        None \<Rightarrow> [] | Some (neg, n, t) \<Rightarrow> Num (store_signed neg n) # sscanf fs t)"
| "sscanf (Hex2 # fs) s =
     (case scan_number 16 2 (skip_space s) of
        None \<Rightarrow> [] | Some (neg, n, t) \<Rightarrow> Num (store_unsigned neg n) # sscanf fs t)"

abbreviation lits :: "string \<Rightarrow> fmt list" where
  "lits \<equiv> map Lit"

text \<open>Six bytes in hexadecimal.\<close>

definition mac_fmt :: "fmt list" where
  "mac_fmt = [Hex2, Lit CHR '':'', Hex2, Lit CHR '':'', Hex2, Lit CHR '':'', Hex2, Lit CHR '':'',
     Hex2, Lit CHR '':'', Hex2]"

subsection \<open>Addresses\<close>

text \<open>The bytes of a word in memory.\<close>

definition word_bytes :: "u32 \<Rightarrow> u8 list" where
  "word_bytes w = [ucast w, ucast (drop_bit 8 w), ucast (drop_bit 16 w), ucast (drop_bit 24 w)]"

definition inet_ntop :: "u32 \<Rightarrow> string" where
  "inet_ntop w =
     (case word_bytes w of [a, b, c, d] \<Rightarrow>
        show_nat (unat a) @ CHR ''.'' # show_nat (unat b) @ CHR ''.'' # show_nat (unat c) @
        CHR ''.'' # show_nat (unat d))"

text \<open>\<open>octets\<close> is the list of the octets before the current one, the last first.\<close>

fun inet_pton4 :: "string \<Rightarrow> bool \<Rightarrow> nat list \<Rightarrow> nat \<Rightarrow> nat list option" where
  "inet_pton4 [] saw_digit octets tp =
     (if saw_digit \<and> length octets = 3 then Some (rev (tp # octets)) else None)"
| "inet_pton4 (ch # src) saw_digit octets tp =
     (case digit_val 10 ch of
        Some d \<Rightarrow>
          (if saw_digit \<and> tp = 0 then None
           else if 10 * tp + d > 255 then None
           else inet_pton4 src True octets (10 * tp + d))
      | None \<Rightarrow>
          (if ch = CHR ''.'' \<and> saw_digit \<and> length octets < 3 then inet_pton4 src False (tp # octets) 0
           else None))"

definition inet_pton :: "string \<Rightarrow> u32 option" where
  "inet_pton s =
     (case inet_pton4 s False [] 0 of
        Some [a, b, c, d] \<Rightarrow> Some (w32 (of_nat a) (of_nat b) (of_nat c) (of_nat d))
      | _ \<Rightarrow> None)"

subsection \<open>snprintf\<close>

text \<open>\<^verbatim>\<open>%-ns\<close> and \<^verbatim>\<open>%ns\<close>: padding with spaces on the right and on the left.\<close>

definition ljust :: "nat \<Rightarrow> string \<Rightarrow> string" where
  "ljust n s = s @ replicate (n - length s) CHR '' ''"

definition rjust :: "nat \<Rightarrow> string \<Rightarrow> string" where
  "rjust n s = replicate (n - length s) CHR '' '' @ s"

definition hex02 :: "u8 \<Rightarrow> string" where
  "hex02 b = [hex_digit (unat b div 16), hex_digit (unat b mod 16)]"

definition snprintf :: "nat \<Rightarrow> string \<Rightarrow> string" where
  "snprintf n s = take (n - 1) s"

definition nl :: char where "nl = CHR 0x0A"

text \<open>\<^verbatim>\<open>%02X:%02X:%02X:%02X:%02X:%02X\<close>\<close>

definition show_mac :: "u8 list \<Rightarrow> string" where
  "show_mac m = hex02 (m ! 0) @ '':'' @ hex02 (m ! 1) @ '':'' @ hex02 (m ! 2) @ '':'' @
     hex02 (m ! 3) @ '':'' @ hex02 (m ! 4) @ '':'' @ hex02 (m ! 5)"

subsection \<open>Reading back what was printed\<close>

lemma of_char_digit [simp]: "d < 10 \<Longrightarrow> (of_char (digit_char d) :: nat) = 48 + d"
  by (simp add: digit_char_def of_char_of)

lemma digit_val_char [simp]: "d < 10 \<Longrightarrow> d < base \<Longrightarrow> digit_val base (digit_char d) = Some d"
  by (simp add: digit_val_def)

lemma digit_val_10:
  assumes "digit_val 10 c = Some d"
  shows "c = digit_char d" "d < 10"
proof -
  from assms have "48 \<le> (of_char c :: nat)" "d = of_char c - 48" "d < 10"
    by (auto simp: digit_val_def Let_def split: if_splits)
  then show "c = digit_char d" "d < 10" by (simp_all add: digit_char_def)
qed

lemma show_nat_small: "n < 10 \<Longrightarrow> show_nat n = [digit_char n]"
  by (subst show_nat.simps) simp

lemma show_nat_step: "0 < n \<Longrightarrow> d < 10 \<Longrightarrow> show_nat (10 * n + d) = show_nat n @ [digit_char d]"
  by (subst show_nat.simps) simp

lemma show_nat_digits: "\<forall>c\<in>set (show_nat n). digit_val 10 c \<noteq> None"
proof (induction n rule: show_nat.induct)
  case (1 n)
  then show ?case by (subst show_nat.simps) auto
qed

lemma show_nat_nonempty [simp]: "show_nat n \<noteq> []"
  by (subst show_nat.simps) simp

lemma digit_not_space: "digit_val 10 c \<noteq> None \<Longrightarrow> \<not> is_space c"
  by (auto simp: digit_val_def is_space_def Let_def split: if_splits)

lemma digit_plain:
  assumes "digit_val 10 c \<noteq> None"
  shows "\<not> is_space c" "c \<noteq> CHR ''-''" "c \<noteq> CHR ''+''" "c \<noteq> CHR ''.''"
  using assms by (auto simp: digit_val_def is_space_def Let_def split: if_splits)

definition digits_value :: "string \<Rightarrow> nat \<Rightarrow> nat" where
  "digits_value = fold (\<lambda>c acc. 10 * acc + the (digit_val 10 c))"

lemma read_digits_append:
  assumes "\<forall>c\<in>set s. digit_val 10 c \<noteq> None" and "length s \<le> w"
  shows "read_digits 10 w (s @ t) acc k =
    read_digits 10 (w - length s) t (digits_value s acc) (k + length s)"
  using assms
proof (induction s arbitrary: w acc k)
  case (Cons c s)
  then obtain d w1 where "digit_val 10 c = Some d" "w = Suc w1" by (cases w) auto
  with Cons show ?case by (simp add: digits_value_def)
qed (simp add: digits_value_def)

lemma digits_value_show [simp]: "digits_value (show_nat n) 0 = n"
proof (induction n rule: show_nat.induct)
  case (1 n)
  then show ?case by (subst show_nat.simps) (simp add: digits_value_def)
qed

lemma read_digits_stop: "t = [] \<or> digit_val 10 (hd t) = None \<Longrightarrow> read_digits 10 w t acc k = (acc, k, t)"
  by (cases w; cases t) auto

text \<open>A number in the input is read up to the first character that is no digit.\<close>

lemma scan_show_nat:
  assumes t: "t = [] \<or> digit_val 10 (hd t) = None" and w: "length (show_nat n) \<le> w"
  shows "scan_number 10 w (show_nat n @ t) = Some (False, n, t)"
proof -
  obtain c cs where s: "show_nat n = c # cs" by (cases "show_nat n") auto
  have dig: "\<forall>c\<in>set (c # cs). digit_val 10 c \<noteq> None" using show_nat_digits [of n] by (simp add: s)
  then have c: "c \<noteq> CHR ''-''" "c \<noteq> CHR ''+''" using digit_plain [of c] by auto
  have wide: "length cs < w" using w s by simp
  have val: "digits_value (c # cs) 0 = n" using digits_value_show [of n] by (simp add: s)
  show ?thesis
  proof (cases "c = CHR ''0''")
    case True
    then have "digits_value cs 0 = n" using val by (simp add: digits_value_def digit_val_def)
    with True c wide dig read_digits_append [of cs "w - 1" t 0 1] read_digits_stop [OF t, of _ n] show ?thesis
      by (simp add: scan_number_def s Let_def)
  next
    case False
    with c wide dig val read_digits_append [of "c # cs" w t 0 0] read_digits_stop [OF t, of _ n] show ?thesis
      by (simp add: scan_number_def s Let_def)
  qed
qed

lemma inet_pton4_digit:
  "d < 10 \<Longrightarrow> \<not> (saw \<and> tp = 0) \<Longrightarrow> 10 * tp + d \<le> 255 \<Longrightarrow>
     inet_pton4 (digit_char d # s) saw octs tp = inet_pton4 s True octs (10 * tp + d)"
  by auto

lemma inet_pton4_octet:
  assumes "n \<le> 255"
  shows "inet_pton4 (show_nat n @ s) False octs 0 = inet_pton4 s True octs n"
proof -
  consider "n < 10" | "10 \<le> n" "n < 100" | "100 \<le> n" by linarith
  then show ?thesis
  proof cases
    case 1
    then show ?thesis by (simp add: show_nat_small)
  next
    case 2
    then have "show_nat n = [digit_char (n div 10), digit_char (n mod 10)]" "0 < n div 10" "n div 10 < 10"
      by (simp_all add: show_nat.simps [of n] show_nat_small)
    moreover have "10 * (n div 10) + n mod 10 = n" by simp
    ultimately show ?thesis using assms by simp
  next
    case 3
    then have "show_nat n = [digit_char (n div 100), digit_char (n div 10 mod 10), digit_char (n mod 10)]"
      using assms by (simp add: show_nat.simps [of n] show_nat.simps [of "n div 10"] show_nat_small div_mult2_eq [symmetric])
    moreover have "0 < n div 100" "n div 100 < 10" using 3 assms by simp_all
    moreover have a: "10 * (n div 100) + n div 10 mod 10 = n div 10"
      using div_mult_mod_eq [of "n div 10" 10] by (simp add: div_mult2_eq [symmetric])
    moreover have "n div 10 \<le> 25" "0 < n div 10" "10 * (n div 10) + n mod 10 = n" using 3 assms by simp_all
    moreover have "\<not> 255 < n div 10" using \<open>n div 10 \<le> 25\<close> by linarith
    ultimately show ?thesis using assms by simp
  qed
qed

lemma dot_no_digit [simp]: "digit_val base CHR ''.'' = None"
  by (simp add: digit_val_def)

lemma unat_u8_le: "unat (b :: u8) \<le> 255"
  using unat_u8 [of b] by simp

lemma inet_pton_ntop [simp]: "inet_pton (inet_ntop w) = Some w"
proof -
  have "inet_pton4 (inet_ntop w) False [] 0 = Some (map unat (word_bytes w))"
    by (simp add: inet_ntop_def word_bytes_def inet_pton4_octet unat_u8_le)
       (simp add: inet_pton4_octet [of _ "[]", simplified] unat_u8_le)
  then show ?thesis by (simp add: inet_pton_def word_bytes_def)
qed

text \<open>\<^verbatim>\<open>inet_pton\<close> accepts nothing but what \<^verbatim>\<open>inet_ntop\<close> prints.\<close>

fun dotted :: "nat list \<Rightarrow> string" where
  "dotted [] = []"
| "dotted [n] = show_nat n"
| "dotted (n # m # ns) = show_nat n @ CHR ''.'' # dotted (m # ns)"

lemma inet_pton4_dotted:
  assumes "inet_pton4 s saw octs tp = Some l" and "tp \<le> 255" "\<not> saw \<longrightarrow> tp = 0"
  shows "length l = 4 \<and> (\<exists>ns. l = rev octs @ ns \<and> ns \<noteq> [] \<and> (\<forall>n\<in>set ns. n \<le> 255) \<and>
    (if saw then show_nat tp @ s else s) = dotted ns)"
  using assms
proof (induction s saw octs tp rule: inet_pton4.induct)
  case (1 saw octs tp)
  then show ?case by (auto intro: exI [of _ "[tp]"] split: if_splits)
next
  case (2 ch src saw octs tp)
  show ?case
  proof (cases "digit_val 10 ch")
    case (Some d)
    from 2(3,4) Some have ok: "\<not> (saw \<and> tp = 0)" "10 * tp + d \<le> 255"
        "inet_pton4 src True octs (10 * tp + d) = Some l"
      by (auto split: if_splits)
    from 2(2) [OF Some ok(1) _ ok(3,2)] ok(2) obtain ns where
      ns: "length l = 4" "l = rev octs @ ns" "ns \<noteq> []" "\<forall>n\<in>set ns. n \<le> 255" "show_nat (10 * tp + d) @ src = dotted ns"
      by auto
    note d = digit_val_10 [OF Some]
    have "(if saw then show_nat tp @ ch # src else ch # src) = show_nat (10 * tp + d) @ src"
      using ok(1) d 2(5) by (cases saw) (simp_all add: show_nat_step show_nat_small)
    with ns show ?thesis by auto
  next
    case None
    with 2(3) have ok: "ch = CHR ''.''" "saw" "length octs < 3" "inet_pton4 src False (tp # octs) 0 = Some l"
      by (auto split: if_splits)
    from 2(1) [OF None _ ok(4)] ok obtain ns where
      ns: "length l = 4" "l = rev (tp # octs) @ ns" "ns \<noteq> []" "\<forall>n\<in>set ns. n \<le> 255" "src = dotted ns"
      by auto
    then have "show_nat tp @ ch # src = dotted (tp # ns)" using ok(1) by (cases ns) auto
    with ns ok 2(4) show ?thesis by (auto intro!: exI [of _ "tp # ns"])
  qed
qed

lemma inet_pton_iff: "inet_pton s = Some w \<longleftrightarrow> s = inet_ntop w"
proof
  assume s: "inet_pton s = Some w"
  then obtain l where l: "inet_pton4 s False [] 0 = Some l" by (auto simp: inet_pton_def split: option.splits)
  from inet_pton4_dotted [OF l] have "length l = 4" "\<forall>n\<in>set l. n \<le> 255" "s = dotted l" by auto
  then obtain a b c d where abcd: "l = [a, b, c, d]" "a \<le> 255" "b \<le> 255" "c \<le> 255" "d \<le> 255"
    "s = dotted [a, b, c, d]"
    by (auto simp: numeral_eq_Suc length_Suc_conv)
  have w: "w = w32 (of_nat a) (of_nat b) (of_nat c) (of_nat d)" using s unfolding inet_pton_def l unfolding abcd(1) by simp
  have bytes: "word_bytes (w32 p q r t) = [p, q, r, t]" for p q r t
    by (auto simp: word_bytes_def w32_def bit_simps intro!: bit_word_eqI dest: bit_imp_le_length)
  have "unat (of_nat n :: u8) = n" if "n \<le> 255" for n using that by (simp add: unat_of_nat)
  with abcd show "s = inet_ntop w" by (simp add: inet_ntop_def w bytes)
qed simp

lemma word_no_space: "\<forall>c\<in>set (inet_ntop w). \<not> is_space c"
proof -
  have "\<forall>c\<in>set (show_nat n). \<not> is_space c" for n using show_nat_digits [of n] digit_plain(1) by blast
  moreover have "\<not> is_space CHR ''.''" by (simp add: is_space_def)
  ultimately show ?thesis by (auto simp: inet_ntop_def word_bytes_def)
qed

lemma inet_ntop_nonempty [simp]: "inet_ntop w \<noteq> []"
  by (simp add: inet_ntop_def word_bytes_def)

subsection \<open>Reading a command back\<close>

lemma sscanf_lits: "\<forall>c\<in>set cs. \<not> is_space c \<Longrightarrow> sscanf (lits cs @ fs) (cs @ s) = sscanf fs s"
  by (induction cs) auto

text \<open>A word that ends at a space or at the end of the input.\<close>

definition plain_word :: "string \<Rightarrow> bool" where
  "plain_word w \<longleftrightarrow> w \<noteq> [] \<and> (\<forall>c\<in>set w. \<not> is_space c)"

lemma plain_word_ntop [simp]: "plain_word (inet_ntop a)"
  by (simp add: plain_word_def word_no_space)

lemma is_space_space [simp]: "is_space CHR '' ''"
  by (simp add: is_space_def)

lemma takeWhile_word:
  "\<forall>c\<in>set w. P c \<Longrightarrow> takeWhile P (w @ t) = w @ takeWhile P t"
  "\<forall>c\<in>set w. P c \<Longrightarrow> dropWhile P (w @ t) = dropWhile P t"
  by (induction w) auto

lemma sscanf_word:
  assumes "plain_word w" and t: "t = [] \<or> is_space (hd t)"
  shows "sscanf (Word # fs) (w @ t) = Str w # sscanf fs t"
    and "sscanf (Word # fs) (CHR '' '' # w @ t) = Str w # sscanf fs t"
proof -
  obtain c cs where w: "w = c # cs" "\<not> is_space c" using assms(1) by (cases w) (auto simp: plain_word_def)
  have "takeWhile (\<lambda>c. \<not> is_space c) (w @ t) = w" "dropWhile (\<lambda>c. \<not> is_space c) (w @ t) = t"
    using assms by (cases t; simp add: takeWhile_word plain_word_def)+
  moreover have "skip_space (w @ t) = w @ t" "skip_space (CHR '' '' # w @ t) = w @ t"
    using w by (simp_all add: skip_space_def)
  ultimately show "sscanf (Word # fs) (w @ t) = Str w # sscanf fs t"
    "sscanf (Word # fs) (CHR '' '' # w @ t) = Str w # sscanf fs t"
    using w by (simp_all add: Let_def)
qed

lemma sscanf_space:
  assumes "s \<noteq> []" "\<not> is_space (hd s)"
  shows "sscanf (Lit CHR '' '' # fs) (CHR '' '' # s) = sscanf fs s"
proof -
  have "skip_space s = s" using assms by (cases s) (auto simp: skip_space_def)
  then show ?thesis by (simp add: skip_space_def)
qed

lemma plain_word_append: "plain_word w \<Longrightarrow> w @ t \<noteq> [] \<and> \<not> is_space (hd (w @ t))"
  by (cases w) (auto simp: plain_word_def)

lemma length_show_nat:
  "n < 10 \<Longrightarrow> length (show_nat n) = 1" "n < 100 \<Longrightarrow> length (show_nat n) \<le> 2" "n \<le> 255 \<Longrightarrow> length (show_nat n) \<le> 3"
proof -
  have step: "length (show_nat n) \<le> Suc (length (show_nat (n div 10)))" for n
    by (cases "n < 10") (simp_all add: show_nat_small show_nat.simps [of n])
  show 1: "n < 10 \<Longrightarrow> length (show_nat n) = 1" for n by (simp add: show_nat_small)
  show 2: "length (show_nat n) \<le> 2" if "n < 100" for n
    using step [of n] 1 [of "n div 10"] that by simp
  show "length (show_nat n) \<le> 3" if "n \<le> 255"
    using step [of n] 2 [of "n div 10"] that by (simp add: div_less_iff_less_mult)
qed

lemma length_inet_ntop: "length (inet_ntop w) \<le> 15"
proof -
  have "length (show_nat (unat b)) \<le> 3" for b :: u8 by (rule length_show_nat(3)) (rule unat_u8_le)
  from this [of "ucast w"] this [of "ucast (drop_bit 8 w)"] this [of "ucast (drop_bit 16 w)"]
    this [of "ucast (drop_bit 24 w)"]
  show ?thesis by (simp add: inet_ntop_def word_bytes_def)
qed

end
