(* ===== verification/Or_Output.thy ===== *)
theory Or_Output
  imports C_Strings Or_Nat
begin

section \<open>Printing of the tables (\<^verbatim>\<open>or_output.c\<close>)\<close>

text \<open>
  The tables as text, the way the commands \<^verbatim>\<open>show ip route\<close>, \<^verbatim>\<open>show ip arp\<close>, \<^verbatim>\<open>show ip interface\<close>
  and \<^verbatim>\<open>show pwospf\<close> print them. A buffer and its length are the list of the characters
  written. The lemmas show that the line buffers are large enough, that the routing table can be
  read back from its text, and when the text of the PWOSPF interfaces overflows its buffer.
\<close>

subsection \<open>The code\<close>

definition yes_no :: "bool \<Rightarrow> string" where
  "yes_no b = (if b then ''Y'' else ''N'')"

definition ARP_CACHE_COL :: string where
  "ARP_CACHE_COL = ''IP Address      MAC               TTL'' @ [nl]"

definition ARP_CACHE_ENTRY_TO_STRING_LEN :: nat where "ARP_CACHE_ENTRY_TO_STRING_LEN = 82"

text \<open>The remaining time is a difference of whole seconds that \<^verbatim>\<open>%f\<close> prints with six zeros.\<close>

definition arp_line :: "int \<Rightarrow> router_state \<Rightarrow> arp_cache_entry \<Rightarrow> string" where
  "arp_line now rs e =
     (let ttl = (if ace_is_static e = 0
                 then snprintf 47 (show_int (uint (rs_arp_ttl rs) - (now - ace_TTL e)) @ ''.000000'')
                 else snprintf 47 ''static'')
      in snprintf ARP_CACHE_ENTRY_TO_STRING_LEN
           (ljust 15 (inet_ntop (ace_ip e)) @ '' '' @ show_mac (ace_ha e) @ '' '' @ ljust 46 ttl @ [nl]))"

definition sprint_arp_cache :: "int \<Rightarrow> router_state \<Rightarrow> string" where
  "sprint_arp_cache now rs = ARP_CACHE_COL @ concat (map (arp_line now rs) (rs_arp_cache rs))"

definition IFACE_COL :: string where
  "IFACE_COL =
     ''Name                  MAC               IP              Mask            Speed Up WAN'' @ [nl]"

definition IFACE_ENTRY_TO_STRING_LEN :: nat where "IFACE_ENTRY_TO_STRING_LEN = 100"
definition IFACE_MAX_IFACE_LEN :: nat where "IFACE_MAX_IFACE_LEN = 21"

definition iface_line :: "iface_entry \<Rightarrow> string" where
  "iface_line i =
     snprintf IFACE_ENTRY_TO_STRING_LEN
       (ljust 21 (snprintf IFACE_MAX_IFACE_LEN (if_name i)) @ '' '' @ show_mac (if_addr i) @ '' '' @
        ljust 15 (inet_ntop (if_ip i)) @ '' '' @ ljust 15 (inet_ntop (if_mask i)) @ '' '' @
        ljust 5 (show_int (sint (if_speed i))) @ '' '' @ ljust 2 (yes_no (if_is_active i)) @ '' '' @
        ljust 2 (yes_no (if_is_wan i = 1)) @ [nl])"

definition sprint_if_list :: "router_state \<Rightarrow> string" where
  "sprint_if_list rs = IFACE_COL @ concat (map iface_line (rs_if_list rs))"

definition PWOSPF_IFACE_COL :: string where
  "PWOSPF_IFACE_COL =
     ''Name IP                  Mask                LSH  NID                 NIP                 LRH  A'' @ [nl]"

definition PWOSPF_IFACE_ENTRY_TO_STRING_LEN :: nat where "PWOSPF_IFACE_ENTRY_TO_STRING_LEN = 256"
definition PWOSPF_IFACE_MAX_IFACE_LEN :: nat where "PWOSPF_IFACE_MAX_IFACE_LEN = 21"

definition pwospf_iface_row ::
  "string \<Rightarrow> string \<Rightarrow> string \<Rightarrow> string \<Rightarrow> string \<Rightarrow> string \<Rightarrow> string \<Rightarrow> string \<Rightarrow> string" where
  "pwospf_iface_row name ip msk sent nid nip recvd act =
     snprintf PWOSPF_IFACE_ENTRY_TO_STRING_LEN
       (ljust 5 name @ ljust 20 ip @ ljust 20 msk @ ljust 5 sent @ ljust 20 nid @ ljust 20 nip @
        ljust 5 recvd @ ljust 1 act @ '' '' @ [nl])"

text \<open>The age of the last hello, or \<^verbatim>\<open>EXP\<close> when it is older than the limit.\<close>

definition hello_age :: "int \<Rightarrow> int \<Rightarrow> int \<Rightarrow> string" where
  "hello_age now limit seen =
     (if now - seen > limit then snprintf 47 ''EXP'' else snprintf 47 (show_int (now - seen)))"

definition more_nbr_row :: "int \<Rightarrow> router_state \<Rightarrow> nbr_router \<Rightarrow> string" where
  "more_nbr_row now rs nbr =
     pwospf_iface_row '''' '''' '''' '''' (inet_ntop (nbr_router_id nbr)) (inet_ntop (nbr_ip nbr))
       (hello_age now (3 * uint (rs_hello_interval rs)) (nbr_last_rcvd_hello nbr)) ''''"

text \<open>
  \<open>nid\<close> and \<open>nip\<close> are variables outside the loop: an interface without neighbours leaves in them
  what an interface before it stored, and prints that.
\<close>

fun pwospf_if_lines :: "int \<Rightarrow> router_state \<Rightarrow> u32 \<Rightarrow> u32 \<Rightarrow> iface_entry list \<Rightarrow> string" where
  "pwospf_if_lines now rs nid nip [] = ''''"
| "pwospf_if_lines now rs nid nip (i # iface_walker) =
     (let (nid, nip, lrecv_hello) = (case if_nbr_routers i of
            [] \<Rightarrow> (nid, nip, '''')
          | nbr # _ \<Rightarrow> (nbr_router_id nbr, nbr_ip nbr,
              hello_age now (3 * uint (rs_hello_interval rs)) (nbr_last_rcvd_hello nbr)));
          line = pwospf_iface_row (snprintf PWOSPF_IFACE_MAX_IFACE_LEN (if_name i)) (inet_ntop (if_ip i))
            (inet_ntop (if_mask i)) (hello_age now (uint (rs_hello_interval rs)) (if_last_sent_hello i))
            (if nip \<noteq> 0 then inet_ntop nid else '''') (if nip \<noteq> 0 then inet_ntop nip else '''')
            (if nip \<noteq> 0 then lrecv_hello else '''') (yes_no (if_is_active i));
          rest = drop 1 (if_nbr_routers i);
          (nid, nip) = (if rest = [] then (nid, nip)
            else (nbr_router_id (List.last rest), nbr_ip (List.last rest)))
      in line @ concat (map (more_nbr_row now rs) rest) @ pwospf_if_lines now rs nid nip iface_walker)"

text \<open>
  The buffer has room for one row per interface; the rows of further neighbours are not counted.
  A copy past its end is None.
\<close>

definition sprint_pwospf_if_list :: "int \<Rightarrow> router_state \<Rightarrow> string option" where
  "sprint_pwospf_if_list now rs =
     (let buffer_len = length PWOSPF_IFACE_COL + PWOSPF_IFACE_ENTRY_TO_STRING_LEN * length (rs_if_list rs);
          buffer = PWOSPF_IFACE_COL @ pwospf_if_lines now rs 0 0 (rs_if_list rs)
      in if length buffer \<le> buffer_len then Some buffer else None)"

definition PWOSPF_ROUTER_LIST_COL :: string where
  "PWOSPF_ROUTER_LIST_COL = ''RID                 AID  SEQ  LU   DIST SPF'' @ [nl]"

definition PWOSPF_ROUTER_LIST_TO_STRING_LEN :: nat where "PWOSPF_ROUTER_LIST_TO_STRING_LEN = 160"

text \<open>The age is compared as an unsigned number with the tripled interval, which may wrap around.\<close>

definition router_line :: "int \<Rightarrow> router_state \<Rightarrow> pwospf_router \<Rightarrow> string" where
  "router_line now rs r =
     (let diff = now - r_last_update r;
          last_update = (if of_int diff > rs_lsu_interval rs * 3 then snprintf 47 ''EXP''
                         else snprintf 47 (show_int diff))
      in snprintf PWOSPF_ROUTER_LIST_TO_STRING_LEN
           (ljust 20 (inet_ntop (r_router_id r)) @ ljust 5 (show_int (sint (ntohl (r_area_id r)))) @
            ljust 5 (show_nat (unat (r_seq r))) @ ljust 5 last_update @
            ljust 5 (show_int (sint (r_distance r))) @
            ljust 5 (if r_shortest_path_found r then ''1'' else ''0'') @ [nl]))"

definition router_iface_line :: "pwospf_interface \<Rightarrow> string" where
  "router_iface_line i =
     snprintf PWOSPF_ROUTER_LIST_TO_STRING_LEN
       (''          '' @ ljust 20 (inet_ntop (pi_subnet i)) @ ljust 20 (inet_ntop (pi_mask i)) @
        ljust 20 (inet_ntop (pi_router_id i)) @ ljust 5 (if pi_is_active i then ''1'' else ''0'') @ [nl])"

definition sprint_pwospf_router_list :: "int \<Rightarrow> router_state \<Rightarrow> string" where
  "sprint_pwospf_router_list now rs = PWOSPF_ROUTER_LIST_COL @
     concat (map (\<lambda>r. router_line now rs r @ concat (map router_iface_line (r_interface_list r)))
       (rs_router_list rs))"

definition RTABLE_COL :: string where
  "RTABLE_COL =
     ''Destination     Gateway         Mask            Iface              Static Active'' @ [nl]"

definition RTABLE_ENTRY_TO_STRING_LEN :: nat where "RTABLE_ENTRY_TO_STRING_LEN = 82"
definition RTABLE_MAX_IFACE_LEN :: nat where "RTABLE_MAX_IFACE_LEN = 18"

definition rtable_line :: "rtable_entry \<Rightarrow> string" where
  "rtable_line re =
     snprintf RTABLE_ENTRY_TO_STRING_LEN
       (ljust 15 (inet_ntop (re_ip re)) @ '' '' @ ljust 15 (inet_ntop (re_gw re)) @ '' '' @
        ljust 15 (inet_ntop (re_mask re)) @ '' '' @
        ljust 18 (snprintf RTABLE_MAX_IFACE_LEN (re_iface re)) @ '' '' @
        ljust 6 (yes_no (re_is_static re)) @ '' '' @ ljust 6 (yes_no (re_is_active re)) @ [nl])"

definition sprint_rtable :: "router_state \<Rightarrow> string" where
  "sprint_rtable rs = RTABLE_COL @ concat (map rtable_line (rs_rtable rs))"

subsection \<open>The buffers\<close>

lemma length_snprintf: "length (snprintf n s) \<le> n - 1"
  by (simp add: snprintf_def)

lemma length_concat_lines:
  "(\<And>x. length (f x) \<le> k) \<Longrightarrow> length (concat (map f xs)) \<le> k * length xs"
proof (induction xs)
  case (Cons x xs)
  from Cons.prems [of x] Cons.IH [OF Cons.prems] show ?case by (simp add: add_mono)
qed simp

lemma rtable_line_le: "length (rtable_line re) \<le> RTABLE_ENTRY_TO_STRING_LEN"
  using length_snprintf [of RTABLE_ENTRY_TO_STRING_LEN] unfolding rtable_line_def
  by (meson diff_le_self le_trans)

lemma arp_line_le: "length (arp_line now rs e) \<le> ARP_CACHE_ENTRY_TO_STRING_LEN"
  using length_snprintf [of ARP_CACHE_ENTRY_TO_STRING_LEN] unfolding arp_line_def Let_def
  by (meson diff_le_self le_trans)

lemma iface_line_le: "length (iface_line i) \<le> IFACE_ENTRY_TO_STRING_LEN"
  using length_snprintf [of IFACE_ENTRY_TO_STRING_LEN] unfolding iface_line_def
  by (meson diff_le_self le_trans)

subsection \<open>The routing table can be read back\<close>

lemma length_ljust: "length s \<le> n \<Longrightarrow> length (ljust n s) = n"
  by (simp add: ljust_def)

lemma ljust_inject:
  assumes "\<forall>c\<in>set s. \<not> is_space c" "\<forall>c\<in>set t. \<not> is_space c" "ljust n s = ljust n t"
  shows "s = t"
proof -
  have "takeWhile (\<lambda>c. \<not> is_space c) (ljust n u) = u" if "\<forall>c\<in>set u. \<not> is_space c" for u
    unfolding ljust_def takeWhile_word(1) [of u "\<lambda>c. \<not> is_space c", OF that] by simp
  from this [OF assms(1)] this [OF assms(2)] show ?thesis unfolding assms(3) by simp
qed

lemma ljust_ntop_inject: "ljust n (inet_ntop a) = ljust n (inet_ntop b) \<longleftrightarrow> a = b"
proof
  assume "ljust n (inet_ntop a) = ljust n (inet_ntop b)"
  from ljust_inject [OF word_no_space word_no_space this] have "inet_ntop a = inet_ntop b" .
  then have "inet_pton (inet_ntop a) = inet_pton (inet_ntop b)" by simp
  then show "a = b" by simp
qed simp

text \<open>Interface names that the table shows in full.\<close>

definition short_name :: "string \<Rightarrow> bool" where
  "short_name s \<longleftrightarrow> plain_word s \<and> length s < RTABLE_MAX_IFACE_LEN"

lemma rtable_line_full:
  assumes "short_name (re_iface re)"
  shows "rtable_line re = ljust 15 (inet_ntop (re_ip re)) @ '' '' @ ljust 15 (inet_ntop (re_gw re)) @ '' '' @
      ljust 15 (inet_ntop (re_mask re)) @ '' '' @ ljust 18 (re_iface re) @ '' '' @
      ljust 6 (yes_no (re_is_static re)) @ '' '' @ ljust 6 (yes_no (re_is_active re)) @ [nl]"
    and "length (rtable_line re) = 81"
proof -
  let ?l = "ljust 15 (inet_ntop (re_ip re)) @ '' '' @ ljust 15 (inet_ntop (re_gw re)) @ '' '' @
      ljust 15 (inet_ntop (re_mask re)) @ '' '' @ ljust 18 (re_iface re) @ '' '' @
      ljust 6 (yes_no (re_is_static re)) @ '' '' @ ljust 6 (yes_no (re_is_active re)) @ [nl]"
  have name: "snprintf RTABLE_MAX_IFACE_LEN (re_iface re) = re_iface re" "length (re_iface re) \<le> 18"
    using assms by (simp_all add: short_name_def snprintf_def RTABLE_MAX_IFACE_LEN_def)
  have len: "length ?l = 81"
    using name(2) by (simp add: length_ljust length_inet_ntop yes_no_def)
  then show "rtable_line re = ?l"
    unfolding rtable_line_def name(1) by (simp add: snprintf_def RTABLE_ENTRY_TO_STRING_LEN_def)
  with len show "length (rtable_line re) = 81" by simp
qed

lemma rtable_line_inject:
  assumes "short_name (re_iface re)" "short_name (re_iface re')" "rtable_line re = rtable_line re'"
  shows "re = re'"
proof -
  have len: "length (ljust 15 (inet_ntop w)) = 15" for w by (simp add: length_ljust length_inet_ntop)
  have name: "length (ljust 18 (re_iface e)) = 18" "\<forall>c\<in>set (re_iface e). \<not> is_space c" if "short_name (re_iface e)" for e
    using that by (simp_all add: length_ljust short_name_def plain_word_def RTABLE_MAX_IFACE_LEN_def)
  have yn: "length (ljust 6 (yes_no b)) = 6" "ljust 6 (yes_no b) = ljust 6 (yes_no c) \<longleftrightarrow> b = c" for b c
    by (simp_all add: yes_no_def ljust_def)
  have eq: "ljust 15 (inet_ntop (re_ip re)) = ljust 15 (inet_ntop (re_ip re'))"
    "ljust 15 (inet_ntop (re_gw re)) = ljust 15 (inet_ntop (re_gw re'))"
    "ljust 15 (inet_ntop (re_mask re)) = ljust 15 (inet_ntop (re_mask re'))"
    "ljust 18 (re_iface re) = ljust 18 (re_iface re')"
    "ljust 6 (yes_no (re_is_static re)) = ljust 6 (yes_no (re_is_static re'))"
    "ljust 6 (yes_no (re_is_active re)) = ljust 6 (yes_no (re_is_active re'))"
    using assms(3) unfolding rtable_line_full(1) [OF assms(1)] rtable_line_full(1) [OF assms(2)]
    by (simp_all add: len name(1) [OF assms(1)] name(1) [OF assms(2)] yn(1))
  then show ?thesis
    using ljust_inject [OF name(2) [OF assms(1)] name(2) [OF assms(2)]]
    by (simp add: ljust_ntop_inject yn(2))
qed

lemma concat_lines_inject:
  assumes "concat (map f xs) = concat (map f ys)" and "\<And>x. x \<in> set xs \<union> set ys \<Longrightarrow> length (f x) = Suc k"
  shows "map f xs = map f ys"
  using assms
proof (induction xs arbitrary: ys)
  case Nil
  then show ?case by (cases ys) force+
next
  case (Cons x xs)
  then obtain y ys' where ys: "ys = y # ys'" by (cases ys) force+
  with Cons.prems have "f x = f y \<and> concat (map f xs) = concat (map f ys')"
    by (intro append_eq_append_conv [THEN iffD1]) auto
  with Cons.IH [of ys'] Cons.prems(2) ys show ?case by auto
qed

text \<open>
  C34. The text of \<^verbatim>\<open>show ip route\<close> fits the buffer that is allocated for it, and shows the routing
  table faithfully: two tables with the same text are the same, as long as the interface names
  have no spaces and at most 17 characters.
\<close>

theorem show_ip_route_faithful:
  assumes "\<forall>re\<in>set (rs_rtable rs). short_name (re_iface re)" "\<forall>re\<in>set (rs_rtable rs'). short_name (re_iface re)"
  shows "length (sprint_rtable rs) \<le> length RTABLE_COL + RTABLE_ENTRY_TO_STRING_LEN * length (rs_rtable rs) \<and>
    (sprint_rtable rs = sprint_rtable rs' \<longleftrightarrow> rs_rtable rs = rs_rtable rs')"
proof (intro conjI iffI)
  show "length (sprint_rtable rs) \<le> length RTABLE_COL + RTABLE_ENTRY_TO_STRING_LEN * length (rs_rtable rs)"
    using length_concat_lines [of rtable_line, OF rtable_line_le] by (simp add: sprint_rtable_def)
  assume "sprint_rtable rs = sprint_rtable rs'"
  then have "concat (map rtable_line (rs_rtable rs)) = concat (map rtable_line (rs_rtable rs'))"
    by (simp add: sprint_rtable_def)
  then have "map rtable_line (rs_rtable rs) = map rtable_line (rs_rtable rs')"
    by (rule concat_lines_inject [where k = 80]) (use assms rtable_line_full(2) in auto)
  moreover have "inj_on rtable_line (set (rs_rtable rs) \<union> set (rs_rtable rs'))"
    using assms by (intro inj_onI rtable_line_inject) auto
  ultimately show "rs_rtable rs = rs_rtable rs'" using inj_on_map_eq_map by blast
qed (simp add: sprint_rtable_def)

theorem show_ip_route_faithful_witness:
  "sprint_rtable (rs0\<lparr>rs_rtable := [\<lparr>re_ip = 0, re_gw = 0x0200000a, re_mask = 0, re_iface = ''eth0'',
     re_is_static = True, re_is_active = True\<rparr>]\<rparr>) \<noteq> sprint_rtable rs0"
  using show_ip_route_faithful [of "rs0\<lparr>rs_rtable := [\<lparr>re_ip = 0, re_gw = 0x0200000a, re_mask = 0,
      re_iface = ''eth0'', re_is_static = True, re_is_active = True\<rparr>]\<rparr>" rs0]
  by (simp add: short_name_def plain_word_def is_space_def RTABLE_MAX_IFACE_LEN_def)

subsection \<open>The text of the PWOSPF interfaces overflows its buffer\<close>

lemma length_snprintf_min: "length (snprintf n s) = min (n - 1) (length s)"
  by (simp add: snprintf_def)

lemma length_ljust_max: "length (ljust n s) = max n (length s)"
  by (simp add: ljust_def)

lemma length_show_nat_le:
  assumes "n < 10 ^ k" "0 < k"
  shows "length (show_nat n) \<le> k"
  using assms
proof (induction k arbitrary: n)
  case (Suc k)
  show ?case
  proof (cases "n < 10")
    case True
    then show ?thesis by (simp add: length_show_nat)
  next
    case False
    then have "k \<noteq> 0" using Suc.prems by (cases k) auto
    then have "length (show_nat (n div 10)) \<le> k" using Suc by simp
    then show ?thesis by (subst show_nat.simps) (simp add: False)
  qed
qed simp

lemma length_hello_age:
  assumes "limit < 1000000" "seen \<le> now"
  shows "length (hello_age now limit seen) \<le> 6"
proof (cases "now - seen > limit")
  case False
  then have "nat (now - seen) < 10 ^ 6" using assms by simp
  then have "length (show_nat (nat (now - seen))) \<le> 6" by (rule length_show_nat_le) simp
  then show ?thesis using False assms(2) by (simp add: hello_age_def snprintf_def show_int_def)
qed (simp add: hello_age_def snprintf_def)

lemma length_pwospf_iface_row:
  "98 \<le> length (pwospf_iface_row name ip msk sent nid nip recvd act)"
  "length name \<le> 20 \<Longrightarrow> length ip \<le> 20 \<Longrightarrow> length msk \<le> 20 \<Longrightarrow> length sent \<le> 6 \<Longrightarrow> length nid \<le> 20 \<Longrightarrow>
   length nip \<le> 20 \<Longrightarrow> length recvd \<le> 6 \<Longrightarrow> length act \<le> 1 \<Longrightarrow>
   length (pwospf_iface_row name ip msk sent nid nip recvd act) \<le> 128"
proof -
  have len: "length (pwospf_iface_row name ip msk sent nid nip recvd act) = min 255
      (max 5 (length name) + (max 20 (length ip) + (max 20 (length msk) + (max 5 (length sent) +
        (max 20 (length nid) + (max 20 (length nip) + (max 5 (length recvd) + (max 1 (length act) + 2))))))))"
    unfolding pwospf_iface_row_def length_snprintf_min length_append length_ljust_max
    by (simp add: PWOSPF_IFACE_ENTRY_TO_STRING_LEN_def)
  show "98 \<le> length (pwospf_iface_row name ip msk sent nid nip recvd act)" unfolding len by simp
  show "length (pwospf_iface_row name ip msk sent nid nip recvd act) \<le> 128"
    if "length name \<le> 20" "length ip \<le> 20" "length msk \<le> 20" "length sent \<le> 6" "length nid \<le> 20"
      "length nip \<le> 20" "length recvd \<le> 6" "length act \<le> 1"
    using that unfolding len by linarith
qed

lemma hello_limits: "uint (rs_hello_interval rs) < 1000000" "3 * uint (rs_hello_interval rs) < 1000000"
proof -
  have "uint (rs_hello_interval rs) < 2 ^ 16" using uint_lt2p [of "rs_hello_interval rs"] by simp
  then show "uint (rs_hello_interval rs) < 1000000" "3 * uint (rs_hello_interval rs) < 1000000" by simp_all
qed

text \<open>The hellos of an interface and of its neighbours are not in the future.\<close>

definition hello_times_past :: "int \<Rightarrow> iface_entry \<Rightarrow> bool" where
  "hello_times_past now i \<longleftrightarrow>
     if_last_sent_hello i \<le> now \<and> (\<forall>nbr\<in>set (if_nbr_routers i). nbr_last_rcvd_hello nbr \<le> now)"

definition iface_rows :: "iface_entry \<Rightarrow> nat" where
  "iface_rows i = max 1 (length (if_nbr_routers i))"

lemma length_more_nbr_row:
  "98 \<le> length (more_nbr_row now rs nbr)"
  "nbr_last_rcvd_hello nbr \<le> now \<Longrightarrow> length (more_nbr_row now rs nbr) \<le> 128"
  unfolding more_nbr_row_def
  by (rule length_pwospf_iface_row(1))
     (rule length_pwospf_iface_row(2);
      simp add: length_hello_age hello_limits order.trans [OF length_inet_ntop])

lemma length_concat_rows:
  assumes "\<And>x. x \<in> set xs \<Longrightarrow> k \<le> length (f x)"
  shows "k * length xs \<le> length (concat (map f xs))"
  using assms
proof (induction xs)
  case (Cons x xs)
  from Cons.prems [of x] Cons.IH [OF Cons.prems] show ?case by (simp add: add_mono)
qed simp

lemma length_concat_rows_le:
  assumes "\<And>x. x \<in> set xs \<Longrightarrow> length (f x) \<le> k"
  shows "length (concat (map f xs)) \<le> k * length xs"
  using assms
proof (induction xs)
  case (Cons x xs)
  from Cons.prems [of x] Cons.IH [OF Cons.prems] show ?case by (simp add: add_mono)
qed simp

lemma iface_rows_rest: "iface_rows i = Suc (length (drop 1 (if_nbr_routers i)))"
  by (simp add: iface_rows_def)

lemma pwospf_if_lines_ge: "98 * sum_list (map iface_rows l) \<le> length (pwospf_if_lines now rs nid nip l)"
proof (induction l arbitrary: nid nip)
  case (Cons i l)
  have rows: "98 * length (drop 1 (if_nbr_routers i)) \<le>
      length (concat (map (more_nbr_row now rs) (drop 1 (if_nbr_routers i))))"
    by (rule length_concat_rows) (rule length_more_nbr_row(1))
  show ?case
    unfolding pwospf_if_lines.simps Let_def split_beta list.map sum_list.Cons iface_rows_rest [of i]
      length_append distrib_left mult_Suc_right add.assoc
    by (intro add_mono length_pwospf_iface_row(1) rows Cons.IH order_refl)
qed simp

lemma pwospf_if_lines_le:
  assumes "\<forall>i\<in>set l. hello_times_past now i"
  shows "length (pwospf_if_lines now rs nid nip l) \<le> 128 * sum_list (map iface_rows l)"
  using assms
proof (induction l arbitrary: nid nip)
  case (Cons i l)
  from Cons.prems have past: "if_last_sent_hello i \<le> now" "\<forall>nbr\<in>set (if_nbr_routers i). nbr_last_rcvd_hello nbr \<le> now"
    by (simp_all add: hello_times_past_def)
  have rows: "length (concat (map (more_nbr_row now rs) (drop 1 (if_nbr_routers i)))) \<le>
      128 * length (drop 1 (if_nbr_routers i))"
    by (rule length_concat_rows_le, rule length_more_nbr_row(2)) (use past(2) in \<open>blast dest: in_set_dropD\<close>)
  have ip: "length (inet_ntop w) \<le> 20" for w by (rule order.trans [OF length_inet_ntop]) simp
  have name: "length (snprintf PWOSPF_IFACE_MAX_IFACE_LEN (if_name i)) \<le> 20"
    by (simp add: snprintf_def PWOSPF_IFACE_MAX_IFACE_LEN_def)
  have sent: "length (hello_age now (uint (rs_hello_interval rs)) (if_last_sent_hello i)) \<le> 6"
    using past(1) by (intro length_hello_age hello_limits)
  have recvd: "length (snd (snd (case if_nbr_routers i of [] \<Rightarrow> (nid, nip, '''')
        | nbr # _ \<Rightarrow> (nbr_router_id nbr, nbr_ip nbr,
            hello_age now (3 * uint (rs_hello_interval rs)) (nbr_last_rcvd_hello nbr))))) \<le> 6" for nid nip :: u32
    using past(2) by (auto split: list.split intro!: length_hello_age hello_limits)
  show ?case
    unfolding pwospf_if_lines.simps Let_def split_beta list.map sum_list.Cons iface_rows_rest [of i]
      length_append distrib_left mult_Suc_right add.assoc
    by (intro add_mono length_pwospf_iface_row(2) rows Cons.IH order_refl name ip sent)
       (use Cons.prems recvd in \<open>simp_all add: ip yes_no_def\<close>)
qed simp

text \<open>
  C38. The text of \<^verbatim>\<open>show pwospf iface\<close> is written into a buffer with room for one row per interface,
  but each neighbour after the first takes a row more. With at most two neighbours on every
  interface the text always fits; when the rows at their least length exceed the buffer, as with
  three neighbours on a single interface, the copy runs past its end.
\<close>

theorem pwospf_if_list_buffer:
  assumes "\<forall>i\<in>set (rs_if_list rs). hello_times_past now i"
  shows "((\<forall>i\<in>set (rs_if_list rs). length (if_nbr_routers i) \<le> 2) \<longrightarrow>
      sprint_pwospf_if_list now rs = Some (PWOSPF_IFACE_COL @ pwospf_if_lines now rs 0 0 (rs_if_list rs))) \<and>
    (PWOSPF_IFACE_ENTRY_TO_STRING_LEN * length (rs_if_list rs) < 98 * sum_list (map iface_rows (rs_if_list rs)) \<longrightarrow>
      sprint_pwospf_if_list now rs = None)"
proof -
  have two: "sum_list (map iface_rows l) \<le> 2 * length l" if "\<forall>i\<in>set l. length (if_nbr_routers i) \<le> 2" for l
    using that by (induction l) (auto simp: iface_rows_def)
  show ?thesis
    using pwospf_if_lines_ge [of "rs_if_list rs" now rs 0 0] pwospf_if_lines_le [OF assms, of rs 0 0] two
    by (fastforce simp: sprint_pwospf_if_list_def PWOSPF_IFACE_ENTRY_TO_STRING_LEN_def)
qed

text \<open>A router whose only interface has the given neighbours.\<close>

definition rs_nbrs :: "nbr_router list \<Rightarrow> router_state" where
  "rs_nbrs nbrs = rs0\<lparr>rs_if_list := [\<lparr>if_name = ''eth0'', if_addr = [0, 0, 0, 0, 0, 1], if_ip = 0x0100000a,
     if_mask = 0x00ffffff, if_speed = 0, if_is_active = True, if_last_sent_hello = 0, if_nbr_routers = nbrs,
     if_is_wan = 0\<rparr>]\<rparr>"

theorem pwospf_if_list_buffer_witness:
  "sprint_pwospf_if_list 20 (rs_nbrs (replicate 3 \<lparr>nbr_router_id = 7, nbr_ip = 8, nbr_last_rcvd_hello = 9\<rparr>)) = None \<and>
   sprint_pwospf_if_list 20 (rs_nbrs []) \<noteq> None"
  using pwospf_if_list_buffer [of "rs_nbrs (replicate 3 \<lparr>nbr_router_id = 7, nbr_ip = 8, nbr_last_rcvd_hello = 9\<rparr>)" 20]
    pwospf_if_list_buffer [of "rs_nbrs []" 20]
  by (simp add: rs_nbrs_def hello_times_past_def iface_rows_def PWOSPF_IFACE_ENTRY_TO_STRING_LEN_def)

end
