(* ===== verification/Hw_Access.thy ===== *)
theory Hw_Access
  imports Or_Rtable Or_Arp
begin

section \<open>Programs that use the registers of the router directly\<close>

text \<open>
  The register tool (\<^verbatim>\<open>sw/cli/cli.c\<close>) and the router kit (\<^verbatim>\<open>sw/router_kit\<close>) change and read the
  tables of the hardware as SCONE does: data registers, row address, command. This theory has
  the two kinds of access, the rows of the three tables, and the interface of a table
  (\<open>indirect_table\<close>): a row that was written is read back, and no other row changes.
\<close>

subsection \<open>Writing and reading a row\<close>

definition write_indirect :: "(reg \<times> u32) list \<Rightarrow> u32 \<Rightarrow> hw_state \<Rightarrow> hw_state" where
  "write_indirect ws a = hw_replay (ws @ [(INDIRECTADDRESS, a), (INDIRECTCOMMAND, 1)])"

definition read_indirect :: "u32 \<Rightarrow> hw_state \<Rightarrow> hw_state" where
  "read_indirect a = hw_replay [(INDIRECTADDRESS, a), (INDIRECTCOMMAND, 0x11)]"

text \<open>Data registers: the writes before the command that only load values.\<close>

definition data_writes :: "(reg \<times> u32) list \<Rightarrow> bool" where
  "data_writes ws \<longleftrightarrow> (\<forall>w\<in>set ws. fst w \<noteq> INDIRECTCOMMAND)"

lemma data_writes_simps [simp]:
  "data_writes []" "data_writes ((r, v) # ws) \<longleftrightarrow> r \<noteq> INDIRECTCOMMAND \<and> data_writes ws"
  by (auto simp: data_writes_def)

fun reg_load :: "reg \<times> u32 \<Rightarrow> (reg \<Rightarrow> u32) \<Rightarrow> (reg \<Rightarrow> u32)" where
  "reg_load (r, v) R = R(r := v)"

lemma hw_replay_data:
  "data_writes ws \<Longrightarrow> hw_replay ws S = (fold reg_load ws (fst S), snd S)"
proof (induction ws arbitrary: S)
  case (Cons w ws)
  then show ?case by (cases w; cases S) (simp add: data_writes_def)
qed simp

lemma bit_command [simp]: "bit (0x11 :: u32) 0" "bit (0x11 :: u32) 4" "\<not> bit (1 :: u32) 4"
  by simp_all

lemma write_indirect_eq:
  assumes "data_writes ws"
  shows "write_indirect ws a S =
    (let R = (fold reg_load ws (fst S))(INDIRECTADDRESS := a) in (R, (snd S)(a := R)))"
  by (simp add: write_indirect_def hw_replay_append hw_replay_data [OF assms] Let_def)

lemma read_indirect_simps [simp]:
  "snd (read_indirect a S) = snd S"
  "fst (read_indirect a S) INDIRECTREPLY_A_HI = snd S a INDIRECTWRDATA_A_HI"
  "fst (read_indirect a S) INDIRECTREPLY_A_LOW = snd S a INDIRECTWRDATA_A_LOW"
  "fst (read_indirect a S) INDIRECTREPLY_B_HI = snd S a INDIRECTWRDATA_B_HI"
  "fst (read_indirect a S) INDIRECTREPLY_B_LOW = snd S a INDIRECTWRDATA_B_LOW"
  by (cases S; simp add: read_indirect_def hw_reply_def)+

subsection \<open>The interface of a table\<close>

locale indirect_table =
  fixes write_row :: "'row \<Rightarrow> u32 \<Rightarrow> hw_state \<Rightarrow> hw_state"
    and row_of :: "(reg \<Rightarrow> u32) \<Rightarrow> 'row"
  assumes same: "row_of (snd (write_row r a S) a) = r"
    and other: "b \<noteq> a \<Longrightarrow> snd (write_row r a S) b = snd S b"
begin

definition rows :: "u32 list \<Rightarrow> hw_state \<Rightarrow> 'row list" where
  "rows as S = map (\<lambda>a. row_of (snd S a)) as"

lemma length_rows [simp]: "length (rows as S) = length as"
  by (simp add: rows_def)

text \<open>
  A loop that writes rows one after the other; \<open>g\<close> is what else its body does to the
  registers.
\<close>

lemma fold_rows:
  assumes g: "\<And>i S. snd (g i S) = snd S"
  shows "b \<notin> set as \<Longrightarrow> snd (fold (\<lambda>(i, r, a) S. g i (write_row r a S)) (zip is (zip rs as)) S) b = snd S b"
    and "distinct as \<Longrightarrow> length rs = length as \<Longrightarrow> length is = length as \<Longrightarrow>
      rows as (fold (\<lambda>(i, r, a) S. g i (write_row r a S)) (zip is (zip rs as)) S) = rs"
proof -
  show other': "snd (fold (\<lambda>(i, r, a) S. g i (write_row r a S)) (zip is (zip rs as)) S) b = snd S b"
    if "b \<notin> set as" for b S "is" rs as
    using that
  proof (induction as arbitrary: rs "is" S)
    case (Cons a as)
    then show ?case by (cases "is"; cases rs) (simp_all add: g other)
  qed simp
  show "rows as (fold (\<lambda>(i, r, a) S. g i (write_row r a S)) (zip is (zip rs as)) S) = rs"
    if "distinct as" "length rs = length as" "length is = length as"
    using that
  proof (induction as arbitrary: rs "is" S)
    case (Cons a as)
    then obtain r rs' i is' where r: "rs = r # rs'" "is = i # is'" by (cases rs; cases "is") auto
    have "snd (fold (\<lambda>(i, r, a) S. g i (write_row r a S)) (zip is' (zip rs' as)) (g i (write_row r a S))) a =
        snd (write_row r a S) a"
      using Cons.prems(1) other' [of a as is' rs' "g i (write_row r a S)"] by (simp add: g)
    with Cons r show ?case by (simp add: rows_def same)
  qed (simp add: rows_def)
qed

text \<open>The loop over the first \<open>n\<close> rows of a table.\<close>

definition write_rows :: "(nat \<Rightarrow> hw_state \<Rightarrow> hw_state) \<Rightarrow> (nat \<Rightarrow> 'row) \<Rightarrow> u32 list \<Rightarrow> nat \<Rightarrow> hw_state \<Rightarrow> hw_state"
  where "write_rows g f as n = fold (\<lambda>i S. g i (write_row (f i) (as ! i) S)) [0..<n]"

lemma write_rows_fold:
  "n \<le> length as \<Longrightarrow> write_rows g f as n =
     fold (\<lambda>(i, r, a) S. g i (write_row r a S)) (zip [0..<n] (zip (map f [0..<n]) (take n as)))"
proof -
  assume n: "n \<le> length as"
  then have "take n as = map ((!) as) [0..<n]" by (simp add: map_nth take_map [symmetric] list_eq_iff_nth_eq)
  then have "zip [0..<n] (zip (map f [0..<n]) (take n as)) = map (\<lambda>i. (i, f i, as ! i)) [0..<n]"
    by (simp add: zip_map1 zip_map2 zip_same_conv_map)
  then show ?thesis by (simp add: write_rows_def fold_map comp_def)
qed

lemma write_rows_other:
  assumes "\<And>i S. snd (g i S) = snd S" "n \<le> length as" "b \<notin> set as"
  shows "snd (write_rows g f as n S) b = snd S b"
  unfolding write_rows_fold [OF assms(2)]
  by (rule fold_rows(1) [OF assms(1)]) (use assms(3) in \<open>auto dest: in_set_takeD\<close>)

lemma rows_write_rows:
  assumes "\<And>i S. snd (g i S) = snd S" "distinct as" "n \<le> length as"
  shows "rows as (write_rows g f as n S) = map f [0..<n] @ drop n (rows as S)"
proof -
  let ?S = "write_rows g f as n S"
  have "rows (take n as) ?S = map f [0..<n]"
    unfolding write_rows_fold [OF assms(3)]
    by (rule fold_rows(2) [OF assms(1)]) (use assms(2,3) in auto)
  moreover have "rows (drop n as) ?S = rows (drop n as) S"
    unfolding rows_def
  proof (rule map_cong [OF refl], rule arg_cong [where f = row_of])
    fix a assume "a \<in> set (drop n as)"
    then have "a \<notin> set (take n as)" using set_take_disj_set_drop_if_distinct [OF assms(2), of n n] by auto
    then show "snd ?S a = snd S a"
      unfolding write_rows_fold [OF assms(3)] by (rule fold_rows(1) [OF assms(1)])
  qed
  moreover have "rows as ?S = rows (take n as) ?S @ rows (drop n as) ?S"
    by (simp add: rows_def map_append [symmetric] del: map_append)
  ultimately show ?thesis by (simp add: rows_def drop_map)
qed

text \<open>
  A table that shows a list and is clear behind it shows the new list after the rows of the old
  one are cleared and the new ones are written.
\<close>

lemma rows_replace:
  assumes g: "\<And>i S. snd (g i S) = snd S" "\<And>i S. snd (h i S) = snd S"
    and "distinct as" "n \<le> length as" "m \<le> length as"
    and old: "drop n (rows as S) = replicate (length as - n) c"
  shows "rows as (write_rows g f as m (write_rows h (\<lambda>_. c) as n S)) =
    map f [0..<m] @ replicate (length as - m) c"
proof -
  have "rows as (write_rows h (\<lambda>_. c) as n S) = replicate n c @ replicate (length as - n) c"
    using rows_write_rows [OF g(2) assms(3,4), where f = "\<lambda>_. c" and S = S] old by (simp add: map_replicate_const)
  also have "\<dots> = replicate (length as) c" using assms(4) by (simp add: replicate_add [symmetric])
  finally show ?thesis
    using rows_write_rows [OF g(1) assms(3,5), where f = f and S = "write_rows h (\<lambda>_. c) as n S"] by simp
qed

lemma rows_update:
  assumes "distinct as" "i < length as"
  shows "rows as (write_row r (as ! i) S) = (rows as S)[i := r]"
  by (rule nth_equalityI)
    (use assms in \<open>auto simp: rows_def nth_list_update same other nth_eq_iff_index_eq\<close>)

end

subsection \<open>The rows of the three tables\<close>

definition write_lpm_row :: "tcam_row \<Rightarrow> u32 \<Rightarrow> hw_state \<Rightarrow> hw_state" where
  "write_lpm_row r a = write_indirect
     [(INDIRECTWRDATA_A_HI, tr_ip r), (INDIRECTWRDATA_B_HI, tr_mask r),
      (INDIRECTWRDATA_A_LOW, tr_next_hop r), (INDIRECTWRDATA_B_LOW, tr_port r)] a"

text \<open>A row of the ARP table: the two words of the MAC address and the next hop.\<close>

definition write_mac_row :: "u32 \<times> u32 \<times> u32 \<Rightarrow> u32 \<Rightarrow> hw_state \<Rightarrow> hw_state" where
  "write_mac_row r a = write_indirect
     [(INDIRECTWRDATA_B_LOW, snd (snd r)), (INDIRECTWRDATA_A_HI, fst r),
      (INDIRECTWRDATA_A_LOW, fst (snd r))] a"

interpretation lpm_table: indirect_table write_lpm_row tcam_row_of
  by unfold_locales (auto simp: write_lpm_row_def write_indirect_eq Let_def tcam_row_of_def)

interpretation mac_table: indirect_table write_mac_row arp_row_of
  by unfold_locales (auto simp: write_mac_row_def write_indirect_eq Let_def arp_row_of_def)

text \<open>The addresses of the rows of a table.\<close>

definition row_addrs :: "u32 \<Rightarrow> nat \<Rightarrow> u32 list" where
  "row_addrs base n = map (\<lambda>i. base OR of_nat i) [0..<n]"

lemma row_addrs_nth [simp]: "i < n \<Longrightarrow> row_addrs base n ! i = base OR of_nat i"
  by (simp add: row_addrs_def)

lemma length_row_addrs [simp]: "length (row_addrs base n) = n"
  by (simp add: row_addrs_def)

text \<open>A table of 32 rows at one of the addresses of the register map.\<close>

lemma distinct_row_addrs:
  assumes "n \<le> 32" "\<And>i. i < 5 \<Longrightarrow> \<not> bit base i"
  shows "distinct (row_addrs base n)"
  unfolding row_addrs_def distinct_map
proof (intro conjI inj_onI)
  fix i j
  assume ij: "i \<in> set [0..<n]" "j \<in> set [0..<n]" "base OR of_nat i = base OR of_nat j"
  have "take_bit 5 base = 0"
    by (rule bit_word_eqI) (use assms(2) in \<open>auto simp: bit_simps\<close>)
  then have "take_bit 5 (of_nat i :: u32) = take_bit 5 (of_nat j)"
    using arg_cong [OF ij(3), of "take_bit 5"] by simp
  then have "take_bit 5 (unat (of_nat i :: u32)) = take_bit 5 (unat (of_nat j :: u32))"
    by (simp add: unsigned_take_bit_eq [symmetric])
  then show "i = j"
    using ij(1,2) assms(1) by (simp add: unat_of_nat take_bit_eq_mod)
qed simp

end
