(* ===== verification/Or_Hw_Output.thy ===== *)
theory Or_Hw_Output
  imports Or_Output Hw_Access
begin

section \<open>Printing of the hardware tables (\<^verbatim>\<open>or_output.c\<close>, \<^verbatim>\<open>or_netfpga.c\<close>)\<close>

text \<open>
  The commands that read the registers and show what the hardware holds. The registers are
  those of the hardware state \<open>S\<close> in which the router started, after the writes it has made
  since; reading a row of a table takes two writes. Register accesses succeed. The numbers of
  packets dropped are not read any more: the accesses are commented out and the counters stay 0.
\<close>

subsection \<open>Reading\<close>

definition readReg :: "hw_state \<Rightarrow> reg \<Rightarrow> router_state \<Rightarrow> u32" where
  "readReg S r rs = fst (hw_replay (rs_regs rs) S) r"

definition read_row :: "u32 \<Rightarrow> nat \<Rightarrow> router_state \<Rightarrow> router_state" where
  "read_row base i rs = writeReg INDIRECTCOMMAND 0x11 (writeReg INDIRECTADDRESS (base OR of_nat i) rs)"

fun print_rows :: "(nat \<Rightarrow> router_state \<Rightarrow> string) \<Rightarrow> u32 \<Rightarrow> nat list \<Rightarrow> router_state \<Rightarrow> string \<times> router_state" where
  "print_rows line base [] rs = ([], rs)"
| "print_rows line base (i # is) rs =
     (let rs = read_row base i rs; (out, rs') = print_rows line base is rs
      in (line i rs @ out, rs'))"

subsection \<open>The tables\<close>

definition HW_RTABLE_COL :: string where
  "HW_RTABLE_COL = ''ROW  IP                  GW                  MASK                IFACE'' @ [nl]"

definition HW_RTABLE_ENTRY_TO_STRING_LEN :: nat where "HW_RTABLE_ENTRY_TO_STRING_LEN = 160"

definition hw_rtable_row :: "nat \<Rightarrow> u32 \<Rightarrow> u32 \<Rightarrow> u32 \<Rightarrow> string \<Rightarrow> string" where
  "hw_rtable_row i ip gw msk iface = snprintf HW_RTABLE_ENTRY_TO_STRING_LEN
     (ljust 5 (show_nat i) @ ljust 20 (inet_ntop ip) @ ljust 20 (inet_ntop gw) @ ljust 20 (inet_ntop msk) @
      ljust 20 iface @ [nl])"

definition hw_rtable_line :: "hw_state \<Rightarrow> nat \<Rightarrow> router_state \<Rightarrow> string" where
  "hw_rtable_line S i rs =
     (let ip = ntohl (readReg S INDIRECTREPLY_A_HI rs); msk = ntohl (readReg S INDIRECTREPLY_B_HI rs);
          gw = ntohl (readReg S INDIRECTREPLY_A_LOW rs); port = readReg S INDIRECTREPLY_B_LOW rs
      in hw_rtable_row i ip gw msk (getIfaceFromOneHotPortNumber IF_LEN port))"

definition sprint_hw_rtable :: "hw_state \<Rightarrow> router_state \<Rightarrow> string \<times> router_state" where
  "sprint_hw_rtable S rs =
     (let (out, rs) = print_rows (hw_rtable_line S) (lpm_tcam_address (rs_hw rs))
            [0..<lpm_tcam_width (rs_hw rs)] rs
      in (HW_RTABLE_COL @ out, rs))"

definition HW_ARP_CACHE_COL :: string where
  "HW_ARP_CACHE_COL = ''MAC'' @ [CHR 0x09, CHR 0x09, CHR 0x09] @ ''GW'' @ [nl]"

definition HW_ARP_CACHE_ENTRY_TO_STRING_LEN :: nat where "HW_ARP_CACHE_ENTRY_TO_STRING_LEN = 80"

text \<open>The bytes \<^verbatim>\<open>mac[5]\<close> to \<^verbatim>\<open>mac[0]\<close>, the order in which they are printed.\<close>

definition reg_mac :: "u32 \<Rightarrow> u32 \<Rightarrow> u8 list" where
  "reg_mac hi lo = [ucast (drop_bit 8 hi), ucast hi, ucast (drop_bit 24 lo), ucast (drop_bit 16 lo),
     ucast (drop_bit 8 lo), ucast lo]"

definition hw_arp_line :: "hw_state \<Rightarrow> nat \<Rightarrow> router_state \<Rightarrow> string" where
  "hw_arp_line S i rs =
     (let gw = htonl (readReg S INDIRECTREPLY_B_LOW rs);
          hi = readReg S INDIRECTREPLY_A_HI rs; lo = readReg S INDIRECTREPLY_A_LOW rs
      in snprintf HW_ARP_CACHE_ENTRY_TO_STRING_LEN
           (show_mac (reg_mac hi lo) @ [CHR 0x09] @ ljust 15 (inet_ntop gw) @ [nl]))"

definition sprint_hw_arp_cache :: "hw_state \<Rightarrow> router_state \<Rightarrow> string \<times> router_state" where
  "sprint_hw_arp_cache S rs =
     (let (out, rs) = print_rows (hw_arp_line S) (arp_cam_address (rs_hw rs))
            [0..<arp_cam_width (rs_hw rs)] rs
      in (HW_ARP_CACHE_COL @ out, rs))"

text \<open>Ports 2 and 3 read the registers of port 1.\<close>

definition read_hw_iface_mac :: "hw_state \<Rightarrow> router_state \<Rightarrow> nat \<Rightarrow> u32 \<times> u32" where
  "read_hw_iface_mac S rs port =
     (if port = 0 then (readReg S (MAC_HI 0) rs, readReg S (MAC_LOW 0) rs)
      else if port < 4 then (readReg S (MAC_HI 1) rs, readReg S (MAC_LOW 1) rs)
      else (0, 0))"

definition HW_IFACE_COL :: string where "HW_IFACE_COL = ''Port'' @ [CHR 0x09] @ ''MAC'' @ [nl]"
definition HW_IFACE_ENTRY_TO_STRING_LEN :: nat where "HW_IFACE_ENTRY_TO_STRING_LEN = 80"

text \<open>The names of ports 2 and 3 are null pointers, which the GNU library prints as here.\<close>

definition hw_iface_line :: "hw_state \<Rightarrow> router_state \<Rightarrow> nat \<Rightarrow> string" where
  "hw_iface_line S rs i =
     (let name = (if i = 0 then ETH0 else if i = 1 then ETH1 else ''(null)'');
          (hi, lo) = read_hw_iface_mac S rs i
      in snprintf HW_IFACE_ENTRY_TO_STRING_LEN
           (ljust 5 name @ [CHR 0x09] @ show_mac (reg_mac hi lo) @ [nl]))"

definition sprint_hw_iface :: "hw_state \<Rightarrow> router_state \<Rightarrow> string" where
  "sprint_hw_iface S rs = HW_IFACE_COL @ concat (map (hw_iface_line S rs) [0..<4])"

definition HW_LOCAL_IP_FILTER_HEADER :: string where
  "HW_LOCAL_IP_FILTER_HEADER = ''Row IP             '' @ [nl]"
definition HW_LOCAL_IP_FILTER_LEN :: nat where "HW_LOCAL_IP_FILTER_LEN = 21"

definition hw_filter_line :: "hw_state \<Rightarrow> nat \<Rightarrow> router_state \<Rightarrow> string" where
  "hw_filter_line S i rs =
     (let ip = htonl (readReg S INDIRECTREPLY_B_LOW rs)
      in snprintf HW_LOCAL_IP_FILTER_LEN (rjust 3 (show_nat i) @ '' '' @ rjust 15 (inet_ntop ip) @ [nl]))"

definition sprint_hw_local_ip_filter :: "hw_state \<Rightarrow> router_state \<Rightarrow> string \<times> router_state" where
  "sprint_hw_local_ip_filter S rs =
     (if rs_is_netfpga rs
      then (let (out, rs) = print_rows (hw_filter_line S) (dest_ip_cam_address (rs_hw rs))
                  [0..<dest_ip_cam_width (rs_hw rs)] rs
            in (HW_LOCAL_IP_FILTER_HEADER @ out, rs))
      else ([], rs))"

subsection \<open>The counters\<close>

definition get_oq_num_pkts_dropped :: "nat \<Rightarrow> nat" where "get_oq_num_pkts_dropped port = 0"

definition HW_OQ_DROPS_LEN :: nat where "HW_OQ_DROPS_LEN = 80"

definition oq_count :: "nat \<Rightarrow> string" where
  "oq_count q = rjust 4 (''Q'' @ show_nat q) @ '' '' @ rjust 10 (show_nat (get_oq_num_pkts_dropped q))"

definition oq_line :: "nat \<Rightarrow> string" where
  "oq_line q = snprintf HW_OQ_DROPS_LEN
     (oq_count q @ '' '' @ oq_count (q + 1) @ '' '' @ oq_count (q + 2) @ '' '' @ oq_count (q + 3) @ [nl])"

definition sprint_hw_oq_drops :: "router_state \<Rightarrow> string" where
  "sprint_hw_oq_drops rs = (if rs_is_netfpga rs then oq_line 0 @ oq_line 4 else [])"

text \<open>The format has eight conversions and four arguments: the others are read from nowhere.\<close>

definition sprint_hw_drops :: "router_state \<Rightarrow> string option" where
  "sprint_hw_drops rs = (if rs_is_netfpga rs then None else Some [])"

subsection \<open>The commands\<close>

definition cli_show_hw_rtable :: "hw_state \<Rightarrow> router_state \<Rightarrow> string \<times> router_state" where
  "cli_show_hw_rtable S rs = (if rs_is_netfpga rs then sprint_hw_rtable S rs else ([], rs))"

definition cli_show_hw_arp_cache :: "hw_state \<Rightarrow> router_state \<Rightarrow> string \<times> router_state" where
  "cli_show_hw_arp_cache S rs = (if rs_is_netfpga rs then sprint_hw_arp_cache S rs else ([], rs))"

definition cli_show_hw_interface :: "hw_state \<Rightarrow> router_state \<Rightarrow> string" where
  "cli_show_hw_interface S rs = (if rs_is_netfpga rs then sprint_hw_iface S rs else [])"

definition cli_hw_arp_cache_misses :: "hw_state \<Rightarrow> router_state \<Rightarrow> string" where
  "cli_hw_arp_cache_misses S rs =
     (if rs_is_netfpga rs
      then snprintf 80 (''HW ARP CACHE MISSES: '' @
        show_int (sint (ntohl (readReg S PKT_SENT_TO_CPU_ARP_MISS_CNTR rs))) @ [nl])
      else [])"

definition cli_hw_num_pckts_fwd :: "hw_state \<Rightarrow> router_state \<Rightarrow> string" where
  "cli_hw_num_pckts_fwd S rs =
     (if rs_is_netfpga rs
      then snprintf 80 (''HW NUMBER OF PACKETS FORWARDED: '' @
        show_int (sint (ntohl (readReg S PKT_FORWARDED_CNTR rs))) @ [nl])
      else [])"

text \<open>\<open>stats\<close> is the text of \<^verbatim>\<open>sprint_hw_stats\<close>, averages in floating point.\<close>

definition cli_hw_info :: "hw_state \<Rightarrow> string \<Rightarrow> router_state \<Rightarrow> (string \<times> router_state) option" where
  "cli_hw_info S stats rs =
     (if rs_is_netfpga rs then do {
        drops \<leftarrow> sprint_hw_drops rs;
        let oq = sprint_hw_oq_drops rs;
        let iface = sprint_hw_iface S rs;
        let (filters, rs) = sprint_hw_local_ip_filter S rs;
        let (rtable, rs) = sprint_hw_rtable S rs;
        let (arp, rs) = sprint_hw_arp_cache S rs;
        let misses = snprintf 80 ([nl] @ ''HW ARP CACHE MISSES: '' @
              show_int (sint (readReg S PKT_SENT_TO_CPU_ARP_MISS_CNTR rs)) @ [nl]);
        let number = snprintf 80 (''HW NUMBER OF PACKETS FORWARDED: '' @
              show_int (sint (readReg S PKT_FORWARDED_CNTR rs)) @ [nl]);
        Some (''HW STATS'' @ [nl] @ stats @ [nl] @ ''HW DROPS'' @ [nl] @ drops @ oq @ [nl] @
          ''HW IFACE INFO'' @ [nl] @ iface @ [nl] @ ''HW IP FILTERS INFO'' @ [nl] @ filters @ [nl] @
          ''HW RTABLE INFO'' @ [nl] @ rtable @ [nl] @ ''HW ARP CACHE INFO'' @ [nl] @ arp @ misses @ number, rs)
      }
      else Some ([], rs))"

subsection \<open>What is shown\<close>

lemma replay_read_row: "hw_replay (rs_regs (read_row base i rs)) S =
    read_indirect (base OR of_nat i) (hw_replay (rs_regs rs) S)"
  by (simp add: read_row_def read_indirect_def hw_replay_append)

text \<open>The rows that are printed are those of the hardware, and printing changes none.\<close>

lemma print_rows_spec:
  assumes "\<And>i rs. line i (read_row base i rs) = f i (snd (hw_replay (rs_regs rs) S) (base OR of_nat i))"
  shows "fst (print_rows line base is rs) =
      concat (map (\<lambda>i. f i (snd (hw_replay (rs_regs rs) S) (base OR of_nat i))) is)"
    and "snd (hw_replay (rs_regs (snd (print_rows line base is rs))) S) = snd (hw_replay (rs_regs rs) S)"
proof -
  have "fst (print_rows line base is rs) =
        concat (map (\<lambda>i. f i (snd (hw_replay (rs_regs rs) S) (base OR of_nat i))) is) \<and>
      snd (hw_replay (rs_regs (snd (print_rows line base is rs))) S) = snd (hw_replay (rs_regs rs) S)"
  proof (induction "is" arbitrary: rs)
    case (Cons i "is")
    then show ?case by (simp add: Let_def split_beta replay_read_row assms)
  qed simp
  then show "fst (print_rows line base is rs) =
      concat (map (\<lambda>i. f i (snd (hw_replay (rs_regs rs) S) (base OR of_nat i))) is)"
    and "snd (hw_replay (rs_regs (snd (print_rows line base is rs))) S) = snd (hw_replay (rs_regs rs) S)"
    by simp_all
qed

definition hw_rtable_text :: "nat \<Rightarrow> tcam_row \<Rightarrow> string" where
  "hw_rtable_text i r = hw_rtable_row i (ntohl (tr_ip r)) (ntohl (tr_next_hop r)) (ntohl (tr_mask r))
     (getIfaceFromOneHotPortNumber IF_LEN (tr_port r))"

lemma hw_rtable_line_row:
  "hw_rtable_line S i (read_row base i rs) =
     hw_rtable_text i (tcam_row_of (snd (hw_replay (rs_regs rs) S) (base OR of_nat i)))"
  by (simp add: hw_rtable_line_def hw_rtable_text_def readReg_def replay_read_row tcam_row_of_def)

lemma show_port [simp]: "getIfaceFromOneHotPortNumber IF_LEN 0 = []"
  by (simp add: getIfaceFromOneHotPortNumber_def)

lemma hw_rtable_text_route:
  "getOneHotPortNumber (re_iface e) \<noteq> None \<Longrightarrow>
     hw_rtable_text i (row_of_route e) = hw_rtable_row i (re_ip e) (re_gw e) (re_mask e) (re_iface e)"
  by (auto simp: hw_rtable_text_def row_of_route_def one_hot_roundtrip IF_LEN_def)

text \<open>
  C33. After every change of the routing table \<^verbatim>\<open>show hw rtable\<close> prints what the software
  decided: row by row the active routes in the order of the sorted table, each with its address,
  gateway, mask and the name of its interface, and zero rows behind them. The command changes no
  row of any table.
\<close>

theorem show_hw_rtable_routes:
  assumes "rs_is_netfpga rs" "lpm_addresses_ok (rs_hw rs)" "trigger_rtable_modified rs = Some rs'"
    and "length (filter re_is_active (rs_rtable rs)) \<le> lpm_tcam_width (rs_hw rs)"
    and "A = filter re_is_active (rs_rtable rs')" "w = lpm_tcam_width (rs_hw rs)"
  shows "fst (sprint_hw_rtable S rs') = HW_RTABLE_COL @
      concat (map2 (\<lambda>i e. hw_rtable_row i (re_ip e) (re_gw e) (re_mask e) (re_iface e)) [0..<length A] A) @
      concat (map (\<lambda>i. hw_rtable_row i 0 0 0 []) [length A..<w]) \<and>
    (\<forall>a. snd (hw_replay (rs_regs (snd (sprint_hw_rtable S rs'))) S) a = snd (hw_replay (rs_regs rs') S) a)"
proof -
  let ?base = "lpm_tcam_address (rs_hw rs)"
  let ?row = "\<lambda>i. tcam_row_of (snd (hw_replay (rs_regs rs') S) (?base OR of_nat i))"
  note t = trigger_rtable_rows [OF assms(1-4), folded assms(5,6)]
  note p = print_rows_spec [where line = "hw_rtable_line S" and f = "\<lambda>i R. hw_rtable_text i (tcam_row_of R)",
      OF hw_rtable_line_row, of ?base "[0..<w]" rs']
  have zero: "hw_rtable_text i zero_row = hw_rtable_row i 0 0 0 []" for i
    by (simp add: hw_rtable_text_def zero_row_def)
  have row: "map ?row [0..<w] = map row_of_route A @ replicate (w - length A) zero_row" by (rule t(2))
  have act: "?row i = row_of_route (A ! i)" if "i < length A" for i
    using arg_cong [OF row, of "\<lambda>l. l ! i"] that t(1) by (simp add: nth_append)
  have clear: "?row i = zero_row" if "length A \<le> i" "i < w" for i
    using arg_cong [OF row, of "\<lambda>l. l ! i"] that by (simp add: nth_append)
  have "[0..<w] = [0..<length A] @ [length A..<w]" using t(1) by (metis le_add_diff_inverse upt_add_eq_append zero_le)
  moreover have "map (\<lambda>i. hw_rtable_text i (?row i)) [0..<length A] =
      map2 (\<lambda>i e. hw_rtable_row i (re_ip e) (re_gw e) (re_mask e) (re_iface e)) [0..<length A] A"
  proof (rule nth_equalityI)
    fix i assume "i < length (map (\<lambda>i. hw_rtable_text i (?row i)) [0..<length A])"
    then have i: "i < length A" by simp
    with t(3) [of "A ! i"] act [OF i] show "map (\<lambda>i. hw_rtable_text i (?row i)) [0..<length A] ! i =
        map2 (\<lambda>i e. hw_rtable_row i (re_ip e) (re_gw e) (re_mask e) (re_iface e)) [0..<length A] A ! i"
      by (simp add: hw_rtable_text_route)
  qed simp
  moreover have "map (\<lambda>i. hw_rtable_text i (?row i)) [length A..<w] = map (\<lambda>i. hw_rtable_row i 0 0 0 []) [length A..<w]"
    using clear zero by simp
  ultimately have "map (\<lambda>i. hw_rtable_text i (?row i)) [0..<w] =
      map2 (\<lambda>i e. hw_rtable_row i (re_ip e) (re_gw e) (re_mask e) (re_iface e)) [0..<length A] A @
      map (\<lambda>i. hw_rtable_row i 0 0 0 []) [length A..<w]"
    by (simp only: map_append)
  then show ?thesis
    using p t(4) assms(6) by (simp add: sprint_hw_rtable_def split_beta)
qed

theorem show_hw_rtable_routes_witness:
  "\<exists>rs' e e'. trigger_rtable_modified rs_hard = Some rs' \<and> filter re_is_active (rs_rtable rs') = [e, e'] \<and>
    fst (sprint_hw_rtable (\<lambda>_. 7, \<lambda>_ _. 7) rs') = HW_RTABLE_COL @
      hw_rtable_row 0 (re_ip e) (re_gw e) (re_mask e) (re_iface e) @
      hw_rtable_row 1 (re_ip e') (re_gw e') (re_mask e') (re_iface e') @
      hw_rtable_row 2 0 0 0 [] @ hw_rtable_row 3 0 0 0 []"
proof -
  obtain rs' where t: "trigger_rtable_modified rs_hard = Some rs'"
    using trigger_rtable_returns [of rs_hard]
    by (auto simp: rs_hard_def getOneHotPortNumber_def port_names)
  have hw: "lpm_addresses_ok (rs_hw rs_hard)" "lpm_tcam_width hw4 = 4"
    by (simp_all add: lpm_addresses_ok_def hw4_def upt_rec)
  have two: "length (filter re_is_active (rs_rtable rs_hard)) = 2" by (simp add: rs_hard_def)
  have "mset (filter re_is_active (rs_rtable rs')) = mset (filter re_is_active (rs_rtable rs_hard))"
    using trigger_rtable_Some(2) [OF t] by simp
  then have "length (filter re_is_active (rs_rtable rs')) = 2" using two by (metis size_mset)
  then obtain e e' where A: "filter re_is_active (rs_rtable rs') = [e, e']"
    by (auto simp: length_Suc_conv numeral_2_eq_2)
  have "length (filter re_is_active (rs_rtable rs_hard)) \<le> lpm_tcam_width (rs_hw rs_hard)"
    using two hw(2) by simp
  from show_hw_rtable_routes [OF rs_hard_simps(1) hw(1) t this A [symmetric] refl, of "(\<lambda>_. 7, \<lambda>_ _. 7)"] t A hw(2)
  show ?thesis by (auto simp: upt_rec numeral_2_eq_2 numeral_3_eq_3)
qed

end
