(* ===== verification/Or_Cli.thy ===== *)
theory Or_Cli
  imports Or_Hw_Output Or_Ip
begin

section \<open>The command line (\<^verbatim>\<open>or_cli.c\<close> and the handlers of the components)\<close>

text \<open>
  A client sends lines; each is matched against the registered commands and given to the
  handler of the longest one that is a prefix of it. A handler is a function from the state
  and the line to the text it sends to the client and the new state; None is an access
  through a null pointer or past the end of the buffer. Reading the arguments is
  \<^verbatim>\<open>C_Strings.sscanf\<close>.
\<close>

type_synonym cli_result = "(string \<times> router_state) option"

abbreviation reply :: "string \<Rightarrow> router_state \<Rightarrow> cli_result" where
  "reply msg rs \<equiv> Some (msg @ [nl], rs)"

definition plural :: "int \<Rightarrow> string \<Rightarrow> string \<Rightarrow> string" where
  "plural n one many = snprintf 256 (show_int n @ (if n \<noteq> 1 then many else one) @ '' deleted.'' @ [nl])"

subsection \<open>Routes (\<^verbatim>\<open>or_rtable.c\<close>)\<close>

definition cli_ip_route_add :: "router_state \<Rightarrow> string \<Rightarrow> cli_result" where
  "cli_ip_route_add rs command =
     (case sscanf (lits ''ip route add '' @ [Word, Lit CHR '' '', Word, Lit CHR '' '', Word, Lit CHR '' '', Word])
        command of
        [Str dest_str, Str gateway_str, Str mask_str, Str interface] \<Rightarrow>
          (case inet_pton dest_str of
             None \<Rightarrow> reply ''Failure reading destination.'' rs
           | Some dest \<Rightarrow>
          (case inet_pton gateway_str of
             None \<Rightarrow> reply ''Failure reading gateway.'' rs
           | Some gateway \<Rightarrow>
          (case inet_pton mask_str of
             None \<Rightarrow> reply ''Failure reading mask.'' rs
           | Some msk \<Rightarrow> do {
               (add_result, rs) \<leftarrow> add_route rs dest gateway msk interface;
               (if add_result \<noteq> 0 then reply ''Failure adding route.'' rs
                else reply ''Successfully added route.'' rs)
             })))
      | _ \<Rightarrow> reply ''Failure reading arguments.'' rs)"

definition cli_ip_route_del :: "router_state \<Rightarrow> string \<Rightarrow> cli_result" where
  "cli_ip_route_del rs command =
     (case sscanf (lits ''ip route del '' @ [Word, Lit CHR '' '', Word]) command of
        [Str dest_str, Str mask_str] \<Rightarrow>
          (case inet_pton dest_str of
             None \<Rightarrow> reply ''Failure reading destination.'' rs
           | Some dest \<Rightarrow>
          (case inet_pton mask_str of
             None \<Rightarrow> reply ''Failure reading mask.'' rs
           | Some msk \<Rightarrow> do {
               (del_result, rs) \<leftarrow> del_route rs dest msk;
               Some (plural del_result '' route'' '' routes'', rs)
             }))
      | _ \<Rightarrow> reply ''Failure reading arguments.'' rs)"

subsection \<open>Interfaces (\<^verbatim>\<open>or_iface.c\<close>)\<close>

text \<open>With two arguments \<^verbatim>\<open>mask_str\<close> is a null pointer, which \<^verbatim>\<open>inet_pton\<close> reads.\<close>

definition cli_ip_interface :: "int \<Rightarrow> router_state \<Rightarrow> string \<Rightarrow> cli_result" where
  "cli_ip_interface now rs command =
     (let args = sscanf (lits ''ip interface '' @ [Word, Lit CHR '' '', Word, Lit CHR '' '', Word]) command;
          act = (\<lambda>name ip_str mask_str.
            if strncmp_eq ''up'' ip_str 2 then do {
              (retval, rs) \<leftarrow> iface_up now rs name;
              Some (snprintf 128 (if retval = 0 then ''Successfully brought up '' @ name @ ''.'' @ [nl]
                                  else ''No interface '' @ name @ '' found.'' @ [nl]), rs)
            }
            else if strncmp_eq ''down'' ip_str 4 then do {
              (retval, rs) \<leftarrow> iface_down now rs name;
              Some (snprintf 128 (if retval = 0 then ''Successfully brought down '' @ name @ ''.'' @ [nl]
                                  else ''No interface '' @ name @ '' found.'' @ [nl]), rs)
            }
            else (case inet_pton ip_str of
                None \<Rightarrow> reply ''Failure reading ip.'' rs
              | Some ip \<Rightarrow>
                (case mask_str of
                   None \<Rightarrow> None
                 | Some mask_str \<Rightarrow>
                   (case inet_pton mask_str of
                      None \<Rightarrow> reply ''Failure reading mask.'' rs
                    | Some msk \<Rightarrow>
                        (let (retval, rs) = iface_update rs name ip msk
                         in Some (snprintf 128 (if retval \<noteq> 0 then ''Succesfully updated '' @ name @ ''.'' @ [nl]
                              else ''No interface updated.'' @ [nl]), rs))))))
      in case args of
           [Str name, Str ip_str] \<Rightarrow> act name ip_str None
         | [Str name, Str ip_str, Str mask_str] \<Rightarrow> act name ip_str (Some mask_str)
         | _ \<Rightarrow> reply ''Syntax error.'' rs)"

definition write_hw_iface_mac :: "router_state \<Rightarrow> nat \<Rightarrow> u32 \<Rightarrow> u32 \<Rightarrow> router_state" where
  "write_hw_iface_mac rs port hi lo =
     (if port < 4 then writeReg (MAC_LOW port) lo (writeReg (MAC_HI port) hi rs) else rs)"

text \<open>\<^verbatim>\<open>!strncmp(ETH0, name, strlen(ETH0))\<close> and the same for \<^verbatim>\<open>ETH1\<close>.\<close>

definition hw_port_of :: "string \<Rightarrow> nat option" where
  "hw_port_of name =
     (if strncmp_eq ETH0 name (length ETH0) then Some 0
      else if strncmp_eq ETH1 name (length ETH1) then Some 1 else None)"

definition cli_hw_interface_add :: "router_state \<Rightarrow> string \<Rightarrow> cli_result" where
  "cli_hw_interface_add rs command =
     (if \<not> rs_is_netfpga rs then Some ('''', rs)
      else case sscanf (lits ''hw iface add '' @ [Word, Lit CHR '' ''] @ mac_fmt) command of
        [Str iface, Num m0, Num m1, Num m2, Num m3, Num m4, Num m5] \<Rightarrow>
          (case hw_port_of iface of
             None \<Rightarrow> reply ''Failure reading the interface name.'' rs
           | Some port \<Rightarrow>
               (let mac = map ucast [m0, m1, m2, m3, m4, m5] :: u8 list
                in reply ''Interface added'' (write_hw_iface_mac rs port (mac_hi mac) (mac_lo mac))))
      | _ \<Rightarrow> reply ''Failure reading arguments.'' rs)"

definition cli_hw_interface_del :: "router_state \<Rightarrow> string \<Rightarrow> cli_result" where
  "cli_hw_interface_del rs command =
     (if \<not> rs_is_netfpga rs then Some ('''', rs)
      else case sscanf (lits ''hw iface del '' @ [Word]) command of
        [Str iface] \<Rightarrow>
          (case hw_port_of iface of
             None \<Rightarrow> reply ''Failure reading the interface name.'' rs
           | Some port \<Rightarrow> reply ''Interface deleted'' (write_hw_iface_mac rs port 0 0))
      | _ \<Rightarrow> reply ''Failure reading arguments.'' rs)"

text \<open>The body of \<^verbatim>\<open>set_hw_iface\<close> is commented out.\<close>

definition set_hw_iface :: "router_state \<Rightarrow> nat \<Rightarrow> u32 \<Rightarrow> router_state" where
  "set_hw_iface rs queue command = rs"

definition cli_hw_interface_set :: "router_state \<Rightarrow> string \<Rightarrow> cli_result" where
  "cli_hw_interface_set rs command =
     (if \<not> rs_is_netfpga rs then Some ('''', rs)
      else case sscanf (lits ''hw iface '' @ [Word, Lit CHR '' '', Word]) command of
        [Str name, Str cmd] \<Rightarrow>
          (case hw_port_of name of
             None \<Rightarrow> reply ''Invalid interface name'' rs
           | Some queue \<Rightarrow>
               (if strncmp_eq ''up'' cmd 2
                then Some (snprintf 80 (''HW interface '' @ name @ '' was brought up'' @ [nl]), set_hw_iface rs queue 0)
                else if strncmp_eq ''down'' cmd 4
                then Some (snprintf 80 (''HW interface '' @ name @ '' was brought down'' @ [nl]), set_hw_iface rs queue 3)
                else reply ''Invalid command name'' rs))
      | _ \<Rightarrow> reply ''Syntax error.'' rs)"

subsection \<open>ARP (\<^verbatim>\<open>or_arp.c\<close>)\<close>

definition cli_ip_arp_add :: "int \<Rightarrow> router_state \<Rightarrow> string \<Rightarrow> cli_result" where
  "cli_ip_arp_add now rs command =
     (case sscanf (lits ''ip arp add '' @ [Word, Lit CHR '' ''] @ mac_fmt) command of
        [Str ip_str, Num m0, Num m1, Num m2, Num m3, Num m4, Num m5] \<Rightarrow>
          (case inet_pton ip_str of
             None \<Rightarrow> reply ''Failure reading ip.'' rs
           | Some ip \<Rightarrow>
               (let (result, rs) = update_arp_cache now rs ip (map ucast [m0, m1, m2, m3, m4, m5]) 1
                in if result \<noteq> 0 then reply ''Failure adding arp cache entry.'' rs
                   else reply ''Successfully added arp cache entry.'' rs))
      | _ \<Rightarrow> reply ''Failure reading arguments.'' rs)"

definition cli_ip_arp_del :: "router_state \<Rightarrow> string \<Rightarrow> cli_result" where
  "cli_ip_arp_del rs command =
     (case sscanf (lits ''ip arp del '' @ [Word]) command of
        [Str ip_str] \<Rightarrow>
          (case inet_pton ip_str of
             None \<Rightarrow> reply ''Failure reading ip.'' rs
           | Some ip \<Rightarrow>
               (let (result, rs) = del_arp_cache rs ip;
                    rs = (if result > 0 then trigger_arp_cache_modified rs else rs)
                in Some (plural result '' arp cache entry'' '' arp cache entries'', rs)))
      | _ \<Rightarrow> reply ''Failure reading arguments.'' rs)"

definition cli_nuke_arp_cache :: "router_state \<Rightarrow> cli_result" where
  "cli_nuke_arp_cache rs =
     (let rs = rs\<lparr>rs_arp_cache := []\<rparr>;
          rs = (if rs_is_netfpga rs then trigger_arp_cache_modified rs else rs)
      in reply ''SW and HW arp cache info was nuked'' rs)"

definition cli_nuke_hw_arp_cache_entry :: "router_state \<Rightarrow> string \<Rightarrow> cli_result" where
  "cli_nuke_hw_arp_cache_entry rs command =
     (if \<not> rs_is_netfpga rs then Some ('''', rs)
      else case sscanf (lits ''nuke hw arp '' @ [Unsigned, Lit CHR ''i'']) command of
        [Num row] \<Rightarrow>
          (if row > of_nat (arp_cam_width (rs_hw rs)) - 1 then reply ''Specified invalid row'' rs
           else (let rs = writeReg INDIRECTWRDATA_B_LOW 0 rs;
                     rs = writeReg INDIRECTWRDATA_A_HI 0 rs;
                     rs = writeReg INDIRECTWRDATA_A_LOW 0 rs;
                     rs = writeReg INDIRECTADDRESS (arp_cam_address (rs_hw rs) OR row) rs;
                     rs = writeReg INDIRECTCOMMAND 1 rs
                 in Some (snprintf 80 (''Row '' @ show_int (sint row) @ '' has been nuked'' @ [nl]), rs)))
      | _ \<Rightarrow> reply ''Failure to read arguments.'' rs)"

definition cli_ip_arp_set_ttl :: "router_state \<Rightarrow> string \<Rightarrow> cli_result" where
  "cli_ip_arp_set_ttl rs command =
     (case sscanf (lits ''ip arp set ttl '' @ [Unsigned, Lit CHR ''i'']) command of
        [Num timeout] \<Rightarrow>
          Some (snprintf 80 (''Arp entry TTL has been set to: '' @ show_int (sint timeout) @ [nl]),
            rs\<lparr>rs_arp_ttl := timeout\<rparr>)
      | _ \<Rightarrow> reply ''Syntax error'' rs)"

subsection \<open>PWOSPF (\<^verbatim>\<open>or_pwospf.c\<close>)\<close>

definition cli_pwospf_set_aid :: "router_state \<Rightarrow> string \<Rightarrow> cli_result" where
  "cli_pwospf_set_aid rs command =
     (case sscanf (lits ''set aid '' @ [Unsigned]) command of
        [Num area_id] \<Rightarrow> reply ''Area id has been set'' (rs\<lparr>rs_area_id := area_id\<rparr>)
      | _ \<Rightarrow> reply ''Failure reading arguments.'' rs)"

text \<open>After a failure to read the argument the interval is set all the same, to 0.\<close>

definition cli_pwospf_set_hello :: "router_state \<Rightarrow> string \<Rightarrow> cli_result" where
  "cli_pwospf_set_hello rs command =
     (let (msg, hello_interval) = (case sscanf (lits ''set hello interval '' @ [Unsigned]) command of
            [Num n] \<Rightarrow> ('''', n)
          | _ \<Rightarrow> (''Failure reading arguments.'' @ [nl], 0))
      in reply (msg @ ''Hello interval has been set'') (rs\<lparr>rs_hello_interval := ucast hello_interval\<rparr>))"

definition cli_pwospf_set_lsu_broadcast :: "router_state \<Rightarrow> string \<Rightarrow> cli_result" where
  "cli_pwospf_set_lsu_broadcast rs command =
     (case sscanf (lits ''set lsu broadcast '' @ [Word]) command of
        [Str value_str] \<Rightarrow>
          (if value_str = ''on''
           then reply ''LSU Broadcasting set to ON.'' (rs\<lparr>rs_lsu_broadcast := True\<rparr>)
           else if value_str = ''off''
           then reply ''LSU Broadcasting set to OFF.'' (rs\<lparr>rs_lsu_broadcast := False\<rparr>)
           else reply ''Failure reading arguments.'' rs)
      | _ \<Rightarrow> reply ''Failure reading arguments.'' rs)"

definition cli_pwospf_set_lsu_interval :: "router_state \<Rightarrow> string \<Rightarrow> cli_result" where
  "cli_pwospf_set_lsu_interval rs command =
     (let (msg, lsu_interval) = (case sscanf (lits ''set lsu interval '' @ [Unsigned]) command of
            [Num n] \<Rightarrow> ('''', n)
          | _ \<Rightarrow> (''Failure reading arguments.'' @ [nl], 0))
      in reply (msg @ ''LSU Interval set.'') (rs\<lparr>rs_lsu_interval := lsu_interval\<rparr>))"

definition cli_pwospf_send_hello :: "int \<Rightarrow> router_state \<Rightarrow> cli_result" where
  "cli_pwospf_send_hello now rs = do {
     rs \<leftarrow> broadcast_pwospf_hello_packet now rs;
     reply ''Hello packet sent on each interface'' rs
   }"

definition cli_pwospf_send_lsu :: "int \<Rightarrow> router_state \<Rightarrow> cli_result" where
  "cli_pwospf_send_lsu now rs = do {
     rs \<leftarrow> start_lsu_bcast_flood now rs;
     reply ''LSU packet sent on each interface (up or down)'' rs
   }"

subsection \<open>NAT (\<^verbatim>\<open>or_nat.c\<close>)\<close>

text \<open>The interface of the name must exist: its pointer is not tested.\<close>

definition cli_nat_set :: "router_state \<Rightarrow> string \<Rightarrow> cli_result" where
  "cli_nat_set rs command =
     (case sscanf (lits ''nat set '' @ [Word]) command of
        [Str iface] \<Rightarrow>
          (if strncmp_eq iface ETH0 (length ETH0) \<or> strncmp_eq iface ETH1 (length ETH1) then do {
             _ \<leftarrow> get_iface rs iface;
             Some (snprintf 80 (''Succefully set '' @ iface @ '' as the wan interface'' @ [nl]),
               upd_iface iface (\<lambda>ie. ie\<lparr>if_is_wan := 1\<rparr>) rs)
           }
           else if strncmp_eq iface ''off'' 3
           then reply ''Successfully disabled NAT''
             (rs\<lparr>rs_if_list := map (\<lambda>iface. iface\<lparr>if_is_wan := 0\<rparr>) (rs_if_list rs)\<rparr>)
           else reply ''Invalid arguments'' rs)
      | _ \<Rightarrow> reply ''Failure reading arguments'' rs)"

definition cli_nat_reset :: "router_state \<Rightarrow> cli_result" where
  "cli_nat_reset rs = reply ''NAT table deleted'' (rs\<lparr>rs_nat_table := []\<rparr>)"

text \<open>The entries that have the external address and port.\<close>

definition nat_ext_is :: "u32 \<Rightarrow> u16 \<Rightarrow> nat_entry \<Rightarrow> bool" where
  "nat_ext_is ip port ne \<longleftrightarrow> np_ip (ne_ext ne) = ip \<and> np_port (ne_ext ne) = port"

definition cli_nat_pair :: "u32 \<Rightarrow> u32 \<Rightarrow> nat_ip_port_pair" where
  "cli_nat_pair ip port =
     compute_nat_checksums \<lparr>np_ip = ip, np_port = htons (ucast port), np_checksum = 0, np_checksum_ip = 0,
       np_checksum_port = 0\<rparr>"

definition cli_nat_add :: "int \<Rightarrow> router_state \<Rightarrow> string \<Rightarrow> cli_result" where
  "cli_nat_add now rs command =
     (case sscanf (lits ''nat add '' @ [Word, Lit CHR '' '', Signed, Lit CHR '' '', Word, Lit CHR '' '', Signed])
        command of
        [Str ip_ext, Num port_ext, Str ip_int, Num port_int] \<Rightarrow>
          (case inet_pton ip_ext of
             None \<Rightarrow> reply ''Failure reading ip ext argument'' rs
           | Some e \<Rightarrow>
          (case inet_pton ip_int of
             None \<Rightarrow> reply ''Failure reading ip int argument'' rs
           | Some i \<Rightarrow>
               (let ne = \<lparr>ne_ext = cli_nat_pair e port_ext, ne_int = cli_nat_pair i port_int,
                      ne_last_hits = 0, ne_last_hits_time = now, ne_hits = 0, ne_hw_row = 0xFF, ne_is_static = True\<rparr>;
                    same = nat_ext_is e (htons (ucast port_ext))
                in reply ''Succesfully added the nat table entry'' (rs\<lparr>rs_nat_table :=
                     if find same (rs_nat_table rs) \<noteq> None then upd_first same (\<lambda>_. ne) (rs_nat_table rs)
                     else rs_nat_table rs @ [ne]\<rparr>))))
      | _ \<Rightarrow> reply ''Failure reading arguments.'' rs)"

fun del_first :: "('a \<Rightarrow> bool) \<Rightarrow> 'a list \<Rightarrow> 'a list" where
  "del_first P [] = []"
| "del_first P (x # xs) = (if P x then xs else x # del_first P xs)"

definition cli_nat_del :: "router_state \<Rightarrow> string \<Rightarrow> cli_result" where
  "cli_nat_del rs command =
     (case sscanf (lits ''nat del '' @ [Word, Lit CHR '' '', Signed]) command of
        [Str ip_ext, Num port_ext] \<Rightarrow>
          (case inet_pton ip_ext of
             None \<Rightarrow> reply ''Failure reading ip ext argument'' rs
           | Some ip \<Rightarrow>
               (let same = nat_ext_is ip (htons (ucast port_ext))
                in if find same (rs_nat_table rs) \<noteq> None
                   then reply ''Succesfully deleted nat table entry''
                     (rs\<lparr>rs_nat_table := del_first same (rs_nat_table rs)\<rparr>)
                   else reply ''No nat table entry found'' rs))
      | _ \<Rightarrow> reply ''Failure reading arguments.'' rs)"

subsection \<open>Pings (\<^verbatim>\<open>or_sping.c\<close>)\<close>

definition ETIMEDOUT :: int where "ETIMEDOUT = 110"

text \<open>The identifier of the ICMP message is read behind the four bytes of \<^verbatim>\<open>icmp_hdr\<close>.\<close>

definition sping_id :: "sping_queue_entry \<Rightarrow> u16" where
  "sping_id se = ld16 (sqe_packet se) (get_icmp_hdr + sizeof_icmp_hdr)"

text \<open>
  The waiting loop. Each element of \<open>wakes\<close> is one return of \<^verbatim>\<open>pthread_cond_timedwait\<close>: its value
  and the replies that the other threads pushed meanwhile. The loop ends at the latest with the
  timeout; without one the list ends with no result.
\<close>

fun wait_for_reply ::
  "router_state \<Rightarrow> u16 \<Rightarrow> int \<Rightarrow> (int \<times> sping_queue_entry list) list \<Rightarrow> (int \<times> router_state) option" where
  "wait_for_reply rs ident ret wakes =
     (if rs_sping_queue rs = [] \<or> ret = 0 then
        (case wakes of
           [] \<Rightarrow> None
         | (ret, arrived) # wakes \<Rightarrow>
             (let rs = rs\<lparr>rs_sping_queue := rs_sping_queue rs @ arrived\<rparr>
              in if ret = ETIMEDOUT then Some (1, rs)
                 else if find (\<lambda>se. sping_id se = ident) (rs_sping_queue rs) \<noteq> None
                 then Some (0, rs\<lparr>rs_sping_queue := del_first (\<lambda>se. sping_id se = ident) (rs_sping_queue rs)\<rparr>)
                 else wait_for_reply rs ident ret wakes))
      else Some (1, rs))"

declare wait_for_reply.simps [simp del]

text \<open>
  \<open>ident\<close> is the random number, \<open>wakes\<close> what happens while the command waits. The address starts
  behind the space after \<^verbatim>\<open>sping\<close>; without one that is past the end of the copied line.
\<close>

definition cli_sping ::
  "int \<Rightarrow> u16 \<Rightarrow> (int \<times> sping_queue_entry list) list \<Rightarrow> router_state \<Rightarrow> string \<Rightarrow> cli_result" where
  "cli_sping now ident wakes rs command =
     (if length command < length ''sping '' then None
      else let dst_str = drop (length ''sping '') command
      in case inet_pton dst_str of
           None \<Rightarrow> reply ''syntax error : destination ip'' rs
         | Some dst \<Rightarrow>
             if iface_match_ip rs dst \<noteq> 0 then reply ''That is one of our interfaces!'' rs
             else do {
               (c, rs) \<leftarrow> send_icmp_echo_request_packet now rs dst ident;
               (if c \<noteq> 0 then reply ''error : failed to send ICMP echo request packet'' rs
                else do {
                  (response, rs) \<leftarrow> wait_for_reply rs ident 0 wakes;
                  reply ((if response \<noteq> 0 then ''no reply from : '' else ''GOT reply from : '') @ dst_str) rs
                })
             })"

text \<open>One round of the thread that clears old replies.\<close>

fun sping_cleanup_loop :: "int \<Rightarrow> sping_queue_entry list \<Rightarrow> sping_queue_entry list" where
  "sping_cleanup_loop now [] = []"
| "sping_cleanup_loop now (sqe # sping_walker) =
     (if now - sqe_arrival_time sqe > 30 then sping_cleanup_loop now sping_walker
      else sqe # sping_cleanup_loop now sping_walker)"

definition sping_queue_cleanup_step :: "int \<Rightarrow> router_state \<Rightarrow> router_state" where
  "sping_queue_cleanup_step now rs = rs\<lparr>rs_sping_queue := sping_cleanup_loop now (rs_sping_queue rs)\<rparr>"

subsection \<open>Tables as text (\<^verbatim>\<open>or_arp.c\<close>, \<^verbatim>\<open>or_pwospf.c\<close>)\<close>

definition cli_show_ip_arp :: "int \<Rightarrow> router_state \<Rightarrow> cli_result" where
  "cli_show_ip_arp now rs =
     Some (snprintf 32 (''Arp Cache TTL: '' @ rjust 5 (show_nat (unat (rs_arp_ttl rs))) @ '' seconds'' @ [nl, nl]) @
       sprint_arp_cache now rs, rs)"

definition cli_show_pwospf_info :: "int \<Rightarrow> router_state \<Rightarrow> cli_result" where
  "cli_show_pwospf_info now rs = do {
     ifaces \<leftarrow> sprint_pwospf_if_list now rs;
     Some (''PWOSPF INFORMATION:'' @ [nl] @
       ''Area ID: '' @ show_nat (unat (rs_area_id rs)) @ [nl] @
       ''Hello Interval: '' @ show_nat (unat (rs_hello_interval rs)) @ [nl] @
       ''LSU Interval: '' @ show_nat (unat (rs_lsu_interval rs)) @ [nl, nl] @
       sprint_pwospf_router_list now rs @ [nl, nl] @ ifaces, rs)
   }"

subsection \<open>Dispatch (\<^verbatim>\<open>or_cli.c\<close>, \<^verbatim>\<open>or_main.c\<close>)\<close>

text \<open>
  The registered handlers. Those that only print a fixed text or tables that are not in the
  model are \<open>Prints\<close> with the name of the function.
\<close>

datatype cli_handler =
    Cli_ip_route_add | Cli_ip_route_del | Cli_ip_interface | Cli_ip_arp_add | Cli_ip_arp_del
  | Cli_ip_arp_set_ttl | Cli_sping | Cli_pwospf_set_aid | Cli_pwospf_set_hello
  | Cli_pwospf_set_lsu_broadcast | Cli_pwospf_set_lsu_interval | Cli_pwospf_send_hello
  | Cli_pwospf_send_lsu | Cli_nuke_arp_cache | Cli_nuke_hw_arp_cache_entry
  | Cli_hw_interface_add | Cli_hw_interface_del | Cli_hw_interface_set
  | Cli_show_ip_rtable | Cli_show_ip_arp | Cli_show_ip_iface | Cli_show_pwospf_iface
  | Cli_show_pwospf_router_list | Cli_show_pwospf_info | Cli_show_hw_rtable | Cli_show_hw_arp_cache
  | Cli_show_hw_interface | Cli_hw_info | Cli_hw_arp_cache_misses | Cli_hw_num_pckts_fwd | Prints string

record cli_entry =
  ce_command :: string
  ce_handler :: cli_handler

definition register_cli_command :: "string \<Rightarrow> cli_handler \<Rightarrow> cli_entry list \<Rightarrow> cli_entry list" where
  "register_cli_command command handler cli_commands =
     cli_commands @ [\<lparr>ce_command = command, ce_handler = handler\<rparr>]"

fun cli_lpm_loop :: "string \<Rightarrow> cli_entry list \<Rightarrow> nat \<Rightarrow> cli_entry option \<Rightarrow> cli_entry option" where
  "cli_lpm_loop command [] longest_match longest_match_entry = longest_match_entry"
| "cli_lpm_loop command (ce # n) longest_match longest_match_entry =
     (let entry_len = length (ce_command ce)
      in if entry_len > longest_match \<and> length command \<ge> entry_len \<and>
            strncmp_eq command (ce_command ce) entry_len
         then cli_lpm_loop command n entry_len (Some ce)
         else cli_lpm_loop command n longest_match longest_match_entry)"

definition cli_command_lpm :: "cli_entry list \<Rightarrow> string \<Rightarrow> cli_handler option" where
  "cli_command_lpm cli_commands command = map_option ce_handler (cli_lpm_loop command cli_commands 0 None)"

text \<open>The commands in the order of their registration; those of the NAT are commented out.\<close>

definition cli_registrations :: "(string \<times> cli_handler) list" where
  "cli_registrations =
     [(''help'', Prints ''cli_help''), (''?'', Prints ''cli_help''),
      (''show ?'', Prints ''cli_show_help''), (''show vns ?'', Prints ''cli_show_vns_help''),
      (''show vns'', Prints ''cli_show_vns''), (''show vns user'', Prints ''cli_show_vns_user''),
      (''show vns user ?'', Prints ''cli_show_vns_user_help''),
      (''show vns lhost'', Prints ''cli_show_vns_lhost''),
      (''show vns lhost ?'', Prints ''cli_show_vns_lhost_help''),
      (''show vns vhost'', Prints ''cli_show_vns_vhost''),
      (''show vns vhost ?'', Prints ''cli_show_vns_vhost_help''),
      (''show vns server'', Prints ''cli_show_vns_server''),
      (''show vns server ?'', Prints ''cli_show_vns_server_help''),
      (''show vns topology'', Prints ''cli_show_vns_topology''),
      (''show vns topology ?'', Prints ''cli_show_vns_topology_help''),
      (''show ip'', Prints ''cli_show_ip_help''), (''show ip ?'', Prints ''cli_show_ip_help''),
      (''show ip arp'', Cli_show_ip_arp), (''show ip arp ?'', Prints ''cli_show_ip_arp_help''),
      (''show ip interface'', Cli_show_ip_iface),
      (''show ip interface ?'', Prints ''cli_show_ip_iface_help''),
      (''show ip route'', Cli_show_ip_rtable),
      (''show ip route ?'', Prints ''cli_show_ip_rtable_help''),
      (''ip ?'', Prints ''cli_ip_help''), (''ip route ?'', Prints ''cli_ip_route_help''),
      (''ip route add'', Cli_ip_route_add),
      (''ip route add ?'', Prints ''cli_ip_route_add_help''),
      (''ip route del'', Cli_ip_route_del),
      (''ip route del ?'', Prints ''cli_ip_route_del_help''),
      (''ip interface ?'', Prints ''cli_ip_interface_help''),
      (''ip interface'', Cli_ip_interface), (''ip arp ?'', Prints ''cli_ip_arp_help''),
      (''ip arp add'', Cli_ip_arp_add), (''ip arp add ?'', Prints ''cli_ip_arp_add_help''),
      (''ip arp del'', Cli_ip_arp_del), (''ip arp del ?'', Prints ''cli_ip_arp_del_help''),
      (''ip arp set ttl'', Cli_ip_arp_set_ttl), (''sping'', Cli_sping),
      (''sping ?'', Prints ''cli_sping_help''), (''pwospf ?'', Prints ''cli_pwospf_help''),
      (''show pwospf iface'', Cli_show_pwospf_iface),
      (''show pwospf iface ?'', Prints ''cli_show_pwospf_iface_help''),
      (''show pwospf router'', Cli_show_pwospf_router_list),
      (''show pwospf info'', Cli_show_pwospf_info), (''set aid'', Cli_pwospf_set_aid),
      (''set aid ?'', Prints ''cli_pwospf_set_aid_help''),
      (''set hello interval'', Cli_pwospf_set_hello),
      (''set lsu broadcast'', Cli_pwospf_set_lsu_broadcast),
      (''set lsu interval'', Cli_pwospf_set_lsu_interval),
      (''send hello'', Cli_pwospf_send_hello), (''send lsu'', Cli_pwospf_send_lsu),
      (''hw info'', Cli_hw_info), (''hw ?'', Prints ''cli_hw_help''),
      (''show hw rtable'', Cli_show_hw_rtable),
      (''show hw arp'', Cli_show_hw_arp_cache), (''nuke arp'', Cli_nuke_arp_cache),
      (''nuke hw arp'', Cli_nuke_hw_arp_cache_entry),
      (''show hw iface'', Cli_show_hw_interface),
      (''hw iface add'', Cli_hw_interface_add), (''hw iface del'', Cli_hw_interface_del),
      (''hw iface'', Cli_hw_interface_set),
      (''hw arp miss'', Cli_hw_arp_cache_misses),
      (''hw pckts fwd'', Cli_hw_num_pckts_fwd)]"

definition init_cli :: "(string \<Rightarrow> string \<Rightarrow> int) \<Rightarrow> cli_entry list option" where
  "init_cli strcmp =
     bubble_sort (\<lambda>a b. strcmp (ce_command a) (ce_command b) = 1)
       (fold (\<lambda>(command, handler). register_cli_command command handler) cli_registrations [])"

text \<open>
  What the other arguments of the handlers are: the time, the identifier and the waiting of a
  ping, the hardware as the router found it, the text of its statistics, and the output of the
  handlers that only print.
\<close>

record cli_env =
  env_now :: int
  env_ident :: u16
  env_wakes :: "(int \<times> sping_queue_entry list) list"
  env_hw :: hw_state
  env_stats :: string
  env_prints :: "string \<Rightarrow> router_state \<Rightarrow> string"

fun run_handler :: "cli_env \<Rightarrow> cli_handler \<Rightarrow> router_state \<Rightarrow> string \<Rightarrow> cli_result" where
  "run_handler env Cli_ip_route_add rs command = cli_ip_route_add rs command"
| "run_handler env Cli_ip_route_del rs command = cli_ip_route_del rs command"
| "run_handler env Cli_ip_interface rs command = cli_ip_interface (env_now env) rs command"
| "run_handler env Cli_ip_arp_add rs command = cli_ip_arp_add (env_now env) rs command"
| "run_handler env Cli_ip_arp_del rs command = cli_ip_arp_del rs command"
| "run_handler env Cli_ip_arp_set_ttl rs command = cli_ip_arp_set_ttl rs command"
| "run_handler env Cli_sping rs command = cli_sping (env_now env) (env_ident env) (env_wakes env) rs command"
| "run_handler env Cli_pwospf_set_aid rs command = cli_pwospf_set_aid rs command"
| "run_handler env Cli_pwospf_set_hello rs command = cli_pwospf_set_hello rs command"
| "run_handler env Cli_pwospf_set_lsu_broadcast rs command = cli_pwospf_set_lsu_broadcast rs command"
| "run_handler env Cli_pwospf_set_lsu_interval rs command = cli_pwospf_set_lsu_interval rs command"
| "run_handler env Cli_pwospf_send_hello rs command = cli_pwospf_send_hello (env_now env) rs"
| "run_handler env Cli_pwospf_send_lsu rs command = cli_pwospf_send_lsu (env_now env) rs"
| "run_handler env Cli_nuke_arp_cache rs command = cli_nuke_arp_cache rs"
| "run_handler env Cli_nuke_hw_arp_cache_entry rs command = cli_nuke_hw_arp_cache_entry rs command"
| "run_handler env Cli_hw_interface_add rs command = cli_hw_interface_add rs command"
| "run_handler env Cli_hw_interface_del rs command = cli_hw_interface_del rs command"
| "run_handler env Cli_hw_interface_set rs command = cli_hw_interface_set rs command"
| "run_handler env Cli_show_ip_rtable rs command = Some (sprint_rtable rs, rs)"
| "run_handler env Cli_show_ip_arp rs command = cli_show_ip_arp (env_now env) rs"
| "run_handler env Cli_show_ip_iface rs command = Some (sprint_if_list rs, rs)"
| "run_handler env Cli_show_pwospf_iface rs command =
     map_option (\<lambda>out. (out, rs)) (sprint_pwospf_if_list (env_now env) rs)"
| "run_handler env Cli_show_pwospf_router_list rs command = Some (sprint_pwospf_router_list (env_now env) rs, rs)"
| "run_handler env Cli_show_pwospf_info rs command = cli_show_pwospf_info (env_now env) rs"
| "run_handler env Cli_show_hw_rtable rs command = Some (cli_show_hw_rtable (env_hw env) rs)"
| "run_handler env Cli_show_hw_arp_cache rs command = Some (cli_show_hw_arp_cache (env_hw env) rs)"
| "run_handler env Cli_show_hw_interface rs command = Some (cli_show_hw_interface (env_hw env) rs, rs)"
| "run_handler env Cli_hw_info rs command = cli_hw_info (env_hw env) (env_stats env) rs"
| "run_handler env Cli_hw_arp_cache_misses rs command = Some (cli_hw_arp_cache_misses (env_hw env) rs, rs)"
| "run_handler env Cli_hw_num_pckts_fwd rs command = Some (cli_hw_num_pckts_fwd (env_hw env) rs, rs)"
| "run_handler env (Prints f) rs command = Some (env_prints env f rs, rs)"

text \<open>
  One round of the client thread: \<^verbatim>\<open>recv\<close> overwrites the first bytes of the buffer, which is not
  cleared between two requests, and \<^verbatim>\<open>cleanCRLFs\<close> changes it in place up to its first zero byte;
  a buffer without one is read past its end. The results are the buffer, whether the
  connection was closed, the text sent and the state.
\<close>

definition MAX_COMMAND_SIZE :: nat where "MAX_COMMAND_SIZE = 128"

definition clean_buffer :: "string \<Rightarrow> string" where
  "clean_buffer buf =
     (let n = length (c_string buf)
      in map (\<lambda>x. if x = CHR 0x0D \<or> x = CHR 0x0A then CHR 0x00 else x) (take n buf) @ drop n buf)"

definition client_request ::
  "cli_env \<Rightarrow> cli_entry list \<Rightarrow> string \<Rightarrow> string \<Rightarrow> router_state \<Rightarrow>
     (string \<times> bool \<times> string \<times> router_state) option" where
  "client_request env cli_commands buf received rs =
     (let buf = take MAX_COMMAND_SIZE received @ drop (length received) buf
      in if CHR 0x00 \<notin> set buf then None
         else (let buf = clean_buffer buf; command = c_string buf
               in if strncmp_eq command ''exit'' 4 then Some (buf, True, ''bye!'' @ [nl], rs)
                  else (case cli_command_lpm cli_commands command of
                      None \<Rightarrow> Some (buf, False,
                        ''invalid command ... type ? or help for valid command help'' @ [nl], rs)
                    | Some handler \<Rightarrow>
                        (case run_handler env handler rs command of
                           None \<Rightarrow> None
                         | Some (out, rs) \<Rightarrow> Some (buf, False, out, rs)))))"

end
