(* ===== verification/Cli_Dispatch.thy ===== *)
theory Cli_Dispatch
  imports Or_Cli
begin

section \<open>What a line of the command line does\<close>

text \<open>
  The lemmas follow a line from the client's bytes to the operation that it asks for: the
  buffer, the choice of the handler, the reading of the arguments.
\<close>

subsection \<open>The longest registered command\<close>

abbreviation is_prefix :: "string \<Rightarrow> string \<Rightarrow> bool" where
  "is_prefix c line \<equiv> length c \<le> length line \<and> take (length c) line = c"

lemma cli_lpm_loop_scan:
  "cli_lpm_loop line cmds k best =
     scan_max (\<lambda>e. is_prefix (ce_command e) line) (\<lambda>e. int (length (ce_command e))) cmds best (int k)"
  by (induction cmds arbitrary: k best) (auto simp: strncmp_eq_def Let_def)

lemma cli_command_lpm_iff:
  assumes "distinct (map ce_command cmds)" and "\<forall>e\<in>set cmds. ce_command e \<noteq> ''''"
  shows "cli_command_lpm cmds line = Some h \<longleftrightarrow> (\<exists>e\<in>set cmds. ce_handler e = h \<and> is_prefix (ce_command e) line \<and>
    (\<forall>e'\<in>set cmds. is_prefix (ce_command e') line \<longrightarrow> length (ce_command e') \<le> length (ce_command e)))"
    (is "_ \<longleftrightarrow> (\<exists>e\<in>set cmds. ce_handler e = h \<and> ?best e)")
    and "cli_command_lpm cmds line = None \<longleftrightarrow> (\<forall>e\<in>set cmds. \<not> is_prefix (ce_command e) line)"
proof -
  let ?P = "\<lambda>e. is_prefix (ce_command e) line" and ?w = "\<lambda>e. int (length (ce_command e))"
  let ?found = "find (\<lambda>e. 0 < ?w e \<and> max_elem ?P ?w cmds e) cmds"
  have lpm: "cli_command_lpm cmds line = map_option ce_handler ?found"
    by (simp add: cli_command_lpm_def cli_lpm_loop_scan scan_max_spec split: option.split)
  have best: "max_elem ?P ?w cmds e \<longleftrightarrow> ?best e" for e by (auto simp: max_elem_def)
  have uniq: "e = e'" if "e \<in> set cmds" "e' \<in> set cmds" "?best e" "?best e'" for e e'
  proof -
    have "length (ce_command e) = length (ce_command e')" using that by (meson le_antisym)
    then have "ce_command e = ce_command e'" using that(3,4) by metis
    with that(1,2) assms(1) show ?thesis by (meson inj_onD distinct_map)
  qed
  show "cli_command_lpm cmds line = Some h \<longleftrightarrow> (\<exists>e\<in>set cmds. ce_handler e = h \<and> ?best e)" for h
  proof
    assume "cli_command_lpm cmds line = Some h"
    then obtain e where "?found = Some e" "ce_handler e = h" unfolding lpm by auto
    with find_SomeD [of _ cmds e] have "e \<in> set cmds" "max_elem ?P ?w cmds e" by auto
    with best [of e] \<open>ce_handler e = h\<close> show "\<exists>e\<in>set cmds. ce_handler e = h \<and> ?best e" by blast
  next
    assume "\<exists>e\<in>set cmds. ce_handler e = h \<and> ?best e"
    then obtain e where e: "e \<in> set cmds" "ce_handler e = h" "?best e" by blast
    have "?found \<noteq> None" using e assms(2) best by (auto simp: find_None_iff)
    then obtain e' where "?found = Some e'" by blast
    moreover from find_SomeD [OF this] e(1,3) uniq best have "e' = e" by blast
    ultimately show "cli_command_lpm cmds line = Some h" unfolding lpm using e(2) by simp
  qed
  have "(\<exists>e\<in>set cmds. 0 < ?w e \<and> max_elem ?P ?w cmds e) \<longleftrightarrow> (\<exists>e\<in>set cmds. ?P e)"
  proof
    assume "\<exists>e\<in>set cmds. ?P e"
    then obtain e where "e \<in> set cmds" "?P e" by blast
    from ex_max_elem [where P = ?P and w = ?w, OF this] obtain e' where "e' \<in> set cmds" "max_elem ?P ?w cmds e'" by blast
    with assms(2) show "\<exists>e\<in>set cmds. 0 < ?w e \<and> max_elem ?P ?w cmds e" by auto
  qed (auto simp: max_elem_def)
  then show "cli_command_lpm cmds line = None \<longleftrightarrow> (\<forall>e\<in>set cmds. \<not> ?P e)"
    unfolding lpm by (simp add: find_None_iff) blast
qed

context strcmp_result begin

lemma cli_order: "swap_below (\<lambda>a b. ce_command b < ce_command a) (\<lambda>a b. strcmp (ce_command a) (ce_command b) = 1)"
  by unfold_locales (use pos in auto)

lemma init_cli_permutes:
  "\<exists>cmds. init_cli strcmp = Some cmds \<and>
    mset cmds = mset (map (\<lambda>(c, h). \<lparr>ce_command = c, ce_handler = h\<rparr>) cli_registrations)"
proof -
  have "fold (\<lambda>(command, handler). register_cli_command command handler) rs l =
      l @ map (\<lambda>(c, h). \<lparr>ce_command = c, ce_handler = h\<rparr>) rs" for rs l
    by (induction rs arbitrary: l) (auto simp: register_cli_command_def)
  then have "fold (\<lambda>(command, handler). register_cli_command command handler) cli_registrations [] =
      map (\<lambda>(c, h). \<lparr>ce_command = c, ce_handler = h\<rparr>) cli_registrations" by simp
  then show ?thesis unfolding init_cli_def by (simp only: swap_below.bubble_sort_permutes [OF cli_order])
qed

end

lemma registrations_distinct: "distinct (map fst cli_registrations)"
  by (simp add: cli_registrations_def)

lemma registrations_nonempty: "\<forall>r\<in>set cli_registrations. fst r \<noteq> ''''"
  by (simp add: cli_registrations_def)

lemma init_cli_lpm:
  assumes "strcmp_result strcmp" and "init_cli strcmp = Some cmds"
  shows "cli_command_lpm cmds line = Some h \<longleftrightarrow> (\<exists>c. (c, h) \<in> set cli_registrations \<and> is_prefix c line \<and>
      (\<forall>(c', h')\<in>set cli_registrations. is_prefix c' line \<longrightarrow> length c' \<le> length c))"
    and "cli_command_lpm cmds line = None \<longleftrightarrow> (\<forall>(c, h)\<in>set cli_registrations. \<not> is_prefix c line)"
proof -
  let ?regs = "map (\<lambda>(c, h). \<lparr>ce_command = c, ce_handler = h\<rparr>) cli_registrations"
  from strcmp_result.init_cli_permutes [OF assms(1)] assms(2) have m: "mset cmds = mset ?regs" by auto
  then have set: "set cmds = set ?regs" by (rule mset_eq_setD)
  have "map ce_command ?regs = map fst cli_registrations" by (simp add: comp_def split_beta)
  then have d: "distinct (map ce_command cmds)"
    using registrations_distinct m by (metis mset_eq_imp_distinct_iff mset_map)
  have ne: "\<forall>e\<in>set cmds. ce_command e \<noteq> ''''" using registrations_nonempty by (auto simp: set)
  note lpm = cli_command_lpm_iff [OF d ne, of line]
  show "cli_command_lpm cmds line = Some h \<longleftrightarrow> (\<exists>c. (c, h) \<in> set cli_registrations \<and> is_prefix c line \<and>
      (\<forall>(c', h')\<in>set cli_registrations. is_prefix c' line \<longrightarrow> length c' \<le> length c))"
    unfolding lpm(1) set by (auto simp: split_beta) force
  show "cli_command_lpm cmds line = None \<longleftrightarrow> (\<forall>(c, h)\<in>set cli_registrations. \<not> is_prefix c line)"
    unfolding lpm(2) set by (auto simp: split_beta)
qed

text \<open>
  C16. A line of the command line goes to the handler of the longest registered command that is a
  prefix of it, and is refused exactly when no registered command is: the order in which the
  commands are sorted, and which values a conforming strcmp returns for that, do not matter.
\<close>

theorem cli_dispatch:
  assumes strcmp: "\<And>a b. 0 < strcmp a b \<Longrightarrow> b < a"
  shows "\<exists>cmds. init_cli strcmp = Some cmds \<and> (\<forall>line h.
    (cli_command_lpm cmds line = Some h \<longleftrightarrow> (\<exists>c. (c, h) \<in> set cli_registrations \<and> is_prefix c line \<and>
      (\<forall>(c', h')\<in>set cli_registrations. is_prefix c' line \<longrightarrow> length c' \<le> length c))) \<and>
    (cli_command_lpm cmds line = None \<longleftrightarrow> (\<forall>(c, h)\<in>set cli_registrations. \<not> is_prefix c line)))"
proof -
  have "strcmp_result strcmp" by unfold_locales (rule strcmp)
  with strcmp_result.init_cli_permutes [OF this] init_cli_lpm [OF this] show ?thesis by blast
qed

text \<open>The registered commands that are prefixes of a line.\<close>

lemma longest_registration:
  assumes "strcmp_result strcmp" "init_cli strcmp = Some cmds" "(c, h) \<in> set cli_registrations" "is_prefix c line"
    and "filter (\<lambda>r. length c < length (fst r) \<and> is_prefix (fst r) line) cli_registrations = []"
  shows "cli_command_lpm cmds line = Some h"
  unfolding init_cli_lpm(1) [OF assms(1,2)]
  using assms(3-5) by (auto simp: filter_empty_conv not_less intro!: exI [of _ c])

theorem cli_dispatch_witness:
  "\<exists>cmds. init_cli strcmp_diff = Some cmds \<and> cli_command_lpm cmds ''hw iface eth0 up'' = Some Cli_hw_interface_set \<and>
    cli_command_lpm cmds ''hello'' = None"
proof -
  from cli_dispatch [of strcmp_diff, OF strcmp_diff_pos] obtain cmds where cmds: "init_cli strcmp_diff = Some cmds"
    and iff: "\<And>line h. cli_command_lpm cmds line = Some h \<longleftrightarrow> (\<exists>c. (c, h) \<in> set cli_registrations \<and> is_prefix c line \<and>
      (\<forall>(c', h')\<in>set cli_registrations. is_prefix c' line \<longrightarrow> length c' \<le> length c))"
      "\<And>line. cli_command_lpm cmds line = None \<longleftrightarrow> (\<forall>(c, h)\<in>set cli_registrations. \<not> is_prefix c line)"
    by blast
  have "cli_command_lpm cmds ''hw iface eth0 up'' = Some Cli_hw_interface_set"
    unfolding iff(1) by (rule exI [of _ "''hw iface''"]) (simp add: cli_registrations_def)
  moreover have "cli_command_lpm cmds ''hello'' = None"
    unfolding iff(2) by (simp add: cli_registrations_def)
  ultimately show ?thesis using cmds by blast
qed

subsection \<open>The buffer of a client\<close>

text \<open>The buffer always ends with a zero byte as long as the lines are shorter than it.\<close>

definition buffer_ok :: "string \<Rightarrow> bool" where
  "buffer_ok buf \<longleftrightarrow> length buf = MAX_COMMAND_SIZE \<and> buf ! (MAX_COMMAND_SIZE - 1) = CHR 0x00"

lemma c_string_stop: "\<forall>c\<in>set s. c \<noteq> CHR 0x00 \<Longrightarrow> c_string (s @ CHR 0x00 # t) = s"
  by (induction s) (auto simp: c_string_def)

lemma c_string_split: "CHR 0x00 \<in> set buf \<Longrightarrow> \<exists>t. buf = c_string buf @ CHR 0x00 # t"
  by (induction buf) (auto simp: c_string_def)

definition line_text :: "string \<Rightarrow> bool" where
  "line_text s \<longleftrightarrow> (\<forall>c\<in>set s. c \<noteq> CHR 0x00 \<and> c \<noteq> CHR 0x0D \<and> c \<noteq> CHR 0x0A)"

lemma client_buffer:
  assumes buf: "buffer_ok buf" and line: "line_text line" and crlf: "crlf \<in> {[CHR 0x0D, CHR 0x0A], [CHR 0x0A]}"
    and len: "length (line @ crlf) < MAX_COMMAND_SIZE"
    and b: "b = take MAX_COMMAND_SIZE (line @ crlf) @ drop (length (line @ crlf)) buf"
  shows "CHR 0x00 \<in> set b" and "c_string (clean_buffer b) = line" and "buffer_ok (clean_buffer b)"
proof -
  let ?r = "line @ crlf" and ?n = "MAX_COMMAND_SIZE"
  have b': "b = ?r @ drop (length ?r) buf" using len by (simp add: b)
  have lb: "length b = ?n" using buf len by (simp add: b' buffer_ok_def)
  have lst: "b ! (?n - 1) = CHR 0x00"
  proof -
    from len have "length ?r \<le> ?n - 1" by linarith
    then have "b ! (?n - 1) = drop (length ?r) buf ! (?n - 1 - length ?r)" unfolding b' by (simp only: nth_append not_less [symmetric] if_False)
    also have "\<dots> = buf ! (?n - 1)" using buf len \<open>length ?r \<le> ?n - 1\<close> by (subst nth_drop) (simp_all add: buffer_ok_def)
    finally show ?thesis using buf by (simp add: buffer_ok_def)
  qed
  have "?n - 1 < length b" using lb by (simp add: MAX_COMMAND_SIZE_def)
  from nth_mem [OF this] show mem: "CHR 0x00 \<in> set b" unfolding lst .
  obtain t where st: "b = c_string b @ CHR 0x00 # t" using c_string_split [OF mem] by blast
  have "\<forall>c\<in>set crlf. c \<noteq> CHR 0x00" using crlf by (elim insertE emptyE) simp_all
  with line have no0: "\<forall>c\<in>set ?r. c \<noteq> CHR 0x00" by (simp add: line_text_def ball_Un)
  have "c_string b = ?r @ c_string (drop (length ?r) buf)"
    using no0 unfolding b' c_string_def by (simp add: takeWhile_append)
  then obtain u where u: "c_string b = ?r @ u" by blast
  let ?f = "\<lambda>x. if x = CHR 0x0D \<or> x = CHR 0x0A then CHR 0x00 else x"
  have clean: "clean_buffer b = map ?f (c_string b) @ CHR 0x00 # t"
  proof -
    have "take (length (c_string b)) b = c_string b" "drop (length (c_string b)) b = CHR 0x00 # t"
      by (metis st append_eq_conv_conj)+
    then show ?thesis by (simp only: clean_buffer_def Let_def)
  qed
  have "map ?f line = line" using line by (intro map_idI) (auto simp: line_text_def)
  moreover from crlf obtain v where "map ?f crlf = CHR 0x00 # v" by (elim insertE emptyE) simp_all
  ultimately have "clean_buffer b = line @ CHR 0x00 # v @ map ?f u @ CHR 0x00 # t"
    by (simp add: clean u)
  then show "c_string (clean_buffer b) = line"
    using line c_string_stop [of line] by (simp add: line_text_def)
  have "length (clean_buffer b) = length b" by (simp add: clean_buffer_def Let_def c_string_def length_takeWhile_le)
  moreover have "clean_buffer b ! i = CHR 0x00" if "b ! i = CHR 0x00" "i < length b" for i
    using that by (auto simp: clean_buffer_def Let_def nth_append)
  ultimately show "buffer_ok (clean_buffer b)"
    using lb lst by (simp add: buffer_ok_def MAX_COMMAND_SIZE_def)
qed

lemma client_line:
  assumes buf: "buffer_ok buf" and line: "line_text line" "length line \<le> 125"
  shows "\<exists>buf'. buffer_ok buf' \<and> client_request env cmds buf (line @ [CHR 0x0D, CHR 0x0A]) rs =
    (if strncmp_eq line ''exit'' 4 then Some (buf', True, ''bye!'' @ [nl], rs)
     else (case cli_command_lpm cmds line of
             None \<Rightarrow> Some (buf', False, ''invalid command ... type ? or help for valid command help'' @ [nl], rs)
           | Some h \<Rightarrow> map_option (\<lambda>(out, rs'). (buf', False, out, rs')) (run_handler env h rs line)))"
proof -
  have len: "length (line @ [CHR 0x0D, CHR 0x0A]) < MAX_COMMAND_SIZE" using line(2) by (simp add: MAX_COMMAND_SIZE_def)
  note b = client_buffer [OF buf line(1) _ len refl, simplified]
  show ?thesis
    by (rule exI, rule conjI, rule b(3))
       (use b(1,2) len in \<open>simp add: client_request_def Let_def split_beta split: option.split\<close>)
qed

text \<open>
  What a client typed before does not leak into its next command: a line of at most 125
  characters that arrives in one piece is dispatched and handled as exactly that line, with
  its line end removed, whatever earlier lines left in the buffer, and the buffer stays
  terminated.
\<close>

theorem client_line_isolated:
  assumes buf: "buffer_ok buf" and line: "line_text line" "length line \<le> 125"
  shows "\<exists>buf'. buffer_ok buf' \<and> client_request env cmds buf (line @ [CHR 0x0D, CHR 0x0A]) rs =
    (if strncmp_eq line ''exit'' 4 then Some (buf', True, ''bye!'' @ [nl], rs)
     else (case cli_command_lpm cmds line of
             None \<Rightarrow> Some (buf', False, ''invalid command ... type ? or help for valid command help'' @ [nl], rs)
           | Some h \<Rightarrow> map_option (\<lambda>(out, rs'). (buf', False, out, rs')) (run_handler env h rs line)))"
  by (rule client_line [OF assms])

definition empty_buffer :: string where
  "empty_buffer = replicate 128 (CHR 0x00)"

lemma empty_buffer_ok: "buffer_ok empty_buffer"
  by (simp add: buffer_ok_def empty_buffer_def MAX_COMMAND_SIZE_def)

definition env0 :: cli_env where
  "env0 = \<lparr>env_now = 0, env_ident = 7, env_wakes = [(110, [])],
     env_hw = (\<lambda>_. 0, \<lambda>_ _. 0), env_stats = [], env_prints = (\<lambda>_ _. '''')\<rparr>"

theorem client_line_isolated_witness:
  "\<exists>buf'. buffer_ok buf' \<and>
    client_request env0 [] empty_buffer (''exit'' @ [CHR 0x0D, CHR 0x0A]) rs0 = Some (buf', True, ''bye!'' @ [nl], rs0)"
  using client_line_isolated [OF empty_buffer_ok, of "''exit''" env0 "[]" rs0]
  by (simp add: line_text_def strncmp_eq_def)

subsection \<open>Arguments\<close>

lemma ntop_Cons:
  obtains c cs where "inet_ntop w = c # cs" "digit_val 10 c \<noteq> None"
proof -
  have "hd (show_nat n) \<in> set (show_nat n)" for n by simp
  then have "digit_val 10 (hd (show_nat n)) \<noteq> None" for n using show_nat_digits by blast
  moreover obtain d ds where "show_nat (unat (ucast w :: u8)) = d # ds" by (meson show_nat_nonempty neq_Nil_conv)
  ultimately have "digit_val 10 d \<noteq> None" by (metis list.sel(1))
  with \<open>show_nat _ = d # ds\<close> show ?thesis using that by (simp add: inet_ntop_def word_bytes_def)
qed

lemma sscanf_word_space:
  assumes "plain_word w" and s: "s \<noteq> []" "\<not> is_space (hd s)"
  shows "sscanf (Word # Lit CHR '' '' # fs) (w @ CHR '' '' # s) = Str w # sscanf fs s"
  using sscanf_word(1) [OF assms(1), of "CHR '' '' # s"] sscanf_space [OF s] by simp

lemma sscanf_last_word: "plain_word w \<Longrightarrow> sscanf [Word] w = [Str w]"
  using sscanf_word(1) [of w "[]" "[]"] by simp

lemma ntop_start: "inet_ntop w @ s \<noteq> []" "\<not> is_space (hd (inet_ntop w @ s))"
  using plain_word_append [of "inet_ntop w"] by auto

text \<open>The literal part of a command, without two spaces in a row.\<close>

definition single_spaced :: "string \<Rightarrow> bool" where
  "single_spaced cs \<longleftrightarrow> successively (\<lambda>a b. \<not> (is_space a \<and> is_space b)) cs"

lemma sscanf_text:
  assumes "single_spaced cs" "s \<noteq> []" "\<not> is_space (hd s)"
  shows "sscanf (lits cs @ fs) (cs @ s) = sscanf fs s"
  using assms
proof (induction cs)
  case (Cons c cs)
  then have ss: "single_spaced cs" by (cases cs) (auto simp: single_spaced_def)
  show ?case
  proof (cases "is_space c")
    case True
    then have "cs @ s \<noteq> []" "\<not> is_space (hd (cs @ s))" using Cons.prems by (cases cs; auto simp: single_spaced_def)+
    then have "skip_space (c # cs @ s) = cs @ s" using True by (cases "cs @ s") (auto simp: skip_space_def)
    with True Cons.IH [OF ss Cons.prems(2,3)] show ?thesis by simp
  next
    case False
    with Cons.IH [OF ss Cons.prems(2,3)] show ?thesis by simp
  qed
qed simp

definition route_add_line :: "u32 \<Rightarrow> u32 \<Rightarrow> u32 \<Rightarrow> string \<Rightarrow> string" where
  "route_add_line d g m ifc =
     ''ip route add '' @ inet_ntop d @ CHR '' '' # inet_ntop g @ CHR '' '' # inet_ntop m @ CHR '' '' # ifc"

lemma cli_ip_route_add_line:
  assumes "plain_word ifc"
  shows "cli_ip_route_add rs (route_add_line d g m ifc) =
    map_option (\<lambda>(rc, rs'). (''Successfully added route.'' @ [nl], rs')) (add_route rs d g m ifc)"
proof -
  have i: "ifc \<noteq> []" "\<not> is_space (hd ifc)" using plain_word_append [OF assms, of "[]"] by auto
  have ss: "single_spaced ''ip route add ''" by (simp add: single_spaced_def is_space_def)
  have "sscanf (lits ''ip route add '' @ [Word, Lit CHR '' '', Word, Lit CHR '' '', Word, Lit CHR '' '', Word])
      (route_add_line d g m ifc) = [Str (inet_ntop d), Str (inet_ntop g), Str (inet_ntop m), Str ifc]"
    unfolding route_add_line_def sscanf_text [OF ss ntop_start]
    by (simp only: sscanf_word_space [OF plain_word_ntop ntop_start] sscanf_word_space [OF plain_word_ntop i]
        sscanf_last_word [OF assms])
  then show ?thesis
    by (simp add: cli_ip_route_add_def add_route_def split: bind_split option.split)
qed

lemma route_add_dispatch:
  assumes "strcmp_result strcmp" "init_cli strcmp = Some cmds"
  shows "cli_command_lpm cmds (route_add_line d g m ifc) = Some Cli_ip_route_add"
proof -
  obtain c cs where c: "inet_ntop d = c # cs" "digit_val 10 c \<noteq> None" by (rule ntop_Cons)
  then have "c \<noteq> CHR ''?''" by (auto simp: digit_val_def)
  with c(1) show ?thesis
    by (intro longest_registration [OF assms, of "''ip route add''"])
       (simp_all add: cli_registrations_def route_add_line_def)
qed

text \<open>
  C32. A route typed at the command line is the route that is added: the line \<^verbatim>\<open>ip route add\<close> with
  the printed destination, gateway, mask and interface reaches \<^verbatim>\<open>add_route\<close> with those values,
  whatever was typed before, and is answered with success; afterwards the table holds one more
  entry, static and active, and is sorted.
\<close>

theorem cli_route_add:
  assumes strcmp: "\<And>a b. 0 < strcmp a b \<Longrightarrow> b < a" and cmds: "init_cli strcmp = Some cmds"
    and buf: "buffer_ok buf"
    and ifc: "plain_word ifc" "line_text ifc" "length ifc < IF_LEN"
    and add: "add_route rs d g m ifc = Some (rc, rs')"
  shows "\<exists>buf'. client_request env cmds buf (route_add_line d g m ifc @ [CHR 0x0D, CHR 0x0A]) rs =
      Some (buf', False, ''Successfully added route.'' @ [nl], rs') \<and>
    mset (rs_rtable rs') = add_mset \<lparr>re_ip = d, re_gw = g, re_mask = m, re_iface = ifc, re_is_static = True,
      re_is_active = True\<rparr> (mset (rs_rtable rs)) \<and> table_sorted (rs_rtable rs')"
proof -
  have sr: "strcmp_result strcmp" by unfold_locales (rule strcmp)
  let ?line = "route_add_line d g m ifc"
  have digits: "line_text (inet_ntop w)" for w
  proof -
    have "\<forall>c\<in>set (show_nat n). c \<noteq> CHR 0x00 \<and> c \<noteq> CHR 0x0D \<and> c \<noteq> CHR 0x0A" for n
      using show_nat_digits [of n] by (auto simp: digit_val_def)
    then show ?thesis by (auto simp: line_text_def inet_ntop_def word_bytes_def)
  qed
  have "line_text ?line"
    using ifc(2) digits unfolding line_text_def route_add_line_def by (simp add: ball_Un)
  moreover have "length ?line \<le> 125"
    using ifc(3) length_inet_ntop [of d] length_inet_ntop [of g] length_inet_ntop [of m]
    by (simp add: route_add_line_def IF_LEN_def)
  ultimately obtain buf' where "client_request env cmds buf (?line @ [CHR 0x0D, CHR 0x0A]) rs =
    (if strncmp_eq ?line ''exit'' 4 then Some (buf', True, ''bye!'' @ [nl], rs)
     else (case cli_command_lpm cmds ?line of
             None \<Rightarrow> Some (buf', False, ''invalid command ... type ? or help for valid command help'' @ [nl], rs)
           | Some h \<Rightarrow> map_option (\<lambda>(out, rs'). (buf', False, out, rs')) (run_handler env h rs ?line)))"
    using client_line [OF buf] by blast
  moreover have "\<not> strncmp_eq ?line ''exit'' 4" by (simp add: strncmp_eq_def route_add_line_def)
  ultimately have "client_request env cmds buf (?line @ [CHR 0x0D, CHR 0x0A]) rs =
      Some (buf', False, ''Successfully added route.'' @ [nl], rs')"
    using route_add_dispatch [OF sr cmds, of d g m ifc] cli_ip_route_add_line [OF ifc(1), of rs d g m] add by simp
  moreover have "length ifc < 32" using ifc(3) by (simp add: IF_LEN_def)
  ultimately show ?thesis using add_route_spec [OF add] by blast
qed

theorem cli_route_add_witness:
  "\<exists>cmds buf' rs'. init_cli strcmp_sign = Some cmds \<and>
    client_request env0 cmds empty_buffer (route_add_line 10 7 255 ''eth1'' @ [CHR 0x0D, CHR 0x0A]) rs_soft =
      Some (buf', False, ''Successfully added route.'' @ [nl], rs') \<and> table_sorted (rs_rtable rs')"
proof -
  from strcmp_result.init_cli_permutes [OF strcmp_sign.strcmp_result_axioms] obtain cmds where
    cmds: "init_cli strcmp_sign = Some cmds" by blast
  have soft: "\<not> rs_is_netfpga rs_soft" by (simp add: rs_soft_def zero_state_def)
  then obtain rs' where add: "add_route rs_soft 10 7 255 ''eth1'' = Some (0, rs')"
    using trigger_rtable_soft [of "rs_soft\<lparr>rs_rtable := routes3 @ [\<lparr>re_ip = 10, re_gw = 7,
      re_mask = 255, re_iface = ''eth1'', re_is_static = True, re_is_active = True\<rparr>]\<rparr>"]
    by (auto simp: add_route_def IF_LEN_def)
  have w: "plain_word ''eth1''" "line_text ''eth1''" "length ''eth1'' < IF_LEN"
    by (simp_all add: plain_word_def is_space_def line_text_def IF_LEN_def)
  from cli_route_add [OF strcmp_sign.pos cmds empty_buffer_ok w add] cmds show ?thesis by blast
qed

subsection \<open>A command that stops the router\<close>

text \<open>
  The command \<^verbatim>\<open>ip interface\<close> with a name and an address but no mask stops the router: the
  second argument is accepted, and the missing third one is a null pointer that \<^verbatim>\<open>inet_pton\<close>
  reads. The same command with a mask always returns.
\<close>

theorem cli_ip_interface_faults:
  assumes name: "plain_word name"
  shows "cli_ip_interface now rs (''ip interface '' @ name @ CHR '' '' # inet_ntop ip) = None \<and>
    cli_ip_interface now rs (''ip interface '' @ name @ CHR '' '' # inet_ntop ip @ CHR '' '' # inet_ntop m) =
      Some (snprintf 128 (if get_iface rs name \<noteq> None then ''Succesfully updated '' @ name @ ''.'' @ [nl]
        else ''No interface updated.'' @ [nl]), snd (iface_update rs name ip m))"
proof -
  have ss: "single_spaced ''ip interface ''" by (simp add: single_spaced_def is_space_def)
  have n: "name @ s \<noteq> []" "\<not> is_space (hd (name @ s))" for s using plain_word_append [OF name] by auto
  have t: "inet_ntop w \<noteq> []" "\<not> is_space (hd (inet_ntop w))" for w using ntop_start [of w "[]"] by auto
  let ?fmt = "lits ''ip interface '' @ [Word, Lit CHR '' '', Word, Lit CHR '' '', Word]"
  have two: "sscanf ?fmt (''ip interface '' @ name @ CHR '' '' # inet_ntop ip) = [Str name, Str (inet_ntop ip)]"
    unfolding sscanf_text [OF ss n] sscanf_word_space [OF name t]
    using sscanf_word(1) [of "inet_ntop ip" "[]" "[Lit CHR '' '', Word]"] by (simp add: skip_space_def)
  have three: "sscanf ?fmt (''ip interface '' @ name @ CHR '' '' # inet_ntop ip @ CHR '' '' # inet_ntop m) =
      [Str name, Str (inet_ntop ip), Str (inet_ntop m)]"
    unfolding sscanf_text [OF ss n] sscanf_word_space [OF name ntop_start] sscanf_word_space [OF plain_word_ntop t]
    by (simp only: sscanf_last_word [OF plain_word_ntop])
  obtain c cs where c: "inet_ntop ip = c # cs" "digit_val 10 c \<noteq> None" by (rule ntop_Cons)
  then have "c \<noteq> CHR ''u''" "c \<noteq> CHR ''d''" by (auto simp: digit_val_def)
  then have no: "\<not> strncmp_eq ''up'' (inet_ntop ip) 2" "\<not> strncmp_eq ''down'' (inet_ntop ip) 4"
    by (simp_all add: strncmp_eq_def c(1))
  have upd: "fst (iface_update rs name ip m) \<noteq> 0 \<longleftrightarrow> get_iface rs name \<noteq> None"
    by (simp add: iface_update_def split: option.split)
  show ?thesis
    unfolding cli_ip_interface_def two three Let_def using no upd by (simp add: split_beta)
qed

theorem cli_ip_interface_faults_witness:
  "cli_ip_interface 0 rs1 (''ip interface '' @ ''eth0'' @ CHR '' '' # inet_ntop 0x0100000a) = None"
  using cli_ip_interface_faults [of "''eth0''" 0 rs1 "0x0100000a" 0]
  by (simp add: plain_word_def is_space_def)

end
