(* ===== verification/C_Input.thy ===== *)
theory C_Input
  imports C_Strings
begin

section \<open>Reading lines and values from files\<close>

text \<open>
  \<^verbatim>\<open>fgets\<close>, and \<^verbatim>\<open>scanf\<close> and \<^verbatim>\<open>fscanf\<close> with the conversions \<^verbatim>\<open>%s\<close> into an array, \<^verbatim>\<open>%i\<close>, \<^verbatim>\<open>%d\<close> and
  \<^verbatim>\<open>%x\<close>: unlike \<^verbatim>\<open>sscanf\<close> of \<open>C_Strings\<close> they leave the rest of the input for the next call.
\<close>

subsection \<open>Lines\<close>

text \<open>One call of \<^verbatim>\<open>fgets\<close> with a buffer of \<open>n\<close> bytes: what it stores and what is left.\<close>

definition fgets :: "nat \<Rightarrow> string \<Rightarrow> string \<times> string" where
  "fgets n s =
     (let l = take (n - 1) s;
          k = (if nl \<in> set l then Suc (length (takeWhile (\<lambda>c. c \<noteq> nl) l)) else length l)
      in (take k s, drop k s))"

text \<open>The lines that a loop over \<^verbatim>\<open>fgets(buf, n, file)\<close> sees.\<close>

function read_lines :: "nat \<Rightarrow> string \<Rightarrow> string list" where
  "read_lines n s =
     (if s = [] \<or> n \<le> 1 then [] else fst (fgets n s) # read_lines n (snd (fgets n s)))"
  by pat_completeness auto

termination
proof (relation "measure (length \<circ> snd)")
  fix n :: nat and s :: string
  assume "\<not> (s = [] \<or> n \<le> 1)"
  then show "((n, snd (fgets n s)), n, s) \<in> measure (length \<circ> snd)"
    by (cases s) (auto simp: fgets_def Let_def)
qed simp

declare read_lines.simps [simp del]

subsection \<open>Values\<close>

datatype sfmt = SWord | SInt | SDec | SHex

text \<open>\<^verbatim>\<open>%i\<close> takes its base from the prefix of the number.\<close>

definition int_base :: "string \<Rightarrow> nat" where
  "int_base s =
     (let t = (case s of c # t \<Rightarrow> if c = CHR ''-'' \<or> c = CHR ''+'' then t else s | [] \<Rightarrow> [])
      in case t of
           c # t \<Rightarrow> if c \<noteq> CHR ''0'' then 10
                    else (case t of d # _ \<Rightarrow> if d = CHR ''x'' \<or> d = CHR ''X'' then 16 else 8 | [] \<Rightarrow> 8)
         | [] \<Rightarrow> 10)"

text \<open>The values converted before the first failure and the input that is left.\<close>

fun scan_stream :: "sfmt list \<Rightarrow> string \<Rightarrow> scanned list \<times> string" where
  "scan_stream [] s = ([], s)"
| "scan_stream (SWord # fs) s =
     (let s = skip_space s; w = takeWhile (\<lambda>c. \<not> is_space c) s
      in if w = [] then ([], s)
         else (let (vs, t) = scan_stream fs (dropWhile (\<lambda>c. \<not> is_space c) s) in (Str w # vs, t)))"
| "scan_stream (SInt # fs) s =
     (let s = skip_space s in case scan_number (int_base s) (length s) s of
        None \<Rightarrow> ([], s)
      | Some (neg, n, t) \<Rightarrow> (let (vs, t) = scan_stream fs t in (Num (store_signed neg n) # vs, t)))"
| "scan_stream (SDec # fs) s =
     (let s = skip_space s in case scan_number 10 (length s) s of
        None \<Rightarrow> ([], s)
      | Some (neg, n, t) \<Rightarrow> (let (vs, t) = scan_stream fs t in (Num (store_signed neg n) # vs, t)))"
| "scan_stream (SHex # fs) s =
     (let s = skip_space s in case scan_number 16 (length s) s of
        None \<Rightarrow> ([], s)
      | Some (neg, n, t) \<Rightarrow> (let (vs, t) = scan_stream fs t in (Num (store_unsigned neg n) # vs, t)))"

text \<open>\<^verbatim>\<open>scanf\<close> returns EOF when nothing but space is left.\<close>

definition at_end :: "string \<Rightarrow> bool" where
  "at_end s \<longleftrightarrow> skip_space s = []"

text \<open>A word that \<^verbatim>\<open>%s\<close> stores in an array with its terminating zero.\<close>

definition fits :: "nat \<Rightarrow> string \<Rightarrow> bool" where
  "fits size_of w \<longleftrightarrow> length w < size_of"

text \<open>A digit as \<^verbatim>\<open>%x\<close> prints it.\<close>

definition xdigit :: "nat \<Rightarrow> char" where
  "xdigit d = ''0123456789abcdef'' ! d"

text \<open>\<^verbatim>\<open>strtok\<close> until it returns a null pointer: the parts that are not empty.\<close>

definition strtok_step :: "string \<Rightarrow> string \<Rightarrow> (string \<times> string) option" where
  "strtok_step seps s =
     (let s = dropWhile (\<lambda>c. c \<in> set seps) s; w = takeWhile (\<lambda>c. c \<notin> set seps) s
      in if w = [] then None else Some (w, drop (Suc (length w)) s))"

function strtok :: "string \<Rightarrow> string \<Rightarrow> string list" where
  "strtok seps s = (case strtok_step seps s of None \<Rightarrow> [] | Some (w, t) \<Rightarrow> w # strtok seps t)"
  by pat_completeness auto

termination
proof (relation "measure (\<lambda>(_, s). length s)")
  fix seps s x w t
  assume a: "strtok_step seps s = Some x" "(w, t) = x"
  from a have "length t < length (dropWhile (\<lambda>c. c \<in> set seps) s)"
    by (cases "dropWhile (\<lambda>c. c \<in> set seps) s") (auto simp: strtok_step_def Let_def split: if_splits)
  then show "((seps, t), seps, s) \<in> measure (\<lambda>(_, s). length s)"
    using length_dropWhile_le [of "\<lambda>c. c \<in> set seps" s] by simp
qed simp

declare strtok.simps [simp del]

lemma strtok_part:
  assumes "w \<noteq> []" "set w \<inter> set seps = {}" "sep \<in> set seps"
  shows "strtok seps (w @ sep # t) = w # strtok seps t" "strtok seps w = [w]"
proof -
  from assms obtain c cs where w: "w = c # cs" "c \<notin> set seps" by (cases w) auto
  have tw: "takeWhile (\<lambda>c. c \<notin> set seps) (w @ sep # t) = w" "takeWhile (\<lambda>c. c \<notin> set seps) w = w"
      "length (takeWhile (\<lambda>c. c \<notin> set seps) cs) = length cs"
    using assms(2,3) w by (auto simp: takeWhile_tail takeWhile_eq_all_conv intro!: arg_cong [where f = length])
  show "strtok seps (w @ sep # t) = w # strtok seps t"
    by (subst strtok.simps) (use w tw in \<open>simp add: strtok_step_def Let_def\<close>)
  have "strtok seps [] = []" by (subst strtok.simps) (simp add: strtok_step_def)
  then show "strtok seps w = [w]"
    by (subst strtok.simps) (use w tw in \<open>simp add: strtok_step_def Let_def\<close>)
qed

subsection \<open>Lines, words and numbers that are read back\<close>

lemma fgets_line:
  assumes "nl \<notin> set w" "length w + 1 < n"
  shows "fgets n (w @ nl # t) = (w @ [nl], t)"
proof -
  have l: "take (n - 1) (w @ nl # t) = w @ nl # take (n - 2 - length w) t"
    using assms(2) by (simp add: take_Cons' numeral_2_eq_2)
  have "takeWhile (\<lambda>c. c \<noteq> nl) (w @ nl # take (n - 2 - length w) t) = w"
    using assms(1) by (subst takeWhile_append2) auto
  then show ?thesis using l by (simp add: fgets_def Let_def)
qed

lemma read_lines_concat:
  assumes "\<forall>l\<in>set ls. \<exists>w. l = w @ [nl] \<and> nl \<notin> set w \<and> length w + 1 < n"
  shows "read_lines n (concat ls) = ls"
  using assms
proof (induction ls)
  case Nil
  then show ?case by (simp add: read_lines.simps)
next
  case (Cons l ls)
  then obtain w where "l = w @ [nl]" "nl \<notin> set w" "length w + 1 < n" by auto
  with Cons show ?case by (subst read_lines.simps) (simp add: fgets_line)
qed

lemma plain_word_skip:
  assumes "plain_word w" "t = [] \<or> is_space (hd t)"
  shows "skip_space (w @ t) = w @ t" "takeWhile (\<lambda>c. \<not> is_space c) (w @ t) = w"
  using assms by (cases w; cases t; auto simp: plain_word_def skip_space_def takeWhile_word)+

lemma nl_space: "is_space nl"
  by (simp add: nl_def is_space_def)

lemma hex_digit_facts:
  assumes "d < 16"
  shows "digit_val 16 (hex_digit d) = Some d" "\<not> is_space (hex_digit d)"
    "hex_digit d \<noteq> CHR '':''" "hex_digit d \<noteq> CHR ''-''" "hex_digit d \<noteq> CHR ''+''"
    "hex_digit d \<noteq> CHR ''x''" "hex_digit d \<noteq> CHR ''X''" "hex_digit d = CHR ''0'' \<longleftrightarrow> d = 0"
proof -
  have "\<forall>d\<in>set [0..<16]. digit_val 16 (hex_digit d) = Some d \<and> \<not> is_space (hex_digit d) \<and>
    hex_digit d \<noteq> CHR '':'' \<and> hex_digit d \<noteq> CHR ''-'' \<and> hex_digit d \<noteq> CHR ''+'' \<and>
    hex_digit d \<noteq> CHR ''x'' \<and> hex_digit d \<noteq> CHR ''X'' \<and> (hex_digit d = CHR ''0'' \<longleftrightarrow> d = 0)" by code_simp
  with assms show "digit_val 16 (hex_digit d) = Some d" "\<not> is_space (hex_digit d)"
    "hex_digit d \<noteq> CHR '':''" "hex_digit d \<noteq> CHR ''-''" "hex_digit d \<noteq> CHR ''+''"
    "hex_digit d \<noteq> CHR ''x''" "hex_digit d \<noteq> CHR ''X''" "hex_digit d = CHR ''0'' \<longleftrightarrow> d = 0"
    by simp_all
qed

lemma xdigit_facts:
  assumes "d < 16"
  shows "digit_val 16 (xdigit d) = Some d" "\<not> is_space (xdigit d)" "xdigit d \<noteq> CHR '':''"
proof -
  have "\<forall>d\<in>set [0..<16]. digit_val 16 (xdigit d) = Some d \<and> \<not> is_space (xdigit d) \<and>
    xdigit d \<noteq> CHR '':''" by code_simp
  with assms show "digit_val 16 (xdigit d) = Some d" "\<not> is_space (xdigit d)" "xdigit d \<noteq> CHR '':''"
    by simp_all
qed

text \<open>The number of a string of digits.\<close>

definition value_of :: "nat \<Rightarrow> string \<Rightarrow> nat \<Rightarrow> nat" where
  "value_of base = fold (\<lambda>c acc. base * acc + the (digit_val base c))"

lemma read_digits_all:
  assumes "\<forall>c\<in>set s. digit_val base c \<noteq> None" "length s \<le> w" "t = [] \<or> digit_val base (hd t) = None"
  shows "read_digits base w (s @ t) acc k = (value_of base s acc, k + length s, t)"
  using assms
proof (induction s arbitrary: w acc k)
  case Nil
  then show ?case by (cases w; cases t) (auto simp: value_of_def)
next
  case (Cons c s)
  then obtain d w1 where "digit_val base c = Some d" "w = Suc w1" by (cases w) auto
  with Cons show ?case by (simp add: value_of_def)
qed

lemma digit_val_chars [simp]:
  "digit_val 16 CHR ''x'' = None" "digit_val 16 CHR ''X'' = None"
  "digit_val base CHR ''-'' = None" "digit_val base CHR ''+'' = None"
  by (simp_all add: digit_val_def)

lemma digit_val_space: "is_space c \<Longrightarrow> digit_val base c = None \<and> c \<noteq> CHR ''x'' \<and> c \<noteq> CHR ''X''"
  by (auto simp: digit_val_def is_space_def Let_def split: if_splits)

text \<open>A number between white space.\<close>

lemma scan_number_digits:
  assumes s: "s \<noteq> []" "\<forall>c\<in>set s. digit_val base c \<noteq> None" and w: "length s \<le> w"
    and t: "is_space z" and base: "base = 16 \<or> base = 10"
  shows "scan_number base w (s @ z # t) = Some (False, value_of base s 0, z # t)"
proof -
  obtain c cs where c: "s = c # cs" using s(1) by (cases s) auto
  then have sign: "c \<noteq> CHR ''-''" "c \<noteq> CHR ''+''" using s(2) by auto
  have stop: "z # t = [] \<or> digit_val base (hd (z # t)) = None" using t digit_val_space by simp
  show ?thesis
  proof (cases "c = CHR ''0''")
    case True
    have d0: "digit_val base CHR ''0'' = Some 0" using base by (auto simp: digit_val_def)
    have "hd (cs @ z # t) \<noteq> CHR ''x'' \<and> hd (cs @ z # t) \<noteq> CHR ''X''" if "base = 16"
      using that s(2) c digit_val_space [OF t] by (cases cs) auto
    moreover have "value_of base s 0 = value_of base cs 0" using True c d0 by (simp add: value_of_def)
    moreover have "\<forall>c\<in>set cs. digit_val base c \<noteq> None" "length cs \<le> w - 1" "w \<noteq> 0" using s(2) w c by auto
    ultimately show ?thesis
      using read_digits_all [of cs base "w - 1" "z # t" 0 1] stop True sign base c
      by (auto simp: scan_number_def Let_def)
  next
    case False
    then show ?thesis
      using read_digits_all [OF s(2) w stop, of 0 0] sign c
      by (auto simp: scan_number_def Let_def)
  qed
qed

lemma skip_space_digits:
  assumes "s \<noteq> []" "\<forall>c\<in>set s. digit_val base c \<noteq> None" "is_space y"
  shows "skip_space (y # s @ t) = s @ t"
proof -
  obtain c cs where "s = c # cs" using assms(1) by (cases s) auto
  moreover from this have "\<not> is_space c" using assms(2) digit_val_space [of c base] by auto
  ultimately show ?thesis using assms(3) by (simp add: skip_space_def)
qed

text \<open>A word of 32 bits in eight digits, as \<^verbatim>\<open>%08X\<close> prints it.\<close>

definition hex8 :: "u32 \<Rightarrow> string" where
  "hex8 w = map (\<lambda>i. hex_digit (unat w div 16 ^ i mod 16)) (rev [0..<8])"

lemma value_of_digits:
  "value_of 16 (map (\<lambda>i. hex_digit (m div 16 ^ i mod 16)) (rev [0..<k])) acc = 16 ^ k * acc + m mod 16 ^ k"
proof (induction k arbitrary: acc)
  case (Suc k)
  have "m mod 16 ^ Suc k = 16 ^ k * (m div 16 ^ k mod 16) + m mod 16 ^ k"
    using mod_mult2_eq [of m "16 ^ k" 16] by (simp add: mult.commute)
  with Suc [of "16 * acc + m div 16 ^ k mod 16"] show ?case
    by (simp add: value_of_def hex_digit_facts algebra_simps)
qed (simp add: value_of_def)

lemma value_of_hex8: "value_of 16 (hex8 w) 0 = unat w"
  unfolding hex8_def value_of_digits using unat_u32 [of w] by simp

lemma hex8_digits: "hex8 w \<noteq> []" "\<forall>c\<in>set (hex8 w). digit_val 16 c \<noteq> None" "length (hex8 w) = 8"
  by (auto simp: hex8_def hex_digit_facts)

lemma scan_stream_hex8:
  assumes "is_space y" "is_space z"
  shows "scan_stream (SHex # fs) (y # hex8 w @ z # t) =
    (Num w # fst (scan_stream fs (z # t)), snd (scan_stream fs (z # t)))"
  using scan_number_digits [OF hex8_digits(1,2), where z = z and t = t] assms(2)
  by (simp add: skip_space_digits [OF hex8_digits(1,2) assms(1)] value_of_hex8 store_unsigned_def
      hex8_digits(3) split_beta)
    (use unat_u32 [of w] in linarith)

definition decimal :: "string \<Rightarrow> bool" where
  "decimal s \<longleftrightarrow> s \<noteq> [] \<and> (\<forall>c\<in>set s. digit_val 10 c \<noteq> None)"

lemma scan_stream_decimal:
  assumes "decimal s" "is_space y" "is_space z"
  shows "scan_stream (SDec # fs) (y # s @ z # t) =
    (Num (store_signed False (value_of 10 s 0)) # fst (scan_stream fs (z # t)), snd (scan_stream fs (z # t)))"
proof -
  from assms(1) have s: "s \<noteq> []" "\<forall>c\<in>set s. digit_val 10 c \<noteq> None" by (simp_all add: decimal_def)
  have "length s \<le> length (s @ z # t)" by simp
  from scan_number_digits [OF s this assms(3)] show ?thesis
    by (simp add: skip_space_digits [OF s assms(2)] split_beta)
qed

lemma scan_stream_word:
  assumes "plain_word w" "is_space z" "\<forall>c\<in>set ys. is_space c"
  shows "scan_stream (SWord # fs) (ys @ w @ z # t) =
    (Str w # fst (scan_stream fs (z # t)), snd (scan_stream fs (z # t)))"
proof -
  from plain_word_skip [OF assms(1), of "z # t"] assms(2)
  have "skip_space (w @ z # t) = w @ z # t" "takeWhile (\<lambda>c. \<not> is_space c) (w @ z # t) = w" by simp_all
  moreover have "skip_space (ys @ w @ z # t) = skip_space (w @ z # t)"
    using assms(3) by (simp add: skip_space_def takeWhile_word(2))
  moreover have "dropWhile (\<lambda>c. \<not> is_space c) (w @ z # t) = z # t"
    using assms(1,2) by (simp add: takeWhile_word(2) plain_word_def)
  ultimately show ?thesis using assms(1) by (simp add: split_beta plain_word_def)
qed

end
