(* ===== verification/Or_Www.thy ===== *)
theory Or_Www
  imports Cli_Dispatch C_Input
begin

section \<open>The web server (\<^verbatim>\<open>or_www.c\<close>)\<close>

text \<open>
  One request of a browser: the pieces that \<^verbatim>\<open>recv\<close> delivers are collected until an empty line,
  and the path selects the list of commands, the statistics, a command of the command line, or a
  file. The results are the text sent before the connection is closed and the new state.
  None is a request that waits for more input or writes past a buffer. \<open>fs\<close> are the files that
  can be opened, \<open>cwd\<close> is the working directory. Calls of
  \<^verbatim>\<open>send\<close> succeed.
\<close>

subsection \<open>Reading a request\<close>

definition cr :: char where "cr = CHR 0x0D"

fun contains_crlfcrlf :: "string \<Rightarrow> bool" where
  "contains_crlfcrlf (a # b # c # d # s) \<longleftrightarrow>
     (a = cr \<and> b = nl \<and> c = cr \<and> d = nl) \<or> contains_crlfcrlf (b # c # d # s)"
| "contains_crlfcrlf _ \<longleftrightarrow> False"

datatype www_read = Waiting | Closed | Request string

text \<open>
  An element of the input is an error (None), the end of the input (the empty string), or what has arrived,
  of which a call takes as much as the buffer has room for. A full buffer is doubled.
\<close>

function read_request :: "string option list \<Rightarrow> string \<Rightarrow> nat \<Rightarrow> www_read" where
  "read_request [] buf buf_alloc_size = Waiting"
| "read_request (None # input) buf buf_alloc_size = Closed"
| "read_request (Some s # input) buf buf_alloc_size =
     (if s = [] \<or> buf_alloc_size \<le> length buf
      then (if contains_crlfcrlf buf then Request buf else Closed)
      else (let n = buf_alloc_size - length buf;
                buf = buf @ take n s;
                input = (if drop n s = [] then input else Some (drop n s) # input);
                buf_alloc_size = (if length buf = buf_alloc_size then 2 * buf_alloc_size else buf_alloc_size)
            in if contains_crlfcrlf buf then Request buf else read_request input buf buf_alloc_size))"
  by pat_completeness auto

termination
  by (relation "measure (\<lambda>(input, _). sum_list (map (\<lambda>r. case r of None \<Rightarrow> 0 | Some s \<Rightarrow> Suc (length s)) input))")
    auto

subsection \<open>The answer\<close>

definition crlf :: string where "crlf = [cr, nl]"

fun list_commands_loop :: "cli_entry list \<Rightarrow> string \<Rightarrow> int \<Rightarrow> string option" where
  "list_commands_loop [] msg alloc_size = Some msg"
| "list_commands_loop (entry # cur) msg alloc_size = do {
     (msg, alloc_size) \<leftarrow> my_strncat msg (ce_command entry) alloc_size;
     (msg, alloc_size) \<leftarrow> my_strncat msg [nl] alloc_size;
     list_commands_loop cur msg alloc_size
   }"

definition list_commands :: "cli_entry list \<Rightarrow> string option" where
  "list_commands cli_commands = list_commands_loop cli_commands '''' 256"

definition www_ok :: string where "www_ok = ''HTTP/1.0 200 OK'' @ crlf"

definition www_list :: "cli_entry list \<Rightarrow> string option" where
  "www_list cli_commands = do {
     body \<leftarrow> list_commands cli_commands;
     (result, alloc_size) \<leftarrow> my_strncat www_ok (''Content-Length: '' @ show_nat (length body) @ crlf @ crlf) 512;
     (result, alloc_size) \<leftarrow> my_strncat result body alloc_size;
     Some result
   }"

text \<open>The second \<^verbatim>\<open>strcpy\<close> overwrites the header that the first one has written.\<close>

definition www_stats :: "string \<Rightarrow> string option" where
  "www_stats statsBuf = (if length statsBuf < 512 then Some statsBuf else None)"

definition www_argument :: "string \<Rightarrow> string" where
  "www_argument url = (case strtok ''=&'' url of _ # command # _ \<Rightarrow> urldecode command | _ \<Rightarrow> [])"

definition www_command :: "cli_env \<Rightarrow> cli_entry list \<Rightarrow> string \<Rightarrow> router_state \<Rightarrow> cli_result" where
  "www_command env cli_commands url rs =
     (let command = www_argument url
      in case cli_command_lpm cli_commands command of
           None \<Rightarrow> Some (www_ok @ crlf @ ''invalid command'' @ [nl], rs)
         | Some handler \<Rightarrow> map_option (\<lambda>(out, rs). (www_ok @ crlf @ out, rs)) (run_handler env handler rs command))"

definition strncat :: "string \<Rightarrow> string \<Rightarrow> nat \<Rightarrow> string" where
  "strncat left right n = left @ take n right"

definition www_file_name :: "string \<Rightarrow> string \<Rightarrow> string" where
  "www_file_name cwd url =
     (let fileName = strncat cwd ''/www'' (511 - length cwd)
      in strncat fileName (if url = ''/'' then ''/index.html'' else url) (511 - length fileName))"

definition not_found_text :: string where
  "not_found_text = ''HTTP/1.0 404 Not Found'' @ crlf @ crlf @
     ''<html><head><title>404 Not Found</title></head><body><h1>Not Found</h1>'' @
     ''<p>The requested URL was not found on this server.</p></body></html>''"

definition send_file :: "string \<Rightarrow> string" where
  "send_file content = ''Content-Length: '' @ show_nat (length content) @ crlf @ crlf @ content"

definition www_file :: "string \<Rightarrow> (string \<Rightarrow> string option) \<Rightarrow> string \<Rightarrow> string" where
  "www_file cwd fs url =
     (case fs (www_file_name cwd url) of
        None \<Rightarrow> not_found_text
      | Some content \<Rightarrow> www_ok @ send_file content)"

definition www_answer ::
  "cli_env \<Rightarrow> cli_entry list \<Rightarrow> string \<Rightarrow> (string \<Rightarrow> string option) \<Rightarrow> string \<Rightarrow> router_state \<Rightarrow> cli_result" where
  "www_answer env cli_commands cwd fs url rs =
     (if url = ''/list.html'' then map_option (\<lambda>out. (out, rs)) (www_list cli_commands)
      else if strncmp_eq url ''/stats.html'' 11 then map_option (\<lambda>out. (out, rs)) (www_stats (env_stats env))
      else if strncmp_eq url ''/command.html'' 13 then www_command env cli_commands url rs
      else Some (www_file cwd fs url, rs))"

definition service_request ::
  "cli_env \<Rightarrow> cli_entry list \<Rightarrow> string \<Rightarrow> (string \<Rightarrow> string option) \<Rightarrow> string option list \<Rightarrow>
     router_state \<Rightarrow> cli_result" where
  "service_request env cli_commands cwd fs input rs =
     (case read_request input [] 100 of
        Waiting \<Rightarrow> None
      | Closed \<Rightarrow> Some ([], rs)
      | Request buf \<Rightarrow>
          (case sscanf [Word, Lit CHR '' '', Word] (c_string buf) of
             [Str method, Str url] \<Rightarrow> www_answer env cli_commands cwd fs url rs
           | _ \<Rightarrow> Some ([], rs)))"

subsection \<open>Any division into pieces\<close>

lemma contains_crlfcrlf_iff: "contains_crlfcrlf s \<longleftrightarrow> (\<exists>p q. s = p @ crlf @ crlf @ q)"
proof (induction s rule: contains_crlfcrlf.induct)
  case (1 a b c d s)
  show ?case (is "?l = ?r")
  proof
    assume ?l
    then consider "a = cr \<and> b = nl \<and> c = cr \<and> d = nl" | "contains_crlfcrlf (b # c # d # s)" by auto
    then show ?r
    proof cases
      case 1
      then show ?thesis by (intro exI [of _ "[]"] exI [of _ s]) (simp add: crlf_def)
    next
      case 2
      with "1.IH" obtain p q where "b # c # d # s = p @ crlf @ crlf @ q" by auto
      then show ?thesis by (intro exI [of _ "a # p"] exI [of _ q]) simp
    qed
  next
    assume ?r
    then obtain p q where pq: "a # b # c # d # s = p @ crlf @ crlf @ q" by auto
    show ?l
    proof (cases p)
      case Nil
      with pq show ?thesis by (simp add: crlf_def)
    next
      case (Cons x p')
      with pq have "b # c # d # s = p' @ crlf @ crlf @ q" by simp
      then have "contains_crlfcrlf (b # c # d # s)" using "1.IH" by blast
      then show ?thesis by simp
    qed
  qed
qed (auto simp: crlf_def append_eq_Cons_conv Cons_eq_append_conv)

lemma take_length_append: "take (length xs) (xs @ ys) = xs"
  by simp

lemma read_request_pieces:
  assumes "\<forall>s\<in>set pieces. s \<noteq> []" "length buf < n" "pieces \<noteq> []"
    and "contains_crlfcrlf (buf @ concat pieces)"
    and "\<And>k. k < length (buf @ concat pieces) \<Longrightarrow> \<not> contains_crlfcrlf (take k (buf @ concat pieces))"
  shows "read_request (map Some pieces) buf n = Request (buf @ concat pieces)"
  using assms
proof (induction "map Some pieces" buf n arbitrary: pieces rule: read_request.induct)
  case (3 s input buf n)
  then obtain ps where ps: "pieces = s # ps" "input = map Some ps" by (cases pieces) auto
  let ?k = "n - length buf" and ?total = "buf @ concat pieces"
  let ?ps = "if drop ?k s = [] then ps else drop ?k s # ps"
  have step: "\<not> (s = [] \<or> n \<le> length buf)" using 3(3,4) ps by auto
  have "take ?k s @ drop ?k s @ concat ps = s @ concat ps" by (simp flip: append_assoc)
  then have total: "?total = (buf @ take ?k s) @ concat ?ps"
    using ps by (cases "drop ?k s = []") simp_all
  show ?case
  proof (cases "?ps = []")
    case True
    then have "?total = buf @ take ?k s" using total by simp
    with 3(6) step show ?thesis by (simp add: Let_def ps)
  next
    case False
    then have "concat ?ps \<noteq> []" using 3(3) ps by (cases ps) (auto split: if_splits)
    then have "length (buf @ take ?k s) < length ?total" using total by simp
    from 3(7) [OF this] have no: "\<not> contains_crlfcrlf (buf @ take ?k s)"
      unfolding total take_length_append .
    have rest: "map Some ?ps = (if drop ?k s = [] then input else Some (drop ?k s) # input)" using ps by simp
    have "read_request (map Some ?ps) (buf @ take ?k s)
        (if length (buf @ take ?k s) = n then 2 * n else n) = Request ((buf @ take ?k s) @ concat ?ps)"
    proof (rule 3(1) [OF step refl refl _ refl no])
      show "map Some ?ps = (if drop ?k s = [] then input else Some (drop ?k s) # input)" by (rule rest)
      show "\<forall>s\<in>set ?ps. s \<noteq> []" using 3(3) ps by auto
      show "length (buf @ take ?k s) < (if length (buf @ take ?k s) = n then 2 * n else n)" using step by auto
      show "?ps \<noteq> []" by (rule False)
      show "contains_crlfcrlf ((buf @ take ?k s) @ concat ?ps)" using 3(6) unfolding total .
      show "\<And>k. k < length ((buf @ take ?k s) @ concat ?ps) \<Longrightarrow>
          \<not> contains_crlfcrlf (take k ((buf @ take ?k s) @ concat ?ps))" using 3(7) unfolding total .
    qed
    then have "read_request (Some s # input) buf n = Request ?total"
      unfolding total read_request.simps(3) Let_def if_not_P [OF step] if_not_P [OF no] rest .
    then show ?thesis using ps by simp
  qed
qed auto

lemma first_crlfcrlf:
  assumes "cr \<notin> set w" "k < length (w @ crlf @ crlf)"
  shows "\<not> contains_crlfcrlf (take k (w @ crlf @ crlf))"
proof
  assume "contains_crlfcrlf (take k (w @ crlf @ crlf))"
  then obtain p q where "take k (w @ crlf @ crlf) = p @ crlf @ crlf @ q" by (auto simp: contains_crlfcrlf_iff)
  then have t: "w @ crlf @ crlf = p @ crlf @ crlf @ q @ drop k (w @ crlf @ crlf)"
    using append_take_drop_id [of k "w @ crlf @ crlf"] by simp
  have "drop k (w @ crlf @ crlf) \<noteq> []" using assms(2) by (simp only: drop_eq_Nil not_le)
  then have "length p < length w" using arg_cong [OF t, of length] by (cases "drop k (w @ crlf @ crlf)") auto
  moreover have "(p @ crlf @ crlf @ r) ! length p = cr" for r by (simp add: crlf_def)
  with arg_cong [OF t, of "\<lambda>s. s ! length p"] have "(w @ crlf @ crlf) ! length p = cr" by metis
  ultimately have "w ! length p = cr" by (simp add: nth_append)
  with \<open>length p < length w\<close> assms(1) show False by (metis nth_mem)
qed

text \<open>A request for a path, in any pieces, is answered as the path.\<close>

definition get_request :: "string \<Rightarrow> string" where
  "get_request url = ''GET '' @ url @ '' HTTP/1.0'' @ crlf @ crlf"

lemma service_get:
  assumes "plain_word url" "CHR 0x00 \<notin> set url" "\<forall>s\<in>set pieces. s \<noteq> []" "concat pieces = get_request url"
  shows "service_request env cmds cwd fs (map Some pieces) rs = www_answer env cmds cwd fs url rs"
proof -
  let ?w = "''GET '' @ url @ '' HTTP/1.0''"
  have sp: "is_space cr" by (simp add: is_space_def cr_def)
  have w: "get_request url = ?w @ crlf @ crlf" by (simp add: get_request_def)
  have "cr \<notin> set url" using assms(1) sp by (auto simp: plain_word_def)
  then have "cr \<notin> set ?w" by (simp add: cr_def)
  note no = first_crlfcrlf [OF this, folded w]
  have all: "contains_crlfcrlf (get_request url)"
    unfolding contains_crlfcrlf_iff w by (intro exI [of _ ?w] exI [of _ "[]"]) simp
  have "pieces \<noteq> []" using assms(4) by (auto simp: get_request_def)
  from read_request_pieces [OF assms(3) _ this, of "[]" 100] all no
  have read: "read_request (map Some pieces) [] 100 = Request (get_request url)"
    unfolding assms(4) append_Nil by simp
  have "CHR 0x00 \<notin> set (get_request url)" using assms(2) by (simp add: get_request_def crlf_def cr_def nl_def)
  then have "c_string (get_request url) = get_request url"
    unfolding c_string_def by (simp add: takeWhile_eq_all_conv) metis
  moreover have "sscanf [Word, Lit CHR '' '', Word] (get_request url) = [Str ''GET'', Str url]"
  proof -
    have get: "plain_word ''GET''" by (simp add: plain_word_def is_space_def)
    let ?s = "url @ '' HTTP/1.0'' @ crlf @ crlf"
    have s: "?s \<noteq> []" "\<not> is_space (hd ?s)" using assms(1) by (auto simp: plain_word_def hd_append)
    have "sscanf [Word] ?s = [Str url]"
      using sscanf_word(1) [OF assms(1), of "'' HTTP/1.0'' @ crlf @ crlf" "[]"] by (simp add: is_space_def)
    then show ?thesis using sscanf_word_space [OF get s, of "[Word]"] by (simp add: get_request_def)
  qed
  ultimately show ?thesis using read by (simp add: service_request_def)
qed

subsection \<open>Commands\<close>

lemma hex_digit_alnum: "n < 16 \<Longrightarrow> is_alnum (hex_digit n)"
proof -
  have "\<forall>n\<in>set [0..<16]. is_alnum (hex_digit n)" by code_simp
  then show "n < 16 \<Longrightarrow> is_alnum (hex_digit n)" by simp
qed

lemma urlencode_chars: "c \<in> set (urlencode str) \<Longrightarrow> is_alnum c \<or> c = CHR ''%''"
  by (induction str) (auto simp: hex_digit_alnum split: if_splits)

lemma urlencode_word:
  assumes "str \<noteq> []"
  shows "plain_word (urlencode str)" "CHR 0x00 \<notin> set (urlencode str)" "set (urlencode str) \<inter> set ''=&'' = {}"
proof -
  have "\<not> is_alnum c" if "is_space c \<or> c = CHR 0x00 \<or> c \<in> set ''=&''" for c
    using that by (auto simp: is_alnum_def is_space_def less_eq_char_def)
  moreover have "\<not> is_space CHR ''%''" by (simp add: is_space_def)
  ultimately have "\<forall>c\<in>set (urlencode str). \<not> is_space c \<and> c \<noteq> CHR 0x00 \<and> c \<notin> set ''=&''"
    using urlencode_chars by fastforce
  moreover have "urlencode str \<noteq> []" using assms by (cases str) auto
  ultimately show "plain_word (urlencode str)" "CHR 0x00 \<notin> set (urlencode str)" "set (urlencode str) \<inter> set ''=&'' = {}"
    by (auto simp: plain_word_def)
qed

definition command_url :: "string \<Rightarrow> string" where
  "command_url command = ''/command.html?command='' @ urlencode command"

lemma www_argument_command:
  assumes "str \<noteq> []" "CHR 0x00 \<notin> set str"
  shows "www_argument (command_url str) = str"
proof -
  have "strtok ''=&'' (''/command.html?command'' @ CHR ''='' # urlencode str) =
      [''/command.html?command'', urlencode str]"
    using strtok_part(1) [of "''/command.html?command''" "''=&''" "CHR ''=''" "urlencode str"]
      strtok_part(2) [of "urlencode str" "''=&''" "CHR ''=''"] urlencode_word [OF assms(1)]
    by (auto simp: plain_word_def)
  then show ?thesis
    using urldecode_urlencode [OF assms(2)] by (simp add: www_argument_def command_url_def)
qed

lemma www_answer_command: "www_answer env cmds cwd fs (command_url str) rs = www_command env cmds (command_url str) rs"
  by (simp add: www_answer_def command_url_def strncmp_eq_def)

text \<open>
  C28. A command given to the web server is the command typed by a client: the request for
  \<^verbatim>\<open>command.html\<close> with the encoded command, however it is cut into pieces on the way, leaves the
  router in the state in which the line of a client leaves it, and sends the same text behind its
  header; it faults exactly when the line does.
\<close>

theorem www_command_as_cli:
  assumes "\<forall>s\<in>set pieces. s \<noteq> []" "concat pieces = get_request (command_url line)"
    and "buffer_ok buf" "line_text line" "line \<noteq> []" "length line \<le> 125" "\<not> strncmp_eq line ''exit'' 4"
    and "cli_command_lpm cmds line \<noteq> None"
  shows "service_request env cmds cwd fs (map Some pieces) rs =
    map_option (\<lambda>(_, _, out, rs'). (''HTTP/1.0 200 OK'' @ crlf @ crlf @ out, rs'))
      (client_request env cmds buf (line @ [CHR 0x0D, CHR 0x0A]) rs)"
proof -
  have nul: "CHR 0x00 \<notin> set line" using assms(4) by (auto simp: line_text_def)
  note enc = urlencode_word [OF assms(5)]
  have "plain_word (command_url line)" "CHR 0x00 \<notin> set (command_url line)"
    using enc by (auto simp: command_url_def plain_word_def is_space_def)
  note web = service_get [OF this assms(1,2), of env cmds cwd fs rs]
  obtain h where h: "cli_command_lpm cmds line = Some h" using assms(8) by blast
  from client_line [OF assms(3,4,6), of env cmds rs] obtain buf' where
    cli: "client_request env cmds buf (line @ [CHR 0x0D, CHR 0x0A]) rs =
      map_option (\<lambda>(out, rs'). (buf', False, out, rs')) (run_handler env h rs line)"
    using assms(7) h by auto
  show ?thesis
    unfolding web www_answer_command www_command_def www_argument_command [OF assms(5) nul] cli
    by (cases "run_handler env h rs line") (auto simp: h www_ok_def)
qed

text \<open>
  C37. The server hands out files outside its directory: a path is appended to the directory as
  it comes, so a request for a path that goes up with two dots is answered with whatever file
  the system finds there. Only the length of the name is bounded.
\<close>

theorem www_leaves_directory:
  assumes "\<forall>s\<in>set pieces. s \<noteq> []" "concat pieces = get_request (''/../'' @ path)"
    and "\<forall>c\<in>set path. \<not> is_space c \<and> c \<noteq> CHR 0x00"
    and "length cwd + length path \<le> 503" "fs (cwd @ ''/www/../'' @ path) = Some content"
  shows "service_request env cmds cwd fs (map Some pieces) rs =
    Some (''HTTP/1.0 200 OK'' @ crlf @ ''Content-Length: '' @ show_nat (length content) @ crlf @ crlf @ content, rs)"
proof -
  have "plain_word (''/../'' @ path)" "CHR 0x00 \<notin> set (''/../'' @ path)"
    using assms(3) by (auto simp: plain_word_def is_space_def)
  note web = service_get [OF this assms(1,2), of env cmds cwd fs rs]
  have "www_file_name cwd (''/../'' @ path) = cwd @ ''/www/../'' @ path"
    using assms(4) by (simp add: www_file_name_def strncat_def)
  then show ?thesis
    unfolding web using assms(5) by (simp add: www_answer_def strncmp_eq_def www_file_def send_file_def www_ok_def)
qed

theorem www_command_as_cli_witness:
  "let cmds = [\<lparr>ce_command = ''nuke arp'', ce_handler = Cli_nuke_arp_cache\<rparr>] in
    service_request env0 cmds ''/root'' (\<lambda>_. None)
        (map Some [''GET /command.ht'', ''ml?command=nuke%20arp HTTP/1.0'' @ [cr], [nl, cr, nl]]) rs0 =
      map_option (\<lambda>(_, _, out, rs'). (''HTTP/1.0 200 OK'' @ crlf @ crlf @ out, rs'))
        (client_request env0 cmds empty_buffer (''nuke arp'' @ [CHR 0x0D, CHR 0x0A]) rs0)"
proof -
  let ?cmds = "[\<lparr>ce_command = ''nuke arp'', ce_handler = Cli_nuke_arp_cache\<rparr>]"
  have "cli_command_lpm ?cmds ''nuke arp'' \<noteq> None" by (simp add: cli_command_lpm_def strncmp_eq_def)
  moreover have "urlencode ''nuke arp'' = ''nuke%20arp''"
    by (simp add: is_alnum_def less_eq_char_def hex_digit_def)
  then have "concat [''GET /command.ht'', ''ml?command=nuke%20arp HTTP/1.0'' @ [cr], [nl, cr, nl]] =
      get_request (command_url ''nuke arp'')"
    by (simp add: get_request_def command_url_def crlf_def)
  moreover have "line_text ''nuke arp''" "\<not> strncmp_eq ''nuke arp'' ''exit'' 4"
    by (simp_all add: line_text_def strncmp_eq_def)
  ultimately show ?thesis
    unfolding Let_def by (intro www_command_as_cli empty_buffer_ok) simp_all
qed

theorem www_leaves_directory_witness:
  "service_request env0 [] ''/root'' (\<lambda>f. if f = ''/root/www/../key'' then Some ''secret'' else None)
      [Some (get_request ''/../key'')] rs0 =
    Some (''HTTP/1.0 200 OK'' @ crlf @ ''Content-Length: 6'' @ crlf @ crlf @ ''secret'', rs0)"
proof -
  have six: "show_nat (length ''secret'') = ''6''" by (simp add: show_nat.simps digit_char_def char_of_eq_iff)
  have "service_request env0 [] ''/root'' (\<lambda>f. if f = ''/root/www/../key'' then Some ''secret'' else None)
      (map Some [get_request ''/../key'']) rs0 =
    Some (''HTTP/1.0 200 OK'' @ crlf @ ''Content-Length: '' @ show_nat (length ''secret'') @ crlf @ crlf @ ''secret'', rs0)"
    by (rule www_leaves_directory [where path = "''key''"]) (simp_all add: get_request_def is_space_def)
  then show ?thesis unfolding six by simp
qed

end
