(* ===== verification/Or_Init.thy ===== *)
theory Or_Init
  imports Cli_Dispatch Or_Arp_Queue C_Input
begin

section \<open>Starting the router (\<^verbatim>\<open>or_main.c\<close>, \<^verbatim>\<open>sr_cpu_extension_nf.c\<close>, \<^verbatim>\<open>sr_base.c\<close>)\<close>

text \<open>
  The state from which the router starts in CPU mode: the constants, the interfaces read from the
  hardware file, our entry in the link state database, the static routes read from the routing
  table file, and the settings of the protocol. A file is its contents, or None when it cannot
  be opened. None as a result stands for a start that fails: the process exits, an assertion
  fails or memory is accessed out of bounds.
\<close>

subsection \<open>The hardware file\<close>

text \<open>
  The next field of a line. The buffer has \<^verbatim>\<open>SR_NAMELEN\<close> bytes and the terminating zero is stored
  behind the last character copied: after a field of \<^verbatim>\<open>SR_NAMELEN\<close> characters that is past the
  end (the outer None). The inner None is the null pointer returned at the end of the line.
\<close>

definition copy_next_field :: "string \<Rightarrow> (string \<times> string) option option" where
  "copy_next_field line =
     (let line = skip_space line; buf = take SR_NAMELEN (takeWhile (\<lambda>c. \<not> is_space c) line)
      in if line = [] then Some None
         else if length buf < SR_NAMELEN then Some (Some (buf, drop (length buf) line)) else None)"

definition asci_to_nboip :: "string \<Rightarrow> u32" where
  "asci_to_nboip ip = (case inet_pton ip of None \<Rightarrow> 0 | Some addr \<Rightarrow> addr)"

text \<open>
  \<open>tmpint\<close> is None while it is not initialised; a failing \<^verbatim>\<open>sscanf\<close> leaves it as it is. Without a
  further colon \<^verbatim>\<open>buf\<close> moves past the end of the string.
\<close>

fun asci_to_ether_loop :: "nat \<Rightarrow> bool \<Rightarrow> string \<Rightarrow> u32 option \<Rightarrow> u8 list option" where
  "asci_to_ether_loop 0 i buf tmpint = Some []"
| "asci_to_ether_loop (Suc n) i buf tmpint = do {
     buf \<leftarrow> (if i then (case dropWhile (\<lambda>c. c \<noteq> CHR '':'') buf of [] \<Rightarrow> None | c # buf \<Rightarrow> Some buf)
            else Some buf);
     let s = skip_space buf;
     let tmpint = (case scan_number 16 (length s) s of
           None \<Rightarrow> tmpint | Some (neg, v, t) \<Rightarrow> Some (store_unsigned neg v));
     v \<leftarrow> tmpint;
     mac \<leftarrow> asci_to_ether_loop n True buf tmpint;
     Some (ucast v # mac)
   }"

definition asci_to_ether :: "string \<Rightarrow> u8 list option" where
  "asci_to_ether addr = asci_to_ether_loop 6 False addr None"

fun hardware_loop ::
  "(string \<Rightarrow> string \<Rightarrow> int) \<Rightarrow> string list \<Rightarrow> router_state \<Rightarrow> (int \<times> router_state) option" where
  "hardware_loop strcmp [] rs = Some (0, rs)"
| "hardware_loop strcmp (line # fp) rs =
     (if take 1 line = ''#'' then hardware_loop strcmp fp rs
      else do {
        field \<leftarrow> copy_next_field line;
        (case field of None \<Rightarrow> Some (1, rs) | Some (name, tmpptr) \<Rightarrow> do {
        field \<leftarrow> copy_next_field tmpptr;
        (case field of None \<Rightarrow> Some (1, rs) | Some (ip, tmpptr) \<Rightarrow> do {
        field \<leftarrow> copy_next_field tmpptr;
        (case field of None \<Rightarrow> Some (1, rs) | Some (msk, tmpptr) \<Rightarrow> do {
        field \<leftarrow> copy_next_field tmpptr;
        (case field of None \<Rightarrow> Some (1, rs) | Some (hwaddr, tmpptr) \<Rightarrow> do {
          mac \<leftarrow> asci_to_ether hwaddr;
          rs \<leftarrow> init_add_interface strcmp rs \<lparr>vns_name = name, vns_addr = mac,
                  vns_ip = asci_to_nboip ip, vns_mask = asci_to_nboip msk, vns_speed = 0\<rparr>;
          hardware_loop strcmp fp rs
        }) }) }) })
      })"

definition sr_cpu_init_hardware ::
  "(string \<Rightarrow> string \<Rightarrow> int) \<Rightarrow> router_state \<Rightarrow> string option \<Rightarrow> (int \<times> router_state) option" where
  "sr_cpu_init_hardware strcmp rs hwfile =
     (case hwfile of None \<Rightarrow> Some (-1, rs) | Some content \<Rightarrow> hardware_loop strcmp (read_lines 1024 content) rs)"

subsection \<open>The steps of the start\<close>

definition PWOSPF_AREA_ID :: u32 where "PWOSPF_AREA_ID = 0"
definition INITIAL_ARP_TIMEOUT :: u32 where "INITIAL_ARP_TIMEOUT = 300"

definition init_hardware :: "router_state \<Rightarrow> router_state option" where
  "init_hardware rs = write_rtable_to_hw (write_arp_cache_to_hw rs)"

text \<open>\<open>hw\<close> is the layout of the tables of the card, from the generated \<^verbatim>\<open>reg_defines.h\<close>.\<close>

definition init :: "hw_config \<Rightarrow> router_state option" where
  "init hw =
     init_hardware ((zero_state hw)\<lparr>rs_area_id := PWOSPF_AREA_ID, rs_arp_ttl := INITIAL_ARP_TIMEOUT,
       rs_nat_timeout := 120, rs_is_netfpga := True\<rparr>)"

definition own_link :: "iface_entry \<Rightarrow> pwospf_interface" where
  "own_link ie = \<lparr>pi_subnet = if_ip ie AND if_mask ie, pi_mask = if_mask ie, pi_router_id = 0,
     pi_is_active = False\<rparr>"

definition init_router_list :: "int \<Rightarrow> router_state \<Rightarrow> router_state option" where
  "init_router_list now rs =
     (if rs_router_list rs \<noteq> [] then None
      else Some (rs\<lparr>rs_router_list := [\<lparr>r_router_id = rs_router_id rs, r_area_id = rs_area_id rs, r_seq = 0,
        r_last_update = now, r_distance = 0, r_shortest_path_found = False,
        r_interface_list = map own_link (rs_if_list rs), r_prev_router = None\<rparr>]\<rparr>))"

text \<open>
  A line of the routing table file. A field that is missing is a null pointer; an address that
  cannot be read stays 0.
\<close>

definition read_rtable_line :: "string \<Rightarrow> rtable_entry option" where
  "read_rtable_line buf =
     (case sscanf [Word, Lit CHR '' '', Word, Lit CHR '' '', Word, Lit CHR '' '', Word] buf of
        [Str ip, Str gw, Str msk, Str iface] \<Rightarrow>
          Some \<lparr>re_ip = asci_to_nboip ip, re_gw = asci_to_nboip gw, re_mask = asci_to_nboip msk,
            re_iface = take IF_LEN iface, re_is_static = True, re_is_active = True\<rparr>
      | _ \<Rightarrow> None)"

fun read_rtable :: "string list \<Rightarrow> rtable_entry list option" where
  "read_rtable [] = Some []"
| "read_rtable (buf # file) = do {
     entry \<leftarrow> read_rtable_line buf;
     rtable \<leftarrow> read_rtable file;
     Some (entry # rtable)
   }"

definition init_rtable :: "router_state \<Rightarrow> string option \<Rightarrow> router_state option" where
  "init_rtable rs file = do {
     content \<leftarrow> file;
     rtable \<leftarrow> read_rtable (read_lines 1024 content);
     let rs = rs\<lparr>rs_rtable := rs_rtable rs @ rtable\<rparr>;
     rs \<leftarrow> (case default_route_present rs of
            None \<Rightarrow> Some rs
          | Some default_route \<Rightarrow>
              (case get_router_by_rid (rs_router_id rs) (rs_router_list rs) of
                 None \<Rightarrow> None
               | Some r \<Rightarrow> Some (upd_router (rs_router_id rs)
                   (\<lambda>r. r\<lparr>r_interface_list := r_interface_list r @ [default_route]\<rparr>) rs)));
     Some (dijkstra_trigger rs)
   }"

definition init_ospf :: "(string \<Rightarrow> string \<Rightarrow> int) \<Rightarrow> router_state \<Rightarrow> router_state option" where
  "init_ospf strcmp rs =
     (let rs = rs\<lparr>rs_hello_interval := PWOSPF_NEIGHBOR_TIMEOUT, rs_lsu_interval := PWOSPF_LSUINT,
            rs_lsu_broadcast := True\<rparr>
      in if rs_is_netfpga rs
         then map_option snd (add_local_ip_filter strcmp rs (w32 224 0 0 5) ''pwospf'') else Some rs)"

text \<open>
  The start in CPU mode, from \<^verbatim>\<open>sr_init_instance\<close> to \<^verbatim>\<open>init_ospf\<close>: the state and the sorted commands.
\<close>

definition sr_init ::
  "(string \<Rightarrow> string \<Rightarrow> int) \<Rightarrow> int \<Rightarrow> hw_config \<Rightarrow> string option \<Rightarrow> string option \<Rightarrow>
     (router_state \<times> cli_entry list) option" where
  "sr_init strcmp now hw hwfile rtable = do {
     rs \<leftarrow> init hw;
     (rc, rs) \<leftarrow> sr_cpu_init_hardware strcmp rs hwfile;
     (if rc \<noteq> 0 then None else do {
       rs \<leftarrow> init_router_list now rs;
       rs \<leftarrow> init_rtable rs rtable;
       cmds \<leftarrow> init_cli strcmp;
       rs \<leftarrow> init_ospf strcmp rs;
       Some (rs, cmds)
     })
   }"

subsection \<open>Hexadecimal bytes\<close>

lemma hex02_digits:
  obtains h l where "hex02 b = [hex_digit h, hex_digit l]" "h < 16" "l < 16" "16 * h + l = unat b"
proof (rule that)
  show "unat b div 16 < 16" using unat_u8_le [of b] by (simp add: div_less_iff_less_mult)
  show "unat b mod 16 < 16" "16 * (unat b div 16) + unat b mod 16 = unat b" by simp_all
qed (simp add: hex02_def)

lemma scan_hex02:
  assumes t: "t = [] \<or> hd t = CHR '':''"
  shows "scan_number 16 (length (hex02 b @ t)) (hex02 b @ t) = Some (False, unat b, t)"
proof -
  obtain h l where b: "hex02 b = [hex_digit h, hex_digit l]" "h < 16" "l < 16" "16 * h + l = unat b"
    by (rule hex02_digits)
  have "digit_val 16 CHR '':'' = None" by code_simp
  then have stop: "read_digits 16 w t acc k = (acc, k, t)" for w acc k
    using t by (cases w; cases t) auto
  show ?thesis
    using b(2-4) by (cases "h = 0") (simp_all add: b(1) hex_digit_facts scan_number_def Let_def stop)
qed

lemma hex02_no_colon:
  "dropWhile (\<lambda>c. c \<noteq> CHR '':'') (hex02 b @ t) = dropWhile (\<lambda>c. c \<noteq> CHR '':'') t"
  "skip_space (hex02 b @ t) = hex02 b @ t"
  by (rule hex02_digits [of b]; simp add: hex_digit_facts skip_space_def)+

lemma store_unat_u8: "ucast (store_unsigned False (unat (b :: u8))) = b"
proof -
  have "ucast (ucast b :: u32) = b" by (rule bit_word_eqI) (simp add: bit_simps)
  then show ?thesis using unat_u8_le [of b] by (simp add: store_unsigned_def)
qed

lemma asci_to_ether_step:
  assumes "t = [] \<or> hd t = CHR '':''"
  shows "asci_to_ether_loop (Suc n) False (hex02 b @ t) v =
      map_option ((#) b) (asci_to_ether_loop n True (hex02 b @ t) (Some (store_unsigned False (unat b))))"
    and "asci_to_ether_loop (Suc n) True (hex02 a @ CHR '':'' # hex02 b @ t) v =
      map_option ((#) b) (asci_to_ether_loop n True (hex02 b @ t) (Some (store_unsigned False (unat b))))"
  by (simp_all add: scan_hex02 [OF assms] hex02_no_colon store_unat_u8 map_conv_bind_option comp_def Let_def
      del: length_append)

lemma asci_to_ether_end:
  "asci_to_ether_loop (Suc 0) True (hex02 a @ CHR '':'' # hex02 b) v = Some [b]"
  using asci_to_ether_step(2) [of "[]" 0 a b v] by simp

lemma asci_to_ether_show:
  assumes "length m = 6"
  shows "asci_to_ether (show_mac m) = Some m"
proof -
  obtain a b c d e f where m: "m = [a, b, c, d, e, f]"
    using assms by (auto simp: numeral_eq_Suc length_Suc_conv)
  have six: "(6 :: nat) = Suc (Suc (Suc (Suc (Suc (Suc 0)))))" by simp
  show ?thesis
    unfolding m asci_to_ether_def show_mac_def six
    by (simp add: asci_to_ether_step asci_to_ether_end [simplified] asci_to_ether_end del: asci_to_ether_loop.simps(2))
qed

subsection \<open>Lines and fields\<close>

lemma copy_next_field_word:
  assumes w: "plain_word w" "length w < SR_NAMELEN" and t: "t = [] \<or> is_space (hd t)"
  shows "copy_next_field (w @ t) = Some (Some (w, t))" "copy_next_field (CHR '' '' # w @ t) = Some (Some (w, t))"
proof -
  have "w @ t \<noteq> []" using w(1) by (simp add: plain_word_def)
  then have "copy_next_field (w @ t) = Some (Some (w, t))"
    unfolding copy_next_field_def plain_word_skip(1) [OF w(1) t] Let_def plain_word_skip(2) [OF w(1) t]
    using w(2) by simp
  moreover have "skip_space (CHR '' '' # w @ t) = skip_space (w @ t)" by (simp add: skip_space_def)
  ultimately show "copy_next_field (w @ t) = Some (Some (w, t))"
    "copy_next_field (CHR '' '' # w @ t) = Some (Some (w, t))"
    by (simp_all add: copy_next_field_def)
qed

lemma plain_word_no_nl: "plain_word w \<Longrightarrow> nl \<notin> set w"
  using nl_space by (auto simp: plain_word_def)

lemma show_mac_word: "length m = 6 \<Longrightarrow> plain_word (show_mac m) \<and> length (show_mac m) = 17"
proof -
  have "\<forall>c\<in>set (hex02 b). \<not> is_space c" "length (hex02 b) = 2" "hex02 b \<noteq> []" for b
    by (rule hex02_digits [of b]; simp add: hex_digit_facts)+
  moreover have "\<not> is_space CHR '':''" by (simp add: is_space_def)
  ultimately show ?thesis by (simp add: show_mac_def plain_word_def ball_Un)
qed

lemma asci_to_nboip_ntop [simp]: "asci_to_nboip (inet_ntop ip) = ip"
  by (simp add: asci_to_nboip_def)

subsection \<open>Operations that only write registers\<close>

definition regs_only :: "router_state \<Rightarrow> router_state \<Rightarrow> bool" where
  "regs_only rs rs' \<longleftrightarrow> rs'\<lparr>rs_regs := []\<rparr> = rs\<lparr>rs_regs := []\<rparr>"

lemma regs_only_refl [simp]: "regs_only rs rs"
  by (simp add: regs_only_def)

lemma regs_only_trans: "regs_only rs m \<Longrightarrow> regs_only m rs' \<Longrightarrow> regs_only rs rs'"
  by (simp add: regs_only_def)

lemma regs_only_writeReg [simp]:
  "regs_only rs (writeReg r v m) = regs_only rs m" "regs_only (writeReg r v m) rs' = regs_only m rs'"
  by (simp_all add: regs_only_def writeReg_def)

lemma regs_only_eq: "regs_only rs rs' \<Longrightarrow> rs' = rs\<lparr>rs_regs := rs_regs rs'\<rparr>"
  unfolding regs_only_def by (cases rs; cases rs') simp

lemma regs_only_fields:
  assumes "regs_only rs rs'"
  shows "rs_router_id rs' = rs_router_id rs" "rs_router_list rs' = rs_router_list rs" "rs_rtable rs' = rs_rtable rs"
    "rs_if_list rs' = rs_if_list rs" "rs_arp_cache rs' = rs_arp_cache rs" "rs_arp_queue rs' = rs_arp_queue rs"
    "rs_ip_filters rs' = rs_ip_filters rs" "rs_hw rs' = rs_hw rs" "rs_is_netfpga rs' = rs_is_netfpga rs"
    "rs_nat_table rs' = rs_nat_table rs" "rs_sent rs' = rs_sent rs" "rs_lsu_queue rs' = rs_lsu_queue rs"
    "rs_hello_interval rs' = rs_hello_interval rs" "rs_area_id rs' = rs_area_id rs"
  by (subst regs_only_eq [OF assms], simp)+

lemma write_filter_rows_regs: "regs_only rs (write_filter_rows cur is rs)"
  by (induction cur "is" rs rule: write_filter_rows.induct)
     (simp_all add: write_filter_row_def)

lemma write_rtable_rows_regs: "write_rtable_rows cur is rs = Some rs' \<Longrightarrow> regs_only rs rs'"
  by (induction cur "is" rs rule: write_rtable_rows.induct)
     (auto simp: bind_eq_Some_conv write_rtable_row_def Let_def)

lemma write_rtable_to_hw_regs: "write_rtable_to_hw rs = Some rs' \<Longrightarrow> regs_only rs rs'"
  unfolding write_rtable_to_hw_def by (rule write_rtable_rows_regs)

lemma write_arp_entry_regs: "regs_only rs (write_arp_cache_entry_to_hw rs e i)"
  by (simp add: write_arp_cache_entry_to_hw_def Let_def split: option.split)

lemma write_arp_static_regs: "regs_only rs (snd (write_arp_static w cur i rs))"
  by (induction w cur i rs rule: write_arp_static.induct)
     (auto intro: regs_only_trans [OF write_arp_entry_regs])

lemma write_arp_rest_regs: "regs_only rs (write_arp_rest w cur i rs)"
proof (induction w cur i rs rule: write_arp_rest.induct)
  case (1 width cur i rs)
  then show ?case
    by (subst write_arp_rest.simps) (auto split: list.split intro: regs_only_trans [OF write_arp_entry_regs])
qed

lemma write_arp_cache_to_hw_regs: "regs_only rs (write_arp_cache_to_hw rs)"
  using regs_only_trans [OF write_arp_static_regs write_arp_rest_regs]
  by (simp add: write_arp_cache_to_hw_def Let_def split_beta)

lemma trigger_arp_regs: "regs_only rs (trigger_arp_cache_modified rs)"
  by (simp add: trigger_arp_cache_modified_def write_arp_cache_to_hw_regs)

lemma init_hardware_empty:
  assumes "rs_rtable rs = []"
  shows "\<exists>rs'. init_hardware rs = Some rs' \<and> regs_only rs rs'"
proof -
  have rows: "\<exists>rs'. write_rtable_rows [] is m = Some rs'" for "is" and m :: router_state
    by (induction "is" arbitrary: m) auto
  let ?m = "write_arp_cache_to_hw rs"
  have "rs_rtable ?m = []"
    using regs_only_fields(3) [OF write_arp_cache_to_hw_regs [of rs]] assms by simp
  then have "init_hardware rs = write_rtable_rows [] [0..<lpm_tcam_width (rs_hw ?m)] ?m"
    unfolding init_hardware_def write_rtable_to_hw_def next_active_def by simp
  moreover obtain rs' where "write_rtable_rows [] [0..<lpm_tcam_width (rs_hw ?m)] ?m = Some rs'"
    using rows [of "[0..<lpm_tcam_width (rs_hw ?m)]" ?m] by (elim exE)
  ultimately have rs': "init_hardware rs = Some rs'" by (rule trans)
  then have "regs_only rs rs'"
    unfolding init_hardware_def by (rule regs_only_trans [OF write_arp_cache_to_hw_regs write_rtable_to_hw_regs])
  with rs' show ?thesis by blast
qed

text \<open>Adding a filter changes the filters and the registers.\<close>

lemma add_local_ip_filter_frame:
  assumes "strcmp_result strcmp"
  shows "\<exists>rc l m. add_local_ip_filter strcmp rs ip name = Some (rc, m) \<and> regs_only (rs\<lparr>rs_ip_filters := l\<rparr>) m"
proof (cases "get_local_ip_filter_by_ip rs (Some ip) \<noteq> None \<or> get_local_ip_filter_by_name rs (Some name) \<noteq> None")
  case True
  then have "add_local_ip_filter strcmp rs ip name = Some (1, rs)" by (simp add: add_local_ip_filter_def)
  moreover have "regs_only (rs\<lparr>rs_ip_filters := rs_ip_filters rs\<rparr>) rs" by simp
  ultimately show ?thesis by blast
next
  case False
  let ?f = "rs_ip_filters rs @ [\<lparr>lif_ip = ip, lif_name = take (LOCAL_IP_FILTER_ENTRY_NAME_LEN - 1) name\<rparr>]"
  obtain l where l: "bubble_sort (\<lambda>a b. strcmp (lif_name a) (lif_name b) = 1) ?f = Some l"
    using strcmp_result.filters_permutes [OF assms, of ?f] by auto
  define m where "m = (let rs = rs\<lparr>rs_ip_filters := l\<rparr>
    in if rs_is_netfpga rs then write_filter_rows l [0..<dest_ip_cam_width (rs_hw rs)] rs else rs)"
  have "add_local_ip_filter strcmp rs ip name = Some (0, m)"
    using False l by (simp add: add_local_ip_filter_def trigger_local_ip_filters_change_def m_def Let_def)
  moreover have "regs_only (rs\<lparr>rs_ip_filters := l\<rparr>) m"
    by (simp add: m_def Let_def write_filter_rows_regs)
  ultimately show ?thesis by blast
qed

subsection \<open>The interfaces of the hardware file\<close>

definition new_iface :: "sr_vns_if \<Rightarrow> iface_entry" where
  "new_iface i = \<lparr>if_name = vns_name i, if_addr = vns_addr i, if_ip = vns_ip i, if_mask = vns_mask i,
     if_speed = vns_speed i, if_is_active = True, if_last_sent_hello = 0, if_nbr_routers = [], if_is_wan = 0\<rparr>"

lemma regs_only_filters:
  assumes "regs_only rs m"
  shows "regs_only (rs\<lparr>rs_ip_filters := l\<rparr>) (m\<lparr>rs_ip_filters := l\<rparr>)"
proof -
  from regs_only_eq [OF assms] obtain g where "m = rs\<lparr>rs_regs := g\<rparr>" by blast
  then show ?thesis by (simp add: regs_only_def)
qed

lemma init_add_interface_frame:
  assumes strcmp: "strcmp_result strcmp" and name: "vns_name i = ETH0 \<or> vns_name i = ETH1"
  shows "\<exists>l m. init_add_interface strcmp rs i = Some m \<and> regs_only (rs\<lparr>rs_ip_filters := l,
    rs_if_list := rs_if_list rs @ [new_iface i],
    rs_router_id := if vns_name i = ETH0 then vns_ip i else rs_router_id rs\<rparr>) m"
proof -
  let ?r = "(if vns_name i = ETH0 then rs\<lparr>rs_router_id := vns_ip i\<rparr> else rs)\<lparr>rs_if_list := rs_if_list rs @ [new_iface i]\<rparr>"
  obtain port where port: "getPortNumber (vns_name i) = Some port"
    using name by (cases "vns_name i = ETH0") (auto simp: getPortNumber_def)
  define n where "n = (if rs_is_netfpga ?r \<and> port < 4
    then writeReg (MAC_LOW (unat port)) (mac_lo (vns_addr i)) (writeReg (MAC_HI (unat port)) (mac_hi (vns_addr i)) ?r) else ?r)"
  have n: "regs_only ?r n" by (simp add: n_def)
  from add_local_ip_filter_frame [OF strcmp, of n] obtain rc l m where
    m: "add_local_ip_filter strcmp n (vns_ip i) (vns_name i) = Some (rc, m)" "regs_only (n\<lparr>rs_ip_filters := l\<rparr>) m"
    by blast
  have "init_add_interface strcmp rs i = Some m"
    using name m(1) port
    by (auto simp: init_add_interface_def new_iface_def n_def ETH0_def ETH1_def IF_LEN_def strncmp_eq_def Let_def
        split: if_splits)
  moreover have "regs_only (?r\<lparr>rs_ip_filters := l\<rparr>) (n\<lparr>rs_ip_filters := l\<rparr>)"
    by (rule regs_only_filters [OF n])
  moreover have "regs_only (rs\<lparr>rs_ip_filters := l, rs_if_list := rs_if_list rs @ [new_iface i],
      rs_router_id := if vns_name i = ETH0 then vns_ip i else rs_router_id rs\<rparr>) (?r\<lparr>rs_ip_filters := l\<rparr>)"
    by (simp add: regs_only_def)
  ultimately show ?thesis using regs_only_trans m(2) by blast
qed

text \<open>A line of the hardware file in the documented format.\<close>

definition hw_line :: "sr_vns_if \<Rightarrow> string" where
  "hw_line i = vns_name i @ CHR '' '' # inet_ntop (vns_ip i) @ CHR '' '' # inet_ntop (vns_mask i) @
     CHR '' '' # show_mac (vns_addr i) @ [nl]"

definition vns_ok :: "sr_vns_if \<Rightarrow> bool" where
  "vns_ok i \<longleftrightarrow> (vns_name i = ETH0 \<or> vns_name i = ETH1) \<and> length (vns_addr i) = 6 \<and> vns_speed i = 0"

lemma hw_line_fields:
  assumes "vns_ok i"
  shows "take 1 (hw_line i) \<noteq> ''#''"
    and "hardware_loop strcmp (hw_line i # fp) rs = init_add_interface strcmp rs i \<bind> hardware_loop strcmp fp"
    and "\<exists>w. hw_line i = w @ [nl] \<and> nl \<notin> set w \<and> length w < 1023"
proof -
  have name: "plain_word (vns_name i)" "length (vns_name i) < SR_NAMELEN" "length (vns_name i) \<le> 4"
      "take 1 (vns_name i) = ''e''" and addr: "length (vns_addr i) = 6"
    using assms by (auto simp: vns_ok_def plain_word_def is_space_def ETH0_def ETH1_def SR_NAMELEN_def)
  show hash: "take 1 (hw_line i) \<noteq> ''#''" using name(3,4) by (cases "vns_name i") (simp_all add: hw_line_def)
  have ip: "plain_word (inet_ntop a)" "length (inet_ntop a) < SR_NAMELEN" for a
    using length_inet_ntop [of a] by (simp_all add: SR_NAMELEN_def)
  have mac: "plain_word (show_mac (vns_addr i))" "length (show_mac (vns_addr i)) < SR_NAMELEN"
      "length (show_mac (vns_addr i)) = 17"
    using show_mac_word [OF addr] by (simp_all add: SR_NAMELEN_def)
  have vns: "\<lparr>vns_name = vns_name i, vns_addr = vns_addr i, vns_ip = vns_ip i, vns_mask = vns_mask i, vns_speed = 0\<rparr> = i"
    using assms by (cases i) (simp add: vns_ok_def)
  note fields = copy_next_field_word(1) [OF name(1,2)] copy_next_field_word(2) [OF ip] copy_next_field_word(2) [OF mac(1,2)]
  show "hardware_loop strcmp (hw_line i # fp) rs = init_add_interface strcmp rs i \<bind> hardware_loop strcmp fp"
    unfolding hardware_loop.simps if_not_P [OF hash]
    by (simp add: hw_line_def fields nl_space asci_to_ether_show [OF addr] vns)
  let ?w = "vns_name i @ CHR '' '' # inet_ntop (vns_ip i) @ CHR '' '' # inet_ntop (vns_mask i) @
     CHR '' '' # show_mac (vns_addr i)"
  have "nl \<notin> set ?w" using name(1) ip(1) mac(1) plain_word_no_nl by (auto simp: nl_def)
  moreover have "length ?w < 1023"
    using name(3) mac(3) length_inet_ntop [of "vns_ip i"] length_inet_ntop [of "vns_mask i"] by simp
  moreover have "hw_line i = ?w @ [nl]" by (simp add: hw_line_def)
  ultimately show "\<exists>w. hw_line i = w @ [nl] \<and> nl \<notin> set w \<and> length w < 1023" by blast
qed

text \<open>The router identifier is the address of the last \<^verbatim>\<open>eth0\<close>.\<close>

definition own_id :: "sr_vns_if list \<Rightarrow> u32 \<Rightarrow> u32" where
  "own_id = fold (\<lambda>i rid. if vns_name i = ETH0 then vns_ip i else rid)"

lemma sr_cpu_init_hardware_printed:
  assumes strcmp: "strcmp_result strcmp" and ok: "\<forall>i\<in>set ifs. vns_ok i"
  shows "\<exists>l m. sr_cpu_init_hardware strcmp rs (Some (concat (map hw_line ifs))) = Some (0, m) \<and>
    regs_only (rs\<lparr>rs_ip_filters := l, rs_if_list := rs_if_list rs @ map new_iface ifs,
      rs_router_id := own_id ifs (rs_router_id rs)\<rparr>) m"
proof -
  have "read_lines 1024 (concat (map hw_line ifs)) = map hw_line ifs"
    by (rule read_lines_concat) (use ok hw_line_fields(3) in auto)
  moreover have "\<exists>l m. hardware_loop strcmp (map hw_line ifs) rs = Some (0, m) \<and>
    regs_only (rs\<lparr>rs_ip_filters := l, rs_if_list := rs_if_list rs @ map new_iface ifs,
      rs_router_id := own_id ifs (rs_router_id rs)\<rparr>) m"
    using ok
  proof (induction ifs arbitrary: rs)
    case Nil
    have "regs_only (rs\<lparr>rs_ip_filters := rs_ip_filters rs, rs_if_list := rs_if_list rs @ map new_iface [],
      rs_router_id := own_id [] (rs_router_id rs)\<rparr>) rs" by (simp add: own_id_def)
    then show ?case by fastforce
  next
    case (Cons i ifs)
    then obtain l n where n: "init_add_interface strcmp rs i = Some n" "regs_only (rs\<lparr>rs_ip_filters := l,
        rs_if_list := rs_if_list rs @ [new_iface i],
        rs_router_id := if vns_name i = ETH0 then vns_ip i else rs_router_id rs\<rparr>) n"
      using init_add_interface_frame [OF strcmp] by (metis list.set_intros(1) vns_ok_def)
    from regs_only_eq [OF n(2)] obtain g where g: "n = rs\<lparr>rs_ip_filters := l, rs_if_list := rs_if_list rs @ [new_iface i],
        rs_router_id := if vns_name i = ETH0 then vns_ip i else rs_router_id rs, rs_regs := g\<rparr>" by blast
    from Cons.IH [of n] Cons.prems obtain l' m where m: "hardware_loop strcmp (map hw_line ifs) n = Some (0, m)"
        "regs_only (n\<lparr>rs_ip_filters := l', rs_if_list := rs_if_list n @ map new_iface ifs,
          rs_router_id := own_id ifs (rs_router_id n)\<rparr>) m" by auto
    have "hardware_loop strcmp (map hw_line (i # ifs)) rs = Some (0, m)"
      using hw_line_fields(2) [of i] Cons.prems n(1) m(1) by simp
    moreover have "regs_only (rs\<lparr>rs_ip_filters := l', rs_if_list := rs_if_list rs @ map new_iface (i # ifs),
        rs_router_id := own_id (i # ifs) (rs_router_id rs)\<rparr>) m"
      by (rule regs_only_trans [OF _ m(2)]) (simp add: g regs_only_def own_id_def)
    ultimately show ?case by blast
  qed
  ultimately show ?thesis by (simp add: sr_cpu_init_hardware_def)
qed

subsection \<open>The routing table file\<close>

definition route_file_line :: "rtable_entry \<Rightarrow> string" where
  "route_file_line re = inet_ntop (re_ip re) @ CHR '' '' # inet_ntop (re_gw re) @ CHR '' '' #
     inet_ntop (re_mask re) @ CHR '' '' # re_iface re @ [nl]"

definition static_route :: "rtable_entry \<Rightarrow> bool" where
  "static_route re \<longleftrightarrow> plain_word (re_iface re) \<and> length (re_iface re) < IF_LEN \<and> re_is_static re \<and> re_is_active re"

lemma read_route_file_line:
  assumes "static_route re"
  shows "read_rtable_line (route_file_line re) = Some re"
proof -
  have name: "plain_word (re_iface re)" "take IF_LEN (re_iface re) = re_iface re"
    using assms by (simp_all add: static_route_def)
  have start: "re_iface re @ [nl] \<noteq> []" "\<not> is_space (hd (re_iface re @ [nl]))"
    using plain_word_append [OF name(1), of "[nl]"] by simp_all
  have "sscanf [Word, Lit CHR '' '', Word, Lit CHR '' '', Word, Lit CHR '' '', Word] (route_file_line re) =
      [Str (inet_ntop (re_ip re)), Str (inet_ntop (re_gw re)), Str (inet_ntop (re_mask re)), Str (re_iface re)]"
    unfolding route_file_line_def sscanf_word_space [OF plain_word_ntop ntop_start] sscanf_word_space [OF plain_word_ntop start]
    by (subst sscanf_word(1) [OF name(1)]) (simp_all add: nl_space)
  then show ?thesis using assms by (simp add: read_rtable_line_def name static_route_def)
qed

lemma route_file_line_ends:
  assumes "static_route re"
  shows "\<exists>w. route_file_line re = w @ [nl] \<and> nl \<notin> set w \<and> length w < 1023"
proof -
  let ?w = "inet_ntop (re_ip re) @ CHR '' '' # inet_ntop (re_gw re) @ CHR '' '' #
     inet_ntop (re_mask re) @ CHR '' '' # re_iface re"
  have name: "plain_word (re_iface re)" "length (re_iface re) < 32"
    using assms by (simp_all add: static_route_def IF_LEN_def)
  have "nl \<notin> set ?w" using name(1) plain_word_ntop plain_word_no_nl by (auto simp: nl_def)
  moreover have "length ?w < 1023"
    using name(2) length_inet_ntop [of "re_ip re"] length_inet_ntop [of "re_gw re"] length_inet_ntop [of "re_mask re"]
    by simp
  moreover have "route_file_line re = ?w @ [nl]" by (simp add: route_file_line_def)
  ultimately show ?thesis by blast
qed

lemma read_rtable_printed:
  assumes "\<forall>re\<in>set routes. static_route re"
  shows "read_rtable (read_lines 1024 (concat (map route_file_line routes))) = Some routes"
proof -
  have "read_lines 1024 (concat (map route_file_line routes)) = map route_file_line routes"
    by (rule read_lines_concat) (use assms route_file_line_ends in auto)
  moreover have "read_rtable (map route_file_line routes) = Some routes"
    using assms by (induction routes) (simp_all add: read_route_file_line)
  ultimately show ?thesis by simp
qed

definition default_link :: pwospf_interface where
  "default_link = \<lparr>pi_subnet = 0, pi_mask = 0, pi_router_id = 0, pi_is_active = False\<rparr>"

definition default_links :: "rtable_entry list \<Rightarrow> pwospf_interface list" where
  "default_links routes = (if \<exists>re\<in>set routes. re_ip re = 0 \<and> re_mask re = 0 then [default_link] else [])"

lemma default_route_links:
  assumes "\<forall>re\<in>set routes. static_route re"
  shows "default_route_present (rs\<lparr>rs_rtable := routes\<rparr>) =
    (case default_links routes of [] \<Rightarrow> None | d # _ \<Rightarrow> Some d)"
proof (cases "find (\<lambda>re. re_is_static re \<and> re_ip re = 0 \<and> re_mask re = 0) routes")
  case None
  with assms show ?thesis
    by (auto simp: default_route_present_def default_links_def find_None_iff static_route_def)
next
  case (Some re)
  then have "re \<in> set routes" "re_ip re = 0" "re_mask re = 0" by (auto dest: find_SomeD)
  with Some show ?thesis by (auto simp: default_route_present_def default_links_def default_link_def)
qed

subsection \<open>The state after the start\<close>

definition our_router :: "int \<Rightarrow> sr_vns_if list \<Rightarrow> rtable_entry list \<Rightarrow> pwospf_router" where
  "our_router now ifs routes =
     \<lparr>r_router_id = own_id ifs 0, r_area_id = PWOSPF_AREA_ID, r_seq = 0, r_last_update = now, r_distance = 0,
      r_shortest_path_found = False, r_interface_list = map (own_link \<circ> new_iface) ifs @ default_links routes,
      r_prev_router = None\<rparr>"

definition started :: "int \<Rightarrow> sr_vns_if list \<Rightarrow> rtable_entry list \<Rightarrow> router_state \<Rightarrow> bool" where
  "started now ifs routes rs \<longleftrightarrow>
     rs_if_list rs = map new_iface ifs \<and> rs_rtable rs = routes \<and> rs_router_id rs = own_id ifs 0 \<and>
     rs_router_list rs = [our_router now ifs routes] \<and> rs_arp_cache rs = [] \<and> rs_arp_queue rs = [] \<and>
     rs_nat_table rs = [] \<and> rs_sping_queue rs = [] \<and> rs_lsu_queue rs = [] \<and> rs_sent rs = [] \<and> rs_dijkstra_dirty rs \<and>
     rs_is_netfpga rs \<and> rs_hello_interval rs = PWOSPF_NEIGHBOR_TIMEOUT \<and> rs_lsu_interval rs = PWOSPF_LSUINT \<and>
     rs_lsu_broadcast rs \<and> rs_arp_ttl rs = INITIAL_ARP_TIMEOUT"

lemma sr_init_printed:
  assumes strcmp: "strcmp_result strcmp"
    and ifs: "\<forall>i\<in>set ifs. vns_ok i" and routes: "\<forall>re\<in>set routes. static_route re"
  shows "\<exists>rs cmds. sr_init strcmp now hw (Some (concat (map hw_line ifs)))
      (Some (concat (map route_file_line routes))) = Some (rs, cmds) \<and> init_cli strcmp = Some cmds \<and>
    started now ifs routes rs"
proof -
  let ?z = "(zero_state hw)\<lparr>rs_area_id := PWOSPF_AREA_ID, rs_arp_ttl := INITIAL_ARP_TIMEOUT,
    rs_nat_timeout := 120, rs_is_netfpga := True\<rparr>"
  have "rs_rtable ?z = []" by (simp add: zero_state_def)
  from init_hardware_empty [OF this] obtain a where a: "init hw = Some a" "regs_only ?z a" by (auto simp: init_def)
  from sr_cpu_init_hardware_printed [OF strcmp ifs, of a] obtain l b where
    b: "sr_cpu_init_hardware strcmp a (Some (concat (map hw_line ifs))) = Some (0, b)"
      "regs_only (a\<lparr>rs_ip_filters := l, rs_if_list := rs_if_list a @ map new_iface ifs,
        rs_router_id := own_id ifs (rs_router_id a)\<rparr>) b" by blast
  obtain g where "a = ?z\<lparr>rs_regs := g\<rparr>" using regs_only_eq [OF a(2)] by blast
  moreover obtain h where "b = a\<lparr>rs_ip_filters := l, rs_if_list := rs_if_list a @ map new_iface ifs,
        rs_router_id := own_id ifs (rs_router_id a), rs_regs := h\<rparr>"
    using regs_only_eq [OF b(2)] by blast
  ultimately have b': "b = (zero_state hw)\<lparr>rs_area_id := PWOSPF_AREA_ID, rs_arp_ttl := INITIAL_ARP_TIMEOUT,
      rs_nat_timeout := 120, rs_is_netfpga := True, rs_ip_filters := l, rs_if_list := map new_iface ifs,
      rs_router_id := own_id ifs 0, rs_regs := h\<rparr>" by (simp add: zero_state_def)
  let ?r0 = "(our_router now ifs routes)\<lparr>r_interface_list := map (own_link \<circ> new_iface) ifs\<rparr>"
  define c where "c = b\<lparr>rs_router_list := [?r0]\<rparr>"
  have c: "init_router_list now b = Some c"
    by (simp add: init_router_list_def c_def b' zero_state_def our_router_def)
  let ?d = "c\<lparr>rs_rtable := routes, rs_router_list := [our_router now ifs routes], rs_dijkstra_dirty := True\<rparr>"
  have own: "rs_router_id c = own_id ifs 0" "rs_router_list c = [?r0]" "rs_rtable c = []"
    by (simp_all add: c_def b' zero_state_def)
  have d: "init_rtable c (Some (concat (map route_file_line routes))) = Some ?d"
  proof (cases "default_links routes")
    case Nil
    then have "our_router now ifs routes = ?r0" by (simp add: our_router_def)
    then show ?thesis
      using default_route_links [OF routes, of c] read_rtable_printed [OF routes]
      by (simp add: init_rtable_def own Nil dijkstra_trigger_def)
  next
    case (Cons e es)
    then have "es = []" by (auto simp: default_links_def split: if_splits)
    then have r: "(our_router now ifs routes)\<lparr>r_interface_list := map (own_link \<circ> new_iface) ifs @ [e]\<rparr> =
        our_router now ifs routes"
      using Cons by (simp add: our_router_def)
    have id: "r_router_id ?r0 = own_id ifs 0" by (simp add: our_router_def)
    show ?thesis
      using default_route_links [OF routes, of c] read_rtable_printed [OF routes]
      by (simp add: init_rtable_def own Cons dijkstra_trigger_def get_router_by_rid_def id upd_router_def r)
  qed
  let ?e = "?d\<lparr>rs_hello_interval := PWOSPF_NEIGHBOR_TIMEOUT, rs_lsu_interval := PWOSPF_LSUINT, rs_lsu_broadcast := True\<rparr>"
  from add_local_ip_filter_frame [OF strcmp, of ?e "w32 224 0 0 5" "''pwospf''"] obtain rc m n where
    e: "add_local_ip_filter strcmp ?e (w32 224 0 0 5) ''pwospf'' = Some (rc, n)" "regs_only (?e\<lparr>rs_ip_filters := m\<rparr>) n"
    by blast
  have "rs_is_netfpga ?e" by (simp add: c_def b')
  then have ospf: "init_ospf strcmp ?d = Some n" by (simp add: init_ospf_def Let_def e(1))
  obtain cmds where cmds: "init_cli strcmp = Some cmds" using strcmp_result.init_cli_permutes [OF strcmp] by blast
  have "sr_init strcmp now hw (Some (concat (map hw_line ifs))) (Some (concat (map route_file_line routes))) = Some (n, cmds)"
    by (simp add: sr_init_def a(1) b(1) c d cmds ospf)
  moreover have "started now ifs routes n"
    unfolding started_def by (subst regs_only_eq [OF e(2)], simp add: c_def b' zero_state_def)+
  ultimately show ?thesis using cmds by blast
qed


definition hw_ifs :: "sr_vns_if list" where
  "hw_ifs = [\<lparr>vns_name = ''eth0'', vns_addr = [0, 0x4e, 0x46, 0x31, 0x30, 0], vns_ip = 0x0100000a,
      vns_mask = 0x00ffffff, vns_speed = 0\<rparr>,
    \<lparr>vns_name = ''eth1'', vns_addr = [0, 0x4e, 0x46, 0x31, 0x30, 1], vns_ip = 0x0101000a,
      vns_mask = 0x00ffffff, vns_speed = 0\<rparr>]"

definition default_routes :: "rtable_entry list" where
  "default_routes = [\<lparr>re_ip = 0, re_gw = 0x0200000a, re_mask = 0, re_iface = ''eth0'',
     re_is_static = True, re_is_active = True\<rparr>]"

lemma hw_ifs_ok: "\<forall>i\<in>set hw_ifs. vns_ok i" "\<forall>re\<in>set default_routes. static_route re"
  by (simp_all add: hw_ifs_def vns_ok_def ETH0_def ETH1_def default_routes_def static_route_def plain_word_def
      is_space_def IF_LEN_def)


end
