(* ===== verification/Router_System.thy ===== *)
theory Router_System
  imports Or_Init Or_Www
begin

section \<open>The router as a whole\<close>

text \<open>
  The events of the running router as one step relation: frames arrive, the TCP stack sends, the
  threads of the ARP code, the protocol, the route computation and the pings make their rounds,
  and clients send lines and requests to the web server. The lemmas show what every event keeps, and that from the state
  after the start the invariants of the tables hold for ever.
\<close>

subsection \<open>What an event keeps\<close>

text \<open>One entry per next hop in the ARP queue, each with one to five requests sent.\<close>

definition requests_ok :: "router_state \<Rightarrow> bool" where
  "requests_ok rs \<longleftrightarrow> distinct (map aqe_next_hop (rs_arp_queue rs)) \<and>
     (\<forall>a\<in>set (rs_arp_queue rs). 1 \<le> aqe_requests a \<and> aqe_requests a \<le> 5)"

definition keeps :: "router_state \<Rightarrow> router_state \<Rightarrow> bool" where
  "keeps rs rs' \<longleftrightarrow> map if_name (rs_if_list rs') = map if_name (rs_if_list rs) \<and>
     rs_router_id rs' = rs_router_id rs \<and> (routers_inv rs \<longrightarrow> routers_inv rs') \<and>
     (arp_cache_ok rs \<longrightarrow> arp_cache_ok rs') \<and> (requests_ok rs \<longrightarrow> requests_ok rs')"

lemma keeps_refl [simp]: "keeps rs rs"
  by (simp add: keeps_def)

lemma keeps_trans: "keeps rs m \<Longrightarrow> keeps m rs' \<Longrightarrow> keeps rs rs'"
  by (simp add: keeps_def)

text \<open>The tables that the invariants are about, apart from the link state database.\<close>

definition tables :: "router_state \<Rightarrow> arp_cache_entry list \<times> arp_queue_entry list \<times> string list" where
  "tables rs = (rs_arp_cache rs, rs_arp_queue rs, map if_name (rs_if_list rs))"

lemma keeps_tables:
  assumes "tables rs' = tables rs" and "ids_step rs rs'"
  shows "keeps rs rs'"
proof -
  have "arp_cache_ok rs' = arp_cache_ok rs" "requests_ok rs' = requests_ok rs"
      "map if_name (rs_if_list rs') = map if_name (rs_if_list rs)"
    using assms(1) by (simp_all add: tables_def arp_cache_ok_def requests_ok_def)
  moreover have "rs_router_id rs' = rs_router_id rs" using assms(2) by (simp add: ids_step_def)
  ultimately show ?thesis using ids_step_inv [OF assms(2)] by (simp add: keeps_def)
qed

lemma keeps_same: "tables rs' = tables rs \<Longrightarrow> router_ids rs' = router_ids rs \<Longrightarrow> keeps rs rs'"
  by (intro keeps_tables ids_step_same)

subsection \<open>The protocol\<close>

lemma upd_router_tables [simp]: "tables (upd_router rid f rs) = tables rs"
  by (simp add: tables_def upd_router_def)

lemma upd_iface_tables:
  assumes "\<And>i. if_name (f i) = if_name i"
  shows "tables (upd_iface name f rs) = tables rs"
proof -
  have "map if_name (upd_first P f l) = map if_name l" for P l
    by (induction l) (simp_all add: assms)
  then show ?thesis by (simp add: tables_def upd_iface_def)
qed

lemma broadcast_tables [simp]: "tables (broadcast_pwospf_lsu_packet rs p src) = tables rs"
  by (simp add: tables_def broadcast_lsu_queue)

lemma rebroadcast_tables [simp]: "tables (rebroadcast_lsu rs p ttl) = tables rs"
  by (simp add: rebroadcast_lsu_def Let_def split_beta)

lemma start_flood_tables: "start_lsu_bcast_flood now rs = Some rs' \<Longrightarrow> tables rs' = tables rs"
  by (auto simp: start_lsu_bcast_flood_def construct_pwospf_lsu_packet_def Let_def split_beta bind_eq_Some_conv
      split: if_splits)

lemma propagate_tables:
  assumes "propagate_pwospf_changes now rs = Some rs'"
  shows "tables rs' = tables rs"
  using assms unfolding propagate_pwospf_changes_def Let_def dijkstra_trigger_def
  by (drule_tac start_flood_tables) (simp add: tables_def)

lemma regs_only_tables: "regs_only rs rs' \<Longrightarrow> tables rs' = tables rs"
  by (simp add: tables_def regs_only_fields)

lemma trigger_rtable_tables: "trigger_rtable_modified rs = Some rs' \<Longrightarrow> tables rs' = tables rs"
  by (auto simp: trigger_rtable_modified_def bind_eq_Some_conv Let_def tables_def
      split: if_splits dest!: write_rtable_to_hw_regs dest: regs_only_fields)

lemma change_routes_tables:
  "activate_routes rs ifc = Some (c, rs') \<Longrightarrow> tables rs' = tables rs"
  "deactivate_routes rs ifc = Some (c, rs') \<Longrightarrow> tables rs' = tables rs"
  by (auto simp: activate_routes_def deactivate_routes_def bind_eq_Some_conv dest!: trigger_rtable_tables)
     (simp_all add: tables_def)

lemma hello_packet_tables:
  assumes "process_pwospf_hello_packet now rs p ifc = Some rs'"
  shows "tables rs' = tables rs"
  using assms unfolding process_pwospf_hello_packet_def Let_def
  by (auto simp: bind_eq_Some_conv upd_iface_tables split: if_splits dest!: propagate_tables)

lemma lsu_packet_tables:
  assumes "process_pwospf_lsu_packet now rs p = Some rs'"
  shows "tables rs' = tables rs"
proof -
  have new: "tables (add_new_router_neighbor now rs p) = tables rs"
    by (simp add: add_new_router_neighbor_def Let_def split_beta tables_def)
  show ?thesis
    using assms unfolding process_pwospf_lsu_packet_def Let_def
    by (auto simp: split_beta new split: if_splits option.splits dest!: propagate_tables)
qed

lemma pwospf_packet_keeps:
  assumes "process_pwospf_packet now rs p ifc = Some rs'"
  shows "keeps rs rs'"
proof (rule keeps_tables [OF _ process_packet_ids [OF assms]])
  show "tables rs' = tables rs"
    using assms by (auto simp: process_pwospf_packet_def split_beta Let_def split: if_splits
        dest: hello_packet_tables lsu_packet_tables)
qed

lemma determine_timedout_tables: "determine_timedout_interface now rs k = Some (c, rs') \<Longrightarrow> tables rs' = tables rs"
proof -
  have "map if_name (l[k := (l ! k)\<lparr>if_nbr_routers := nbrs\<rparr>]) = map if_name l" for l nbrs
    by (cases "k < length l") (simp_all add: map_update list_update_same_conv list_update_beyond not_less)
  then show "determine_timedout_interface now rs k = Some (c, rs') \<Longrightarrow> tables rs' = tables rs"
    by (auto simp: determine_timedout_interface_def Let_def bind_eq_Some_conv tables_def)
qed

lemma send_packet_tables [simp]: "tables (snd (send_packet p ifc rs)) = tables rs"
  by (simp add: send_packet_pad tables_def)

lemma hello_loop_tables: "hello_loop now ks c rs = Some (c', rs') \<Longrightarrow> tables rs' = tables rs"
proof (induction now ks c rs rule: hello_loop.induct)
  case (2 now k ks c rs)
  show ?case
  proof (cases "if_is_active (rs_if_list rs ! k)")
    case True
    let ?s = "snd (send_packet (hello_frame rs (rs_if_list rs ! k)) (if_name (rs_if_list rs ! k)) rs)"
    let ?m = "?s\<lparr>rs_if_list := (rs_if_list ?s)[k := (rs_if_list rs ! k)\<lparr>if_last_sent_hello := now\<rparr>]\<rparr>"
    from True 2(3) obtain d n where d: "determine_timedout_interface now ?m k = Some (d, n)"
      and rec: "hello_loop now ks (if d = 1 then 1 else c) n = Some (c', rs')"
      by (auto simp: Let_def bind_eq_Some_conv split_beta)
    have "tables rs' = tables n"
      by (rule 2(1) [OF refl True refl prod.collapse refl d refl rec])
    also have "\<dots> = tables ?m" by (rule determine_timedout_tables [OF d])
    also have "\<dots> = tables rs"
      by (cases "k < length (rs_if_list rs)")
         (simp_all add: tables_def send_packet_pad map_update list_update_same_conv list_update_beyond not_less)
    finally show ?thesis .
  next
    case False
    with 2(2,3) show ?thesis by (simp add: Let_def)
  qed
qed simp

lemma hello_round_keeps:
  assumes "broadcast_pwospf_hello_packet now rs = Some rs'"
  shows "keeps rs rs'"
proof (rule keeps_same [OF _ hello_round_ids [OF assms]])
  show "tables rs' = tables rs"
    using assms by (auto simp: broadcast_pwospf_hello_packet_def bind_eq_Some_conv split: if_splits
        dest!: hello_loop_tables propagate_tables)
qed

lemma lsu_round_keeps: "pwospf_lsu_step now rs = Some rs' \<Longrightarrow> keeps rs rs'"
  by (auto simp: pwospf_lsu_step_def split: option.splits if_splits
      intro: keeps_same dest: start_flood_tables start_flood_ids)

lemma flood_keeps: "start_lsu_bcast_flood now rs = Some rs' \<Longrightarrow> keeps rs rs'"
  by (rule keeps_same) (rule start_flood_tables, assumption, rule start_flood_ids)

lemma timeout_round_keeps:
  assumes "pwospf_lsu_timeout_step now rs = Some rs'"
  shows "keeps rs rs'"
proof (rule keeps_tables [OF _ timeout_round_ids [OF assms]])
  show "tables rs' = tables rs"
    using assms by (auto simp: pwospf_lsu_timeout_step_def Let_def tables_def split: if_splits
        dest!: propagate_tables)
qed

lemma routes_round_keeps:
  assumes "dijkstra_step timed_out rs = Some rs'"
  shows "keeps rs rs'"
proof (rule keeps_same [OF _ dijkstra_step_links(2) [OF assms]])
  show "tables rs' = tables rs"
    using assms by (auto simp: dijkstra_step_def Let_def bind_eq_Some_conv tables_def split: if_splits
        dest!: trigger_rtable_tables)
qed

lemma iface_change_keeps:
  assumes "iface_up now rs ifc = Some (c, rs') \<or> iface_down now rs ifc = Some (c, rs')"
  shows "keeps rs rs'"
proof (rule keeps_same)
  show "tables rs' = tables rs"
    using assms by (auto simp: iface_up_def iface_down_def Let_def bind_eq_Some_conv upd_iface_tables
        split: option.splits if_splits dest!: change_routes_tables propagate_tables)
  show "router_ids rs' = router_ids rs" using assms iface_change_ids by blast
qed

subsection \<open>Sending and the ARP queue\<close>

lemma keeps_queue:
  assumes rs': "rs' = rs\<lparr>rs_sent := s, rs_arp_queue := q\<rparr>"
    and q: "requests_ok rs \<Longrightarrow> distinct (map aqe_next_hop q) \<and> (\<forall>a\<in>set q. 1 \<le> aqe_requests a \<and> aqe_requests a \<le> 5)"
  shows "keeps rs rs'"
proof -
  have "requests_ok rs' \<longleftrightarrow> distinct (map aqe_next_hop q) \<and> (\<forall>a\<in>set q. 1 \<le> aqe_requests a \<and> aqe_requests a \<le> 5)"
    unfolding rs' requests_ok_def by simp
  then have "requests_ok rs \<longrightarrow> requests_ok rs'" using q by blast
  moreover have "arp_cache_ok rs' = arp_cache_ok rs" "router_ids rs' = router_ids rs"
      "rs_if_list rs' = rs_if_list rs" "rs_router_id rs' = rs_router_id rs"
    unfolding rs' by (simp_all add: arp_cache_ok_def router_ids_def)
  ultimately show ?thesis unfolding keeps_def routers_inv_ids by simp
qed

lemma keeps_requests:
  assumes "rs' = rs\<lparr>rs_sent := s, rs_arp_queue := q\<rparr>"
    and "map (\<lambda>a. (aqe_next_hop a, aqe_requests a)) q = map (\<lambda>a. (aqe_next_hop a, aqe_requests a)) (rs_arp_queue rs)"
  shows "keeps rs rs'"
proof (rule keeps_queue [OF assms(1)])
  have keys: "map aqe_next_hop q = map aqe_next_hop (rs_arp_queue rs)"
    using arg_cong [OF assms(2), of "map fst"] by (simp add: comp_def)
  have "map aqe_requests q = map aqe_requests (rs_arp_queue rs)"
    using arg_cong [OF assms(2), of "map snd"] by (simp add: comp_def)
  then have "aqe_requests ` set q = aqe_requests ` set (rs_arp_queue rs)" by (metis list.set_map)
  then have "(\<forall>n\<in>aqe_requests ` set q. 1 \<le> n \<and> n \<le> 5) \<longleftrightarrow> (\<forall>n\<in>aqe_requests ` set (rs_arp_queue rs). 1 \<le> n \<and> n \<le> 5)"
    by simp
  with keys show "requests_ok rs \<Longrightarrow> distinct (map aqe_next_hop q) \<and> (\<forall>a\<in>set q. 1 \<le> aqe_requests a \<and> aqe_requests a \<le> 5)"
    by (simp add: requests_ok_def)
qed

lemma keeps_sent: "keeps rs (rs\<lparr>rs_sent := s\<rparr>)"
  by (rule keeps_requests [where q = "rs_arp_queue rs"]) simp_all

lemma send_packet_keeps: "keeps rs (snd (send_packet p ifc rs))"
  by (simp add: send_packet_pad keeps_sent)

lemma send_arp_request_keeps: "send_arp_request rs tip ifc = Some rs' \<Longrightarrow> keeps rs rs'"
  by (auto simp: send_arp_request_frame keeps_sent split: option.splits)

lemma send_ip_keeps:
  assumes "send_ip now rs p hop ifc = Some (c, rs')"
  shows "keeps rs rs'"
proof (cases "get_from_arp_cache rs hop")
  case (Some ace)
  with assms show ?thesis by (auto simp: send_ip_hit keeps_sent)
next
  case miss: None
  show ?thesis
  proof (cases "get_from_arp_queue rs hop")
    case None
    then have new: "hop \<notin> aqe_next_hop ` set (rs_arp_queue rs)"
      by (simp add: get_from_arp_queue_def find_key_None)
    from assms miss None obtain s a where "rs' = rs\<lparr>rs_sent := s, rs_arp_queue := rs_arp_queue rs @ [a]\<rparr>"
        "aqe_next_hop a = hop" "aqe_requests a = 1"
      by (auto simp: send_ip_def arp_queue_add_def send_arp_request_frame arp_queue_entry_add_packet_def
          bind_eq_Some_conv Let_def split: option.splits)
    then show ?thesis by (intro keeps_queue [where q = "rs_arp_queue rs @ [a]"]) (use new in \<open>auto simp: requests_ok_def\<close>)
  next
    case (Some aqe)
    from assms miss Some have "rs' = rs\<lparr>rs_sent := rs_sent rs, rs_arp_queue :=
        upd_first (\<lambda>aqe. hop = aqe_next_hop aqe) (arp_queue_entry_add_packet p) (rs_arp_queue rs)\<rparr>"
      by (simp add: send_ip_def arp_queue_add_def)
    then show ?thesis
      by (rule keeps_requests) (rule map_upd_first, simp add: arp_queue_entry_add_packet_def)
  qed
qed

lemma head_update_keeps:
  "keeps rs (rs\<lparr>rs_arp_queue := (rs_arp_queue rs)[k := (rs_arp_queue rs ! k)\<lparr>aqe_head := h\<rparr>]\<rparr>)"
  by (rule keeps_requests [where s = "rs_sent rs"])
     (cases "k < length (rs_arp_queue rs)"; simp add: map_update list_update_same_conv list_update_beyond not_less)+

lemma remove_nth_keeps: "keeps rs (rs\<lparr>rs_arp_queue := remove_nth k (rs_arp_queue rs)\<rparr>)"
proof (rule keeps_queue [where s = "rs_sent rs"])
  have split: "map aqe_next_hop q = map aqe_next_hop (take k q @ drop k q)" for q by simp
  show "requests_ok rs \<Longrightarrow> distinct (map aqe_next_hop (remove_nth k (rs_arp_queue rs))) \<and>
      (\<forall>a\<in>set (remove_nth k (rs_arp_queue rs)). 1 \<le> aqe_requests a \<and> aqe_requests a \<le> 5)"
    unfolding requests_ok_def split [of "rs_arp_queue rs"] remove_nth_def
    by (cases "k < length (rs_arp_queue rs)")
       (auto simp: Cons_nth_drop_Suc [symmetric] dest: in_set_takeD in_set_dropD)
qed simp

lemma lsu_bcast_loop_keeps: "lsu_bcast_loop now q rs = Some rs' \<Longrightarrow> keeps rs rs'"
proof (induction now q rs arbitrary: rs' rule: lsu_bcast_loop.induct)
  case (2 now lqe cur rs)
  show ?case
  proof (cases "get_next_hop IF_LEN rs (ip_dst (lqe_packet lqe) get_ip_hdr)")
    case None
    with 2(1,3) show ?thesis by simp
  next
    case (Some h)
    with 2(3) obtain c m where m: "send_ip now rs (lqe_packet lqe) (fst h) (snd h) = Some (c, m)"
      and rec: "lsu_bcast_loop now cur m = Some rs'"
      by (auto simp: bind_eq_Some_conv split: prod.splits)
    have "keeps m rs'" by (rule 2(2) [OF Some prod.collapse m refl rec])
    with send_ip_keeps [OF m] show ?thesis by (rule keeps_trans)
  qed
qed simp

lemma bcast_round_keeps: "pwospf_lsu_bcast_step now rs = Some rs' \<Longrightarrow> keeps rs rs'"
proof -
  assume "pwospf_lsu_bcast_step now rs = Some rs'"
  then have "keeps (rs\<lparr>rs_lsu_queue := []\<rparr>) rs'" unfolding pwospf_lsu_bcast_step_def by (rule lsu_bcast_loop_keeps)
  moreover have "keeps rs (rs\<lparr>rs_lsu_queue := []\<rparr>)" by (rule keeps_same) (simp_all add: tables_def router_ids_def)
  ultimately show "keeps rs rs'" using keeps_trans by blast
qed

lemma update_arp_cache_keeps: "keeps rs (snd (update_arp_cache now rs ip mac st))"
proof -
  have "snd (update_arp_cache now rs ip mac st) = arp_put ip (mac, st, now) rs" by (simp add: arp_put_def)
  moreover have "arp_cache_ok rs \<Longrightarrow> arp_cache_ok (arp_put ip (mac, st, now) rs)" by (rule arp_table.put_invar)
  moreover have "tables (snd (update_arp_cache now rs ip mac st)) =
      (rs_arp_cache (snd (update_arp_cache now rs ip mac st)), snd (tables rs))"
    "router_ids (snd (update_arp_cache now rs ip mac st)) = router_ids rs"
    by (simp_all add: update_arp_cache_def tables_def router_ids_def trigger_arp_routers Let_def split: option.split)
  ultimately show ?thesis by (simp add: keeps_def routers_inv_ids tables_def router_ids_def requests_ok_def)
qed

lemma send_icmp_packet_keeps: "send_icmp_packet now rs p t co = Some (c, rs') \<Longrightarrow> keeps rs rs'"
  unfolding send_icmp_packet_def Let_def split_beta
  by (auto simp: bind_eq_Some_conv simp del: if_split split: option.splits dest: send_ip_keeps)

lemma send_icmp_keeps: "send_icmp now rs p t co = Some rs' \<Longrightarrow> keeps rs rs'"
  by (auto simp: send_icmp_def dest: send_icmp_packet_keeps)

lemma send_queued_entry_keeps: "keeps rs rs'" if "send_queued_entry now rs k = Some rs'"
proof (rule send_queued_entry.raw_induct [where P = "\<lambda>now rs k rs'. keeps rs rs'", OF _ that])
  fix f :: "int \<Rightarrow> router_state \<Rightarrow> nat \<Rightarrow> router_state option" and now k and rs rs' :: router_state
  assume IH: "\<And>now rs k rs'. f now rs k = Some rs' \<Longrightarrow> keeps rs rs'"
  let ?pop = "\<lambda>m. m\<lparr>rs_arp_queue := (rs_arp_queue m)[k := (rs_arp_queue m ! k)
    \<lparr>aqe_head := tl (aqe_head (rs_arp_queue m ! k))\<rparr>]\<rparr>"
  assume "(let aqe = rs_arp_queue rs ! k
      in case aqe_head aqe of
           [] \<Rightarrow> Some rs
         | packet # next_packet_node \<Rightarrow> do {
             (_, rs) \<leftarrow> send_ip now rs packet (aqe_next_hop aqe) (aqe_out_iface_name aqe);
             let rs = ?pop rs;
             (if next_packet_node = [] then Some rs else f now rs k)
           }) = Some rs'"
  then consider "rs' = rs" | c p hop ifc m where "send_ip now rs p hop ifc = Some (c, m)" "rs' = ?pop m \<or> f now (?pop m) k = Some rs'"
    by (auto simp: Let_def bind_eq_Some_conv split: list.splits if_splits)
  then show "keeps rs rs'"
  proof cases
    case 2
    have "keeps rs (?pop m)" by (rule keeps_trans [OF send_ip_keeps [OF 2(1)] head_update_keeps])
    then show ?thesis using 2(2) IH keeps_trans by blast
  qed simp
qed

lemma send_queued_loop_keeps: "keeps rs rs'" if "send_queued_loop now rs ip k = Some rs'"
proof (rule send_queued_loop.raw_induct [where P = "\<lambda>now rs ip k rs'. keeps rs rs'", OF _ that])
  fix f :: "int \<Rightarrow> router_state \<Rightarrow> u32 \<Rightarrow> nat \<Rightarrow> router_state option" and now ip k and rs rs' :: router_state
  assume IH: "\<And>now rs ip k rs'. f now rs ip k = Some rs' \<Longrightarrow> keeps rs rs'"
  let ?del = "\<lambda>m. m\<lparr>rs_arp_queue := remove_nth k (rs_arp_queue m)\<rparr>"
  let ?next = "k + 1 < length (rs_arp_queue rs)"
  let ?hit = "send_queued_entry now rs k \<bind> (\<lambda>m. if ?next then f now (?del m) ip k else Some (?del m))"
  assume run: "(if k < length (rs_arp_queue rs) then
        (let has_next = ?next
         in if ip = aqe_next_hop (rs_arp_queue rs ! k)
            then do {
              rs \<leftarrow> send_queued_entry now rs k;
              let rs = ?del rs;
              (if has_next then f now rs ip k else Some rs)
            }
            else if has_next then f now rs ip (k + 1) else Some rs)
      else Some rs) = Some rs'"
  consider "Some rs = Some rs'" | "f now rs ip (k + 1) = Some rs'" | "?hit = Some rs'"
    using run unfolding Let_def by (simp only: split: if_split_asm)
  then show "keeps rs rs'"
  proof cases
    case 2
    then show ?thesis by (rule IH)
  next
    case 3
    then obtain m where m: "send_queued_entry now rs k = Some m" "(if ?next then f now (?del m) ip k else Some (?del m)) = Some rs'"
      unfolding bind_eq_Some_conv by blast
    have "keeps rs (?del m)" by (rule keeps_trans [OF send_queued_entry_keeps [OF m(1)] remove_nth_keeps])
    moreover have "keeps (?del m) rs'" using m(2) IH by (cases ?next) auto
    ultimately show ?thesis by (rule keeps_trans)
  qed simp
qed

lemma return_packet_keeps: "return_packet now rs p = Some rs' \<Longrightarrow> keeps rs rs'"
  by (auto simp: return_packet_def split: if_splits dest: send_icmp_keeps)

lemma return_packets_keeps: "keeps rs rs'" if "return_packets now rs k = Some rs'"
proof (rule return_packets.raw_induct [where P = "\<lambda>now rs k rs'. keeps rs rs'", OF _ that])
  fix f :: "int \<Rightarrow> router_state \<Rightarrow> nat \<Rightarrow> router_state option" and now k and rs rs' :: router_state
  assume IH: "\<And>now rs k rs'. f now rs k = Some rs' \<Longrightarrow> keeps rs rs'"
  let ?pop = "\<lambda>m. m\<lparr>rs_arp_queue := (rs_arp_queue m)[k := (rs_arp_queue m ! k)
    \<lparr>aqe_head := tl (aqe_head (rs_arp_queue m ! k))\<rparr>]\<rparr>"
  assume "(case aqe_head (rs_arp_queue rs ! k) of
        [] \<Rightarrow> Some rs
      | packet # _ \<Rightarrow> do { rs \<leftarrow> return_packet now rs packet; f now (?pop rs) k }) = Some rs'"
  then consider "rs' = rs" | p m where "return_packet now rs p = Some m" "f now (?pop m) k = Some rs'"
    by (auto simp: bind_eq_Some_conv split: list.splits)
  then show "keeps rs rs'"
  proof cases
    case 2
    have "keeps rs (?pop m)" by (rule keeps_trans [OF return_packet_keeps [OF 2(1)] head_update_keeps])
    then show ?thesis using IH [OF 2(2)] keeps_trans by blast
  qed simp
qed

text \<open>A request more for an entry that has had fewer than five.\<close>

lemma request_update_keeps:
  assumes "aqe_requests (rs_arp_queue rs ! k) < 5"
  shows "keeps rs (rs\<lparr>rs_arp_queue := (rs_arp_queue rs)[k := (rs_arp_queue rs ! k)\<lparr>aqe_last_req_time := now,
    aqe_requests := aqe_requests (rs_arp_queue rs ! k) + 1\<rparr>]\<rparr>)"
proof (cases "k < length (rs_arp_queue rs)")
  case True
  let ?a = "(rs_arp_queue rs ! k)\<lparr>aqe_last_req_time := now, aqe_requests := aqe_requests (rs_arp_queue rs ! k) + 1\<rparr>"
  have keys: "map aqe_next_hop ((rs_arp_queue rs)[k := ?a]) = map aqe_next_hop (rs_arp_queue rs)"
    using True by (simp add: map_update list_update_same_conv)
  show ?thesis
  proof (rule keeps_queue [where s = "rs_sent rs"])
    assume ok: "requests_ok rs"
    have "rs_arp_queue rs ! k \<in> set (rs_arp_queue rs)" using True by simp
    with ok assms have "1 \<le> aqe_requests ?a \<and> aqe_requests ?a \<le> 5" by (auto simp: requests_ok_def)
    with ok show "distinct (map aqe_next_hop ((rs_arp_queue rs)[k := ?a])) \<and>
        (\<forall>a\<in>set ((rs_arp_queue rs)[k := ?a]). 1 \<le> aqe_requests a \<and> aqe_requests a \<le> 5)"
      unfolding keys by (auto simp: requests_ok_def dest!: set_update_subset_insert [THEN subsetD])
  qed simp
qed (simp add: list_update_beyond not_less)

lemma process_arp_queue_loop_keeps: "keeps rs rs'" if "process_arp_queue_loop now rs k = Some rs'"
proof (rule process_arp_queue_loop.raw_induct [where P = "\<lambda>now rs k rs'. keeps rs rs'", OF _ that])
  fix f :: "int \<Rightarrow> router_state \<Rightarrow> nat \<Rightarrow> router_state option" and now k and rs rs' :: router_state
  assume IH: "\<And>now rs k rs'. f now rs k = Some rs' \<Longrightarrow> keeps rs rs'"
  let ?aqe = "rs_arp_queue rs ! k"
  let ?upd = "rs\<lparr>rs_arp_queue := (rs_arp_queue rs)[k := ?aqe\<lparr>aqe_last_req_time := now,
    aqe_requests := aqe_requests ?aqe + 1\<rparr>]\<rparr>"
  let ?del = "\<lambda>m. m\<lparr>rs_arp_queue := remove_nth k (rs_arp_queue m)\<rparr>"
  let ?next = "k + 1 < length (rs_arp_queue rs)"
  let ?ask = "send_arp_request ?upd (aqe_next_hop ?aqe) (aqe_out_iface_name ?aqe) \<bind>
    (\<lambda>m. if ?next then f now m (k + 1) else Some m)"
  let ?drop = "return_packets now rs k \<bind> (\<lambda>m. if ?next then f now (?del m) k else Some (?del m))"
  assume run: "(if k < length (rs_arp_queue rs) then
        (let has_next = ?next; aqe = ?aqe
         in if now - aqe_last_req_time aqe > 1 then
              if aqe_requests aqe < 5 then do {
                let rs = rs\<lparr>rs_arp_queue := (rs_arp_queue rs)[k :=
                      aqe\<lparr>aqe_last_req_time := now, aqe_requests := aqe_requests aqe + 1\<rparr>]\<rparr>;
                rs \<leftarrow> send_arp_request rs (aqe_next_hop aqe) (aqe_out_iface_name aqe);
                (if has_next then f now rs (k + 1) else Some rs)
              }
              else do {
                rs \<leftarrow> return_packets now rs k;
                let rs = ?del rs;
                (if has_next then f now rs k else Some rs)
              }
            else if has_next then f now rs (k + 1) else Some rs)
      else Some rs) = Some rs'"
  consider "Some rs = Some rs'" | "f now rs (k + 1) = Some rs'" | "aqe_requests ?aqe < 5" "?ask = Some rs'" | "?drop = Some rs'"
    using run unfolding Let_def by (simp only: split: if_split_asm)
  then show "keeps rs rs'"
  proof cases
    case 2
    then show ?thesis by (rule IH)
  next
    case 3
    from 3(2) obtain m where m: "send_arp_request ?upd (aqe_next_hop ?aqe) (aqe_out_iface_name ?aqe) = Some m"
        "(if ?next then f now m (k + 1) else Some m) = Some rs'"
      unfolding bind_eq_Some_conv by blast
    have "keeps rs m" by (rule keeps_trans [OF request_update_keeps [OF 3(1)] send_arp_request_keeps [OF m(1)]])
    moreover have "keeps m rs'" using m(2) IH by (cases ?next) auto
    ultimately show ?thesis by (rule keeps_trans)
  next
    case 4
    then obtain m where m: "return_packets now rs k = Some m" "(if ?next then f now (?del m) k else Some (?del m)) = Some rs'"
      unfolding bind_eq_Some_conv by blast
    have "keeps rs (?del m)" by (rule keeps_trans [OF return_packets_keeps [OF m(1)] remove_nth_keeps])
    moreover have "keeps (?del m) rs'" using m(2) IH by (cases ?next) auto
    ultimately show ?thesis by (rule keeps_trans)
  qed simp
qed

lemma process_arp_reply_keeps: "process_arp_reply now rs p = Some rs' \<Longrightarrow> keeps rs rs'"
  by (auto simp: process_arp_reply_def send_queued_packets_def bind_eq_Some_conv Let_def split_beta
      intro: keeps_trans [OF update_arp_cache_keeps send_queued_loop_keeps])

lemma process_arp_packet_keeps: "process_arp_packet buf now rs p = Some rs' \<Longrightarrow> keeps rs rs'"
  by (auto simp: process_arp_packet_def process_arp_request_def send_arp_reply_def bind_eq_Some_conv Let_def
      split: option.splits if_splits intro: send_packet_keeps dest: process_arp_reply_keeps)

lemma keeps_arp_cache:
  assumes "snd (tables rs') = snd (tables rs)" "router_ids rs' = router_ids rs"
    and "arp_cache_ok rs \<Longrightarrow> arp_cache_ok rs'"
  shows "keeps rs rs'"
  using assms by (simp add: keeps_def routers_inv_ids tables_def router_ids_def requests_ok_def)

lemma trigger_arp_tables [simp]:
  "tables (trigger_arp_cache_modified rs) = tables rs" "router_ids (trigger_arp_cache_modified rs) = router_ids rs"
  by (simp_all add: tables_def router_ids_def trigger_arp_routers)

lemma arp_cache_filter_keeps: "keeps rs (rs\<lparr>rs_arp_cache := filter P (rs_arp_cache rs)\<rparr>)"
  by (rule keeps_arp_cache) (simp_all add: tables_def router_ids_def arp_cache_ok_def distinct_map_filter)

lemma trigger_arp_keeps: "keeps rs m \<Longrightarrow> keeps rs (trigger_arp_cache_modified m)"
  by (rule keeps_trans [OF _ keeps_same]) simp_all

lemma expire_arp_keeps: "keeps rs (expire_arp_cache now rs)"
  using arp_cache_filter_keeps trigger_arp_keeps
  by (simp add: expire_arp_cache_def expire_arp_loop_filter Let_def)

lemma arp_thread_step_keeps: "arp_thread_step now rs = Some rs' \<Longrightarrow> keeps rs rs'"
  unfolding arp_thread_step_def process_arp_queue_def
  by (rule keeps_trans [OF expire_arp_keeps process_arp_queue_loop_keeps])

lemma del_arp_cache_keeps: "keeps rs (snd (del_arp_cache rs ip))"
  using arp_cache_filter_keeps by (simp add: del_arp_cache_def del_arp_cache_loop_filter)

subsection \<open>Packets\<close>

lemma nat_ext_keeps: "keeps rs (snd (process_nat_ext_packet rs p))"
  by (rule keeps_same)
     (simp_all add: process_nat_ext_packet_def nat_hit_def Let_def tables_def router_ids_def split: option.split)

lemma nat_int_keeps: "process_nat_int_packet rnd now rs p ip = Some (q, rs') \<Longrightarrow> keeps rs rs'"
  by (rule keeps_same)
     (auto simp: process_nat_int_packet_def create_nat_table_entry_def nat_hit_def Let_def tables_def router_ids_def
        bind_eq_Some_conv split: option.splits if_splits)

lemma ping_reply_keeps: "keeps rs (snd (process_icmp_echo_reply_packet now rs p))"
  by (rule keeps_same) (simp_all add: process_icmp_echo_reply_packet_def tables_def router_ids_def)

lemma process_icmp_packet_keeps: "process_icmp_packet now rs p = Some rs' \<Longrightarrow> keeps rs rs'"
  by (auto simp: process_icmp_packet_def bind_eq_Some_conv icmp_consts split: if_splits
      intro: ping_reply_keeps dest: send_icmp_packet_keeps elim: keeps_trans)

lemma transport_keeps: "keeps rs (sr_transport_input p ip rs)"
  by (rule keeps_same) (simp_all add: sr_transport_input_def tables_def router_ids_def)

lemma ip_deliver_keeps: "ip_deliver now rs p ifc = Some rs' \<Longrightarrow> keeps rs rs'"
  by (auto simp: ip_deliver_def Let_def transport_keeps split: if_splits
      dest: process_icmp_packet_keeps pwospf_packet_keeps send_icmp_keeps)

lemma ip_forward_keeps:
  assumes "ip_forward rnd now rs p ifc = Some rs'"
  shows "keeps rs rs'"
proof (cases "get_next_hop IF_LEN rs (ip_dst p get_ip_hdr)")
  case None
  with assms show ?thesis by (auto simp: ip_forward_def dest: send_icmp_keeps)
next
  case (Some h)
  obtain hop out where h: "h = (hop, out)" by (cases h)
  show ?thesis
  proof (cases "strncmp_eq ifc out IF_LEN")
    case True
    with assms Some h show ?thesis by (auto simp: ip_forward_def dest: send_icmp_keeps)
  next
    case False
    from assms Some h False obtain i where i: "get_iface rs out = Some i"
      by (cases "get_iface rs out") (simp_all add: ip_forward_def)
    let ?nat = "if if_is_wan i \<noteq> 0 then process_nat_int_packet rnd now rs p (if_ip i) else Some (p, rs)"
    let ?rest = "\<lambda>q m. if ip_ttl q get_ip_hdr = 1 then send_icmp now m q ICMP_TYPE_TIME_EXCEEDED ICMP_CODE_TTL_EXCEEDED
         else do { sr_if \<leftarrow> get_iface m out;
           map_option snd (send_ip now m (ip_rewrite q (if_addr sr_if)) hop out) }"
    have "?nat \<bind> (\<lambda>(q, m). ?rest q m) = Some rs'"
      using assms Some h False i by (simp add: ip_forward_def del: if_split)
    then obtain n where n: "?nat = Some n" "(case n of (q, m) \<Rightarrow> ?rest q m) = Some rs'"
      unfolding bind_eq_Some_conv by blast
    obtain q m where q: "n = (q, m)" by (cases n)
    note m = n(1) [unfolded q] and rest = n(2) [unfolded q prod.case]
    have "keeps rs m" using m nat_int_keeps by (cases "if_is_wan i \<noteq> 0") auto
    moreover have "keeps m rs'"
      using rest by (auto simp: bind_eq_Some_conv split: if_splits dest: send_icmp_keeps send_ip_keeps)
    ultimately show ?thesis by (rule keeps_trans)
  qed
qed

lemma process_ip_packet_keeps:
  assumes "process_ip_packet rnd now rs p ifc = Some rs'"
  shows "keeps rs rs'"
proof (cases "is_packet_valid p = 0")
  case True
  with assms show ?thesis by (simp add: process_ip_packet_def)
next
  case False
  then obtain i where "get_iface rs ifc = Some i"
    using assms by (cases "get_iface rs ifc") (simp_all add: process_ip_packet_def)
  then have i: "(let (p, rs) = (if if_is_wan i = 1 then process_nat_ext_packet rs p else (p, rs))
      in (if iface_match_ip rs (ip_dst p get_ip_hdr) \<noteq> 0 then ip_deliver now rs p ifc
         else if ip_dst p get_ip_hdr = htonl PWOSPF_HELLO_TIP then process_pwospf_packet now rs p ifc
         else ip_forward rnd now rs p ifc)) = Some rs'"
    using assms False by (simp add: process_ip_packet_def del: if_split)
  define q m where "q = fst (if if_is_wan i = 1 then process_nat_ext_packet rs p else (p, rs))"
    and "m = snd (if if_is_wan i = 1 then process_nat_ext_packet rs p else (p, rs))"
  have "keeps rs m" using nat_ext_keeps by (simp add: m_def)
  moreover have "(if iface_match_ip m (ip_dst q get_ip_hdr) \<noteq> 0 then ip_deliver now m q ifc
         else if ip_dst q get_ip_hdr = htonl PWOSPF_HELLO_TIP then process_pwospf_packet now m q ifc
         else ip_forward rnd now m q ifc) = Some rs'"
    using i unfolding q_def m_def Let_def split_beta .
  then have "keeps m rs'"
    by (auto split: if_splits dest: ip_deliver_keeps pwospf_packet_keeps ip_forward_keeps)
  ultimately show ?thesis by (rule keeps_trans)
qed

lemma process_packet_keeps: "process_packet rnd buf now rs p ifc = Some rs' \<Longrightarrow> keeps rs rs'"
  by (auto simp: process_packet_def split: if_splits dest: process_ip_packet_keeps process_arp_packet_keeps)

lemma integ_ip_output_keeps: "integ_ip_output now rs payload proto src dest = Some (c, rs') \<Longrightarrow> keeps rs rs'"
  unfolding integ_ip_output_def send_ip_packet_def Let_def split_beta
  by (auto simp: bind_eq_Some_conv split: option.splits dest: send_ip_keeps)

lemma echo_request_keeps: "send_icmp_echo_request_packet now rs dst ident = Some (c, rs') \<Longrightarrow> keeps rs rs'"
  unfolding send_icmp_echo_request_packet_def Let_def split_beta
  by (auto simp: bind_eq_Some_conv split: option.splits dest: send_ip_keeps)

lemma ping_cleanup_keeps: "keeps rs (sping_queue_cleanup_step now rs)"
  by (rule keeps_same) (simp_all add: sping_queue_cleanup_step_def tables_def router_ids_def)

subsection \<open>Commands\<close>

definition cli_keeps :: "router_state \<Rightarrow> cli_result \<Rightarrow> bool" where
  "cli_keeps rs r \<longleftrightarrow> (\<forall>out rs'. r = Some (out, rs') \<longrightarrow> keeps rs rs')"

lemma cli_keeps_simps [simp]:
  "cli_keeps rs None" "cli_keeps rs (Some (out, m)) = keeps rs m"
  by (simp_all add: cli_keeps_def)

lemma cli_keeps_bind: "(\<And>a. x = Some a \<Longrightarrow> cli_keeps rs (f a)) \<Longrightarrow> cli_keeps rs (x \<bind> f)"
  by (cases x) simp_all

lemma cli_keeps_cases:
  "cli_keeps rs x \<Longrightarrow> cli_keeps rs y \<Longrightarrow> cli_keeps rs (if b then x else y)"
  "cli_keeps rs x \<Longrightarrow> (\<And>y. cli_keeps rs (f y)) \<Longrightarrow> cli_keeps rs (case z of None \<Rightarrow> x | Some y \<Rightarrow> f y)"
  "cli_keeps rs x \<Longrightarrow> (\<And>y ys. cli_keeps rs (g y ys)) \<Longrightarrow> cli_keeps rs (case zs of [] \<Rightarrow> x | y # ys \<Rightarrow> g y ys)"
  "(\<And>s. cli_keeps rs (h s)) \<Longrightarrow> (\<And>n. cli_keeps rs (k n)) \<Longrightarrow>
     cli_keeps rs (case c of Str s \<Rightarrow> h s | Num n \<Rightarrow> k n)"
  by (simp_all split: option.split list.split scanned.split)

lemma trigger_rtable_keeps: "trigger_rtable_modified rs = Some rs' \<Longrightarrow> keeps rs rs'"
  by (intro keeps_same trigger_rtable_tables trigger_rtable_ids)

lemma rtable_keeps: "keeps rs (rs\<lparr>rs_rtable := l\<rparr>)"
  by (rule keeps_same) (simp_all add: tables_def router_ids_def)

lemma add_route_keeps: "add_route rs dest gw msk ifc = Some (c, rs') \<Longrightarrow> keeps rs rs'"
  by (auto simp: add_route_def bind_eq_Some_conv Let_def intro: keeps_trans [OF rtable_keeps trigger_rtable_keeps])

lemma del_route_keeps: "del_route rs dest msk = Some (c, rs') \<Longrightarrow> keeps rs rs'"
  by (auto simp: del_route_def bind_eq_Some_conv Let_def split_beta split: if_splits
      intro: rtable_keeps keeps_trans [OF rtable_keeps trigger_rtable_keeps])

lemma cli_route_keeps:
  "cli_keeps rs (cli_ip_route_add rs cmd)" "cli_keeps rs (cli_ip_route_del rs cmd)"
proof -
  have "cli_keeps rs (add_route rs dest gw msk ifc \<bind> (\<lambda>(c, m). if c \<noteq> 0 then reply x m else reply y m))" for dest gw msk ifc x y
    by (rule cli_keeps_bind) (auto dest: add_route_keeps)
  then show "cli_keeps rs (cli_ip_route_add rs cmd)"
    unfolding cli_ip_route_add_def by (intro cli_keeps_cases) simp_all
  have "cli_keeps rs (del_route rs dest msk \<bind> (\<lambda>(c, m). Some (plural c x y, m)))" for dest msk x y
    by (rule cli_keeps_bind) (auto dest: del_route_keeps)
  then show "cli_keeps rs (cli_ip_route_del rs cmd)"
    unfolding cli_ip_route_del_def by (intro cli_keeps_cases) simp_all
qed

lemma iface_update_keeps: "keeps rs (snd (iface_update rs name ip msk))"
proof -
  have "map if_name (upd_first P (\<lambda>i. i\<lparr>if_ip := ip, if_mask := msk\<rparr>) l) = map if_name l" for P l
    by (rule map_upd_first) simp
  then show ?thesis
    by (cases "get_iface rs name") (auto intro!: keeps_same simp: iface_update_def tables_def router_ids_def)
qed

lemma cli_ip_interface_keeps: "cli_keeps rs (cli_ip_interface now rs cmd)"
proof -
  have up: "cli_keeps rs (iface_up now rs n \<bind> (\<lambda>q. Some (g q, snd q)))"
    and down: "cli_keeps rs (iface_down now rs n \<bind> (\<lambda>q. Some (g q, snd q)))" for n g
    by (rule cli_keeps_bind, auto intro: iface_change_keeps)+
  show ?thesis
    unfolding cli_ip_interface_def Let_def split_beta
    by (intro cli_keeps_cases) (simp_all add: up down iface_update_keeps)
qed

lemma writeReg_keeps [simp]: "keeps rs (writeReg r v m) \<longleftrightarrow> keeps rs m"
  by (simp add: keeps_def routers_inv_def arp_cache_ok_def requests_ok_def writeReg_def)

lemma cli_hw_keeps:
  "cli_keeps rs (cli_hw_interface_add rs cmd)" "cli_keeps rs (cli_hw_interface_del rs cmd)"
  "cli_keeps rs (cli_hw_interface_set rs cmd)" "cli_keeps rs (cli_nuke_hw_arp_cache_entry rs cmd)"
proof -
  have mac: "keeps rs (write_hw_iface_mac rs port hi lo)" for port hi lo by (simp add: write_hw_iface_mac_def)
  show "cli_keeps rs (cli_hw_interface_add rs cmd)" "cli_keeps rs (cli_hw_interface_del rs cmd)"
    "cli_keeps rs (cli_hw_interface_set rs cmd)" "cli_keeps rs (cli_nuke_hw_arp_cache_entry rs cmd)"
    unfolding cli_hw_interface_add_def cli_hw_interface_del_def cli_hw_interface_set_def set_hw_iface_def
      cli_nuke_hw_arp_cache_entry_def Let_def
    by (intro cli_keeps_cases; simp add: mac)+
qed

lemma cli_arp_keeps:
  "cli_keeps rs (cli_ip_arp_add now rs cmd)" "cli_keeps rs (cli_ip_arp_del rs cmd)"
  "cli_keeps rs (cli_nuke_arp_cache rs)" "cli_keeps rs (cli_ip_arp_set_ttl rs cmd)"
proof -
  show "cli_keeps rs (cli_ip_arp_add now rs cmd)"
    unfolding cli_ip_arp_add_def Let_def split_beta by (intro cli_keeps_cases) (simp_all add: update_arp_cache_keeps)
  show "cli_keeps rs (cli_ip_arp_del rs cmd)"
    unfolding cli_ip_arp_del_def Let_def split_beta
    by (intro cli_keeps_cases) (simp_all add: del_arp_cache_keeps trigger_arp_keeps)
  have "keeps rs (rs\<lparr>rs_arp_cache := []\<rparr>)"
    by (rule keeps_arp_cache) (simp_all add: tables_def router_ids_def arp_cache_ok_def)
  then show "cli_keeps rs (cli_nuke_arp_cache rs)"
    unfolding cli_nuke_arp_cache_def Let_def by (simp add: trigger_arp_keeps)
  have "keeps rs (rs\<lparr>rs_arp_ttl := n\<rparr>)" for n by (rule keeps_same) (simp_all add: tables_def router_ids_def)
  then show "cli_keeps rs (cli_ip_arp_set_ttl rs cmd)"
    unfolding cli_ip_arp_set_ttl_def by (intro cli_keeps_cases) simp_all
qed

lemma settings_keep:
  "keeps rs (rs\<lparr>rs_area_id := a\<rparr>)" "keeps rs (rs\<lparr>rs_hello_interval := h\<rparr>)" "keeps rs (rs\<lparr>rs_lsu_broadcast := b\<rparr>)"
  "keeps rs (rs\<lparr>rs_lsu_interval := n\<rparr>)"
  by (rule keeps_same; simp add: tables_def router_ids_def)+

lemma cli_pwospf_keeps:
  "cli_keeps rs (cli_pwospf_set_aid rs cmd)" "cli_keeps rs (cli_pwospf_set_hello rs cmd)"
  "cli_keeps rs (cli_pwospf_set_lsu_broadcast rs cmd)" "cli_keeps rs (cli_pwospf_set_lsu_interval rs cmd)"
  "cli_keeps rs (cli_pwospf_send_hello now rs)" "cli_keeps rs (cli_pwospf_send_lsu now rs)"
proof -
  show "cli_keeps rs (cli_pwospf_set_aid rs cmd)"
    unfolding cli_pwospf_set_aid_def by (intro cli_keeps_cases) (simp_all add: settings_keep)
  show "cli_keeps rs (cli_pwospf_set_hello rs cmd)" "cli_keeps rs (cli_pwospf_set_lsu_interval rs cmd)"
    unfolding cli_pwospf_set_hello_def cli_pwospf_set_lsu_interval_def Let_def split_beta by (simp_all add: settings_keep)
  show "cli_keeps rs (cli_pwospf_set_lsu_broadcast rs cmd)"
    unfolding cli_pwospf_set_lsu_broadcast_def by (intro cli_keeps_cases) (simp_all add: settings_keep)
  show "cli_keeps rs (cli_pwospf_send_hello now rs)" "cli_keeps rs (cli_pwospf_send_lsu now rs)"
    unfolding cli_pwospf_send_hello_def cli_pwospf_send_lsu_def
    by (rule cli_keeps_bind, auto intro: hello_round_keeps flood_keeps)+
qed

lemma wait_for_reply_keeps: "wait_for_reply rs ident ret wakes = Some (c, rs') \<Longrightarrow> keeps rs rs'"
proof (induction rs ident ret wakes rule: wait_for_reply.induct)
  case (1 rs ident ret wakes)
  have queue: "keeps rs (rs\<lparr>rs_sping_queue := q\<rparr>)" for q
    by (rule keeps_same) (simp_all add: tables_def router_ids_def)
  show ?case
  proof (cases "rs_sping_queue rs = [] \<or> ret = 0")
    case False
    with 1(2) show ?thesis by (subst (asm) wait_for_reply.simps) simp
  next
    case True
    show ?thesis
    proof (cases wakes)
      case Nil
      with True 1(2) show ?thesis by (subst (asm) wait_for_reply.simps) simp
    next
      case (Cons w ws)
      obtain r arrived where w: "w = (r, arrived)" by (cases w)
      let ?m = "rs\<lparr>rs_sping_queue := rs_sping_queue rs @ arrived\<rparr>"
      consider "rs' = ?m" | q where "rs' = rs\<lparr>rs_sping_queue := q\<rparr>"
        | "r \<noteq> ETIMEDOUT" "find (\<lambda>se. sping_id se = ident) (rs_sping_queue ?m) = None" "wait_for_reply ?m ident r ws = Some (c, rs')"
        using 1(2) True Cons w by (subst (asm) wait_for_reply.simps) (auto simp: Let_def split: if_splits)
      then show ?thesis
      proof cases
        case 3
        have "keeps ?m rs'" by (rule 1(1) [OF True Cons w [symmetric] refl 3(1) _ 3(3)]) (use 3(2) in simp)
        with queue show ?thesis by (rule keeps_trans)
      qed (simp_all add: queue)
    qed
  qed
qed

lemma cli_sping_keeps: "cli_keeps rs (cli_sping now ident wakes rs cmd)"
proof -
  have wait: "cli_keeps rs (wait_for_reply m ident 0 wakes \<bind> (\<lambda>(c, n). Some (g c, n)))" if "keeps rs m" for m g
    by (rule cli_keeps_bind) (auto intro: keeps_trans [OF that wait_for_reply_keeps])
  have "cli_keeps rs (send_icmp_echo_request_packet now rs dst ident \<bind> (\<lambda>(c, m).
      if c \<noteq> 0 then reply x m else wait_for_reply m ident 0 wakes \<bind> (\<lambda>(c, n). Some (g c, n))))" for dst x g
    by (rule cli_keeps_bind) (auto intro!: wait intro: echo_request_keeps)
  then show ?thesis unfolding cli_sping_def Let_def by (intro cli_keeps_cases) simp_all
qed

lemma print_rows_keeps: "keeps rs (snd (print_rows line base is rs))"
proof (induction "is" arbitrary: rs)
  case (Cons i "is")
  have "keeps rs (read_row base i rs)"
    by (rule keeps_same) (simp_all add: read_row_def writeReg_def tables_def router_ids_def)
  then show ?case using Cons.IH by (auto simp: Let_def split_beta intro: keeps_trans)
qed simp

lemma cli_show_hw_keeps:
  "cli_keeps rs (Some (cli_show_hw_rtable S rs))" "cli_keeps rs (Some (cli_show_hw_arp_cache S rs))"
  "cli_keeps rs (cli_hw_info S stats rs)"
  using print_rows_keeps
  by (auto simp: cli_keeps_def cli_show_hw_rtable_def cli_show_hw_arp_cache_def sprint_hw_rtable_def
      sprint_hw_arp_cache_def cli_hw_info_def sprint_hw_drops_def split_beta)

lemma run_handler_keeps: "cli_keeps rs (run_handler env h rs cmd)"
proof (cases h)
  case Cli_show_pwospf_iface
  then show ?thesis by (simp add: cli_keeps_def)
next
  case Cli_show_pwospf_info
  then show ?thesis by (simp add: cli_show_pwospf_info_def cli_keeps_bind)
qed (simp_all add: cli_route_keeps cli_ip_interface_keeps cli_hw_keeps cli_arp_keeps cli_pwospf_keeps cli_sping_keeps
      cli_show_ip_arp_def cli_show_hw_keeps)

lemma client_request_keeps:
  assumes "client_request env cmds buf received rs = Some (buf', closed, out, rs')"
  shows "keeps rs rs'"
  using assms run_handler_keeps [unfolded cli_keeps_def]
  by (auto simp: client_request_def Let_def split: if_splits option.splits)

lemma service_request_keeps:
  assumes "service_request env cmds cwd fs input rs = Some (out, rs')"
  shows "keeps rs rs'"
  using assms run_handler_keeps [unfolded cli_keeps_def]
  by (fastforce simp: service_request_def www_answer_def www_command_def Let_def
      split: www_read.splits list.splits scanned.splits if_splits option.splits)

subsection \<open>The events\<close>

text \<open>
  \<open>rnd\<close>, \<open>buf\<close> and \<open>now\<close> are the random ports, the reply buffer and the time of an event; a client
  is served with the commands that were registered at the start.
\<close>

inductive sys_step :: "cli_entry list \<Rightarrow> router_state \<Rightarrow> router_state \<Rightarrow> bool" for cmds where
  frame: "process_packet rnd buf now rs p ifc = Some rs' \<Longrightarrow> sys_step cmds rs rs'"
| transport: "integ_ip_output now rs payload proto src dest = Some (c, rs') \<Longrightarrow> sys_step cmds rs rs'"
| arp_round: "arp_thread_step now rs = Some rs' \<Longrightarrow> sys_step cmds rs rs'"
| hello_round: "broadcast_pwospf_hello_packet now rs = Some rs' \<Longrightarrow> sys_step cmds rs rs'"
| lsu_round: "pwospf_lsu_step now rs = Some rs' \<Longrightarrow> sys_step cmds rs rs'"
| timeout_round: "pwospf_lsu_timeout_step now rs = Some rs' \<Longrightarrow> sys_step cmds rs rs'"
| bcast_round: "pwospf_lsu_bcast_step now rs = Some rs' \<Longrightarrow> sys_step cmds rs rs'"
| routes_round: "dijkstra_step timed_out rs = Some rs' \<Longrightarrow> sys_step cmds rs rs'"
| ping_cleanup: "sys_step cmds rs (sping_queue_cleanup_step now rs)"
| client: "client_request env cmds buf received rs = Some (buf', closed, out, rs') \<Longrightarrow> sys_step cmds rs rs'"
| web: "service_request env cmds cwd fs input rs = Some (out, rs') \<Longrightarrow> sys_step cmds rs rs'"

lemma sys_step_keeps: "sys_step cmds rs rs' \<Longrightarrow> keeps rs rs'"
  by (induction rule: sys_step.induct)
     (auto intro: process_packet_keeps integ_ip_output_keeps arp_thread_step_keeps hello_round_keeps lsu_round_keeps
       timeout_round_keeps bcast_round_keeps routes_round_keeps ping_cleanup_keeps client_request_keeps
       service_request_keeps)

lemma sys_steps_keep: "(sys_step cmds)\<^sup>*\<^sup>* rs rs' \<Longrightarrow> keeps rs rs'"
  by (induction rule: rtranclp_induct) (auto intro: keeps_trans sys_step_keeps)

text \<open>The states of a router that was started from the two files.\<close>

definition running ::
  "(string \<Rightarrow> string \<Rightarrow> int) \<Rightarrow> int \<Rightarrow> hw_config \<Rightarrow> sr_vns_if list \<Rightarrow> rtable_entry list \<Rightarrow> router_state \<Rightarrow> bool" where
  "running strcmp now hw ifs routes rs' \<longleftrightarrow> (\<exists>rs cmds.
     sr_init strcmp now hw (Some (concat (map hw_line ifs))) (Some (concat (map route_file_line routes))) =
       Some (rs, cmds) \<and> (sys_step cmds)\<^sup>*\<^sup>* rs rs')"

lemma started_ok:
  assumes "started now ifs routes rs"
  shows "routers_inv rs" "arp_cache_ok rs" "requests_ok rs" "rs_router_id rs = own_id ifs 0"
    "map if_name (rs_if_list rs) = map vns_name ifs"
  using assms by (simp_all add: started_def routers_inv_def rids_def our_router_def arp_cache_ok_def requests_ok_def
      new_iface_def)

lemma running_ok:
  assumes cmp: "strcmp_result strcmp" and files: "\<forall>i\<in>set ifs. vns_ok i" "\<forall>re\<in>set routes. static_route re"
    and run: "running strcmp now hw ifs routes rs'"
  shows "routers_inv rs' \<and> arp_cache_ok rs' \<and> requests_ok rs' \<and> rs_router_id rs' = own_id ifs 0 \<and>
    map if_name (rs_if_list rs') = map vns_name ifs"
proof -
  from run obtain rs cmds where rs: "sr_init strcmp now hw (Some (concat (map hw_line ifs)))
      (Some (concat (map route_file_line routes))) = Some (rs, cmds)" "(sys_step cmds)\<^sup>*\<^sup>* rs rs'"
    by (auto simp: running_def)
  with sr_init_printed [OF cmp files, of now hw] have "started now ifs routes rs" by auto
  from started_ok [OF this] sys_steps_keep [OF rs(2)] show ?thesis by (simp add: keeps_def)
qed

end
