(* ===== verification/Reg_Cli.thy ===== *)
theory Reg_Cli
  imports Hw_Access C_Input
begin

section \<open>The register tool (\<^verbatim>\<open>sw/cli/cli.c\<close>)\<close>

text \<open>
  A program of its own that lists, sets, loads and clears the rows of the tables of the
  hardware. A run is a function from the standard input, the files and the hardware to the
  standard output and the new hardware. None is a run that writes past a buffer, that uses
  memory that was never written, that reads from a file that could not be opened, or that
  never returns. Accesses to the registers succeed.
\<close>

subsection \<open>Input\<close>

definition atoi :: "string \<Rightarrow> u32" where
  "atoi s = (let s = skip_space s in
     case scan_number 10 (length s) s of None \<Rightarrow> 0 | Some (neg, n, _) \<Rightarrow> store_signed neg n)"

text \<open>
  The bytes are written to a block of 4 or 6 bytes from \<^verbatim>\<open>malloc\<close>: more parts write behind it,
  fewer leave bytes that were never written, which the caller reads.
\<close>

definition parseip :: "string \<Rightarrow> u8 list option" where
  "parseip str = (let bs = map (\<lambda>num. ucast (atoi num)) (strtok ''.'' str)
     in if length bs = 4 then Some bs else None)"

fun hex_parts :: "string list \<Rightarrow> u8 list option" where
  "hex_parts [] = Some []"
| "hex_parts (num # ns) =
     (case scan_stream [SHex] num of
        ([Num i], _) \<Rightarrow> map_option ((#) (ucast i)) (hex_parts ns)
      | _ \<Rightarrow> None)"

definition parsemac :: "string \<Rightarrow> u8 list option" where
  "parsemac str = do {
     bs \<leftarrow> hex_parts (strtok '':'' str);
     if length bs = 6 then Some bs else None
   }"

subsection \<open>Changing a row\<close>

definition LPM_TCAM_DEPTH :: nat where "LPM_TCAM_DEPTH = 32"
definition ARP_CAM_DEPTH :: nat where "ARP_CAM_DEPTH = 32"
definition DEST_IP_CAM_DEPTH :: nat where "DEST_IP_CAM_DEPTH = 32"

text \<open>\<^verbatim>\<open>b[0] << 24 | b[1] << 16 | b[2] << 8 | b[3]\<close>\<close>

definition be_word :: "u8 list \<Rightarrow> u32" where
  "be_word b = push_bit 24 (ucast (b ! 0)) OR push_bit 16 (ucast (b ! 1)) OR
     push_bit 8 (ucast (b ! 2)) OR ucast (b ! 3)"

definition mac_words :: "u8 list \<Rightarrow> u32 \<times> u32" where
  "mac_words mac = (push_bit 8 (ucast (mac ! 0)) OR ucast (mac ! 1), be_word (drop 2 mac))"

definition addip :: "hw_config \<Rightarrow> u32 \<Rightarrow> u8 list \<Rightarrow> u8 list \<Rightarrow> u8 list \<Rightarrow> u32 \<Rightarrow> hw_state \<Rightarrow> hw_state" where
  "addip hw entry subnet msk nexthop port = write_indirect
     [(INDIRECTWRDATA_A_HI, be_word subnet), (INDIRECTWRDATA_B_HI, be_word msk),
      (INDIRECTWRDATA_A_LOW, be_word nexthop), (INDIRECTWRDATA_B_LOW, port)]
     (lpm_tcam_address hw OR entry)"

definition addarp :: "hw_config \<Rightarrow> u32 \<Rightarrow> u8 list \<Rightarrow> u8 list \<Rightarrow> hw_state \<Rightarrow> hw_state" where
  "addarp hw entry ip mac = write_indirect
     [(INDIRECTWRDATA_B_LOW, be_word ip), (INDIRECTWRDATA_A_HI, fst (mac_words mac)),
      (INDIRECTWRDATA_A_LOW, snd (mac_words mac))] (arp_cam_address hw OR entry)"

definition addfilter :: "hw_config \<Rightarrow> u32 \<Rightarrow> u8 list \<Rightarrow> hw_state \<Rightarrow> hw_state" where
  "addfilter hw entry ip = write_indirect
     [(INDIRECTWRDATA_A_HI, 0), (INDIRECTWRDATA_B_HI, 0), (INDIRECTWRDATA_A_LOW, 0),
      (INDIRECTWRDATA_B_LOW, be_word ip)] (dest_ip_cam_address hw OR entry)"

text \<open>\<^verbatim>\<open>MAC_HI_REGS\<close> and \<^verbatim>\<open>MAC_LO_REGS\<close> have four elements.\<close>

definition addmac :: "u32 \<Rightarrow> u8 list \<Rightarrow> hw_state \<Rightarrow> hw_state option" where
  "addmac port mac S =
     (if port < 4 then Some (hw_replay [(MAC_HI (unat port), fst (mac_words mac)),
        (MAC_LOW (unat port), snd (mac_words mac))] S) else None)"

subsection \<open>Output\<close>

fun show_hex :: "nat \<Rightarrow> string" where
  "show_hex n = (if n < 16 then [xdigit n] else show_hex (n div 16) @ [xdigit (n mod 16)])"

declare show_hex.simps [simp del]

definition show_hex2 :: "nat \<Rightarrow> string" where
  "show_hex2 n = (if n < 16 then CHR ''0'' # show_hex n else show_hex n)"

text \<open>\<^verbatim>\<open>%i.%i.%i.%i\<close> of the four bytes of a register.\<close>

definition show_quad :: "u32 \<Rightarrow> string" where
  "show_quad w = show_nat (unat (drop_bit 24 w)) @ ''.'' @ show_nat (unat (drop_bit 16 w AND 0xff)) @
     ''.'' @ show_nat (unat (drop_bit 8 w AND 0xff)) @ ''.'' @ show_nat (unat (w AND 0xff))"

definition show_hex_mac :: "u32 \<Rightarrow> u32 \<Rightarrow> string" where
  "show_hex_mac hi lo =
     show_hex (unat (drop_bit 8 hi AND 0xff)) @ '':'' @ show_hex (unat (hi AND 0xff)) @ '':'' @
     show_hex (unat (drop_bit 24 lo AND 0xff)) @ '':'' @ show_hex (unat (drop_bit 16 lo AND 0xff)) @ '':'' @
     show_hex (unat (drop_bit 8 lo AND 0xff)) @ '':'' @ show_hex (unat (lo AND 0xff))"

definition entry_text :: "nat \<Rightarrow> string" where
  "entry_text i = ''Entry #'' @ show_nat i @ '':   ''"

definition invalid_text :: string where
  "invalid_text = ''--Invalid--'' @ [nl]"

definition ip_text :: "nat \<Rightarrow> tcam_row \<Rightarrow> string" where
  "ip_text i r = entry_text i @
     (let port = tr_port r AND 0xff in
      if tr_ip r \<noteq> 0 \<or> tr_mask r \<noteq> 0xffffffff \<or> port \<noteq> 0
      then ''Subnet: '' @ show_quad (tr_ip r) @ '', Mask: 0x'' @ show_hex (unat (tr_mask r)) @
           '', Next Hop: '' @ show_quad (tr_next_hop r) @ '', Port: 0x'' @ show_hex2 (unat port) @ [nl]
      else invalid_text)"

definition arp_text :: "nat \<Rightarrow> u32 \<Rightarrow> u32 \<Rightarrow> u32 \<Rightarrow> string" where
  "arp_text i ip machi maclo = entry_text i @
     (if ip \<noteq> 0 then ''IP: '' @ show_quad ip @ '', MAC: '' @ show_hex_mac machi maclo @ [nl]
      else invalid_text)"

definition filter_text :: "nat \<Rightarrow> u32 \<Rightarrow> string" where
  "filter_text i ip = entry_text i @
     (if ip \<noteq> 0 then ''ip: '' @ show_quad ip @ [nl] else invalid_text)"

subsection \<open>Listing a table\<close>

text \<open>What a pass over the rows prints, and the hardware after its read commands.\<close>

fun list_rows :: "(nat \<Rightarrow> (reg \<Rightarrow> u32) \<Rightarrow> string) \<Rightarrow> u32 \<Rightarrow> nat list \<Rightarrow> hw_state \<Rightarrow> hw_state \<times> string" where
  "list_rows show_row base [] S = (S, [])"
| "list_rows show_row base (i # is) S =
     (let S = read_indirect (base OR of_nat i) S; (S', out) = list_rows show_row base is S
      in (S', show_row i (fst S) @ out))"

definition listip :: "hw_config \<Rightarrow> hw_state \<Rightarrow> hw_state \<times> string" where
  "listip hw = list_rows (\<lambda>i R. ip_text i \<lparr>tr_ip = R INDIRECTREPLY_A_HI, tr_mask = R INDIRECTREPLY_B_HI,
       tr_next_hop = R INDIRECTREPLY_A_LOW, tr_port = R INDIRECTREPLY_B_LOW\<rparr>)
     (lpm_tcam_address hw) [0..<LPM_TCAM_DEPTH]"

definition listarp :: "hw_config \<Rightarrow> hw_state \<Rightarrow> hw_state \<times> string" where
  "listarp hw = list_rows (\<lambda>i R. arp_text i (R INDIRECTREPLY_B_LOW) (R INDIRECTREPLY_A_HI) (R INDIRECTREPLY_A_LOW))
     (arp_cam_address hw) [0..<ARP_CAM_DEPTH]"

definition listfilter :: "hw_config \<Rightarrow> hw_state \<Rightarrow> hw_state \<times> string" where
  "listfilter hw = list_rows (\<lambda>i R. filter_text i (R INDIRECTREPLY_B_LOW))
     (dest_ip_cam_address hw) [0..<DEST_IP_CAM_DEPTH]"

definition listmac :: "hw_state \<Rightarrow> string" where
  "listmac S = concat (map (\<lambda>i. ''Port #'' @ show_nat i @ '':   MAC: '' @
     show_hex_mac (fst S (MAC_HI i)) (fst S (MAC_LOW i)) @ [nl]) [0..<4])"

subsection \<open>The commands\<close>

text \<open>The hardware, the input that is left, and what was printed.\<close>

type_synonym cli_run = "(hw_state \<times> string \<times> string) option"

definition arrow :: string where "arrow = ''>> ''"

definition words_fit :: "nat list \<Rightarrow> scanned list \<Rightarrow> bool" where
  "words_fit ns vs \<longleftrightarrow> list_all (\<lambda>(n, v). case v of Str w \<Rightarrow> fits n w | Num _ \<Rightarrow> True) (zip ns vs)"

text \<open>
  \<^verbatim>\<open>scanf\<close> may convert fewer words than asked for. The number in front is checked first; only
  a command that goes on after the check needs the others.
\<close>

definition setip :: "hw_config \<Rightarrow> string \<Rightarrow> hw_state \<Rightarrow> cli_run" where
  "setip hw inp S =
     (let out = ''Enter [entry] [subnet]      [mask]       [nexthop] [port]:'' @ [nl] @
            ''e.g.     0   192.168.1.0  255.255.255.0  15.1.3.1     4:'' @ [nl] @ arrow
      in case scan_stream [SInt, SWord, SWord, SWord, SHex] inp of
           (Num entry # vs, inp) \<Rightarrow>
             (if \<not> words_fit [15, 15, 15] vs then None
              else if sint entry < 0 \<or> sint entry > int LPM_TCAM_DEPTH - 1
              then Some (S, inp, out @ ''Entry must be between 0 and 31. Aborting'' @ [nl])
              else case vs of
                [Str subnet, Str msk, Str nexthop, Num port] \<Rightarrow>
                  (if sint port < 1 \<or> sint port > 255
                   then Some (S, inp, out @ ''Port must be between 1 and ff.  Aborting'' @ [nl])
                   else do {
                     sn \<leftarrow> parseip subnet;
                     m \<leftarrow> parseip msk;
                     nh \<leftarrow> parseip nexthop;
                     Some (addip hw entry sn m nh port S, inp, out)
                   })
              | _ \<Rightarrow> None)
         | _ \<Rightarrow> None)"

definition setarp :: "hw_config \<Rightarrow> string \<Rightarrow> hw_state \<Rightarrow> cli_run" where
  "setarp hw inp S =
     (let out = ''Enter [entry] [ip] [mac]:'' @ [nl] @ arrow
      in case scan_stream [SInt, SWord, SWord] inp of
           (Num entry # vs, inp) \<Rightarrow>
             (if \<not> words_fit [15, 30] vs then None
              else if sint entry < 0 \<or> sint entry > int ARP_CAM_DEPTH - 1
              then Some (S, inp, out @ ''Entry must be between 0 and 31. Aborting'' @ [nl])
              else case vs of
                [Str nexthop, Str mac] \<Rightarrow> do {
                  nh \<leftarrow> parseip nexthop;
                  m \<leftarrow> parsemac mac;
                  Some (addarp hw entry nh m S, inp, out)
                }
              | _ \<Rightarrow> None)
         | _ \<Rightarrow> None)"

definition setmac :: "string \<Rightarrow> hw_state \<Rightarrow> cli_run" where
  "setmac inp S =
     (let out = ''Enter [port] [mac]:'' @ [nl] @ arrow
      in case scan_stream [SInt, SWord] inp of
           (Num port # vs, inp) \<Rightarrow>
             (if \<not> words_fit [30] vs then None
              else if sint port < 0 \<or> sint port > 3
              then Some (S, inp, out @ ''Port must be between 0 and 3. Aborting'' @ [nl])
              else case vs of
                [Str mac] \<Rightarrow> do {
                  m \<leftarrow> parsemac mac;
                  S \<leftarrow> addmac port m S;
                  Some (S, inp, out)
                }
              | _ \<Rightarrow> None)
         | _ \<Rightarrow> None)"

definition setfilter :: "hw_config \<Rightarrow> string \<Rightarrow> hw_state \<Rightarrow> cli_run" where
  "setfilter hw inp S =
     (let out = ''Enter [entry] [ip]:'' @ [nl] @ ''e.g.     0   15.1.3.1:'' @ [nl] @ arrow
      in case scan_stream [SInt, SWord] inp of
           (Num entry # vs, inp) \<Rightarrow>
             (if \<not> words_fit [15] vs then None
              else if sint entry < 0 \<or> sint entry > int DEST_IP_CAM_DEPTH - 1
              then Some (S, inp, out @ ''Entry must be between 0 and 31. Aborting'' @ [nl])
              else case vs of
                [Str ip] \<Rightarrow> do {
                  destip \<leftarrow> parseip ip;
                  Some (addfilter hw entry destip S, inp, out)
                }
              | _ \<Rightarrow> None)
         | _ \<Rightarrow> None)"

text \<open>
  The loops over the lines of a file. A conversion that fails leaves its variable as it was
  and the position in the file where it is: unless the file is at its end, the loop stays
  there. A string that is parsed again has lost its separators to \<^verbatim>\<open>strtok\<close>, so only the
  last conversion of \<^verbatim>\<open>loadip\<close>, the port, can be missing; it is the port of the line before.
\<close>

partial_function (option) loadip_loop ::
  "hw_config \<Rightarrow> u32 option \<Rightarrow> string \<Rightarrow> hw_state \<Rightarrow> hw_state option" where
  "loadip_loop hw port fp S =
     (if at_end fp then Some S
      else case scan_stream [SInt, SWord, SWord, SWord, SHex] fp of
        (Num entry # Str subnet # Str msk # Str nexthop # vs, fp) \<Rightarrow>
          (if \<not> (fits 20 subnet \<and> fits 20 msk \<and> fits 20 nexthop) then None
           else do {
             port \<leftarrow> (case vs of [Num p] \<Rightarrow> Some p | _ \<Rightarrow> port);
             sn \<leftarrow> parseip subnet;
             m \<leftarrow> parseip msk;
             nh \<leftarrow> parseip nexthop;
             loadip_loop hw (Some port) fp (addip hw entry sn m nh port S)
           })
      | _ \<Rightarrow> None)"

partial_function (option) loadarp_loop :: "hw_config \<Rightarrow> string \<Rightarrow> hw_state \<Rightarrow> hw_state option" where
  "loadarp_loop hw fp S =
     (if at_end fp then Some S
      else case scan_stream [SInt, SWord, SWord] fp of
        ([Num entry, Str ip, Str mac], fp) \<Rightarrow>
          (if \<not> (fits 20 ip \<and> fits 20 mac) then None
           else do {
             i \<leftarrow> parseip ip;
             m \<leftarrow> parsemac mac;
             loadarp_loop hw fp (addarp hw entry i m S)
           })
      | _ \<Rightarrow> None)"

partial_function (option) loadmac_loop :: "string \<Rightarrow> hw_state \<Rightarrow> hw_state option" where
  "loadmac_loop fp S =
     (if at_end fp then Some S
      else case scan_stream [SInt, SWord] fp of
        ([Num port, Str mac], fp) \<Rightarrow>
          (if \<not> fits 20 mac then None
           else do {
             m \<leftarrow> parsemac mac;
             S \<leftarrow> addmac port m S;
             loadmac_loop fp S
           })
      | _ \<Rightarrow> None)"

partial_function (option) loadfilter_loop :: "hw_config \<Rightarrow> string \<Rightarrow> hw_state \<Rightarrow> hw_state option" where
  "loadfilter_loop hw fp S =
     (if at_end fp then Some S
      else case scan_stream [SInt, SWord] fp of
        ([Num entry, Str ip], fp) \<Rightarrow>
          (if \<not> fits 20 ip then None
           else do {
             filter \<leftarrow> parseip ip;
             loadfilter_loop hw fp (addfilter hw entry filter S)
           })
      | _ \<Rightarrow> None)"

text \<open>
  The name of a file is read into 30 bytes. \<open>fs\<close> are the contents of the files that can be
  opened; \<open>check\<close> says whether the command looks for the null pointer of \<^verbatim>\<open>fopen\<close>.
\<close>

definition load_file ::
  "bool \<Rightarrow> (string \<Rightarrow> hw_state \<Rightarrow> hw_state option) \<Rightarrow> (string \<Rightarrow> string option) \<Rightarrow>
     string \<Rightarrow> hw_state \<Rightarrow> cli_run" where
  "load_file check loop fs inp S =
     (let out = ''Enter filename:'' @ [nl] @ arrow
      in case scan_stream [SWord] inp of
           ([Str fn], inp) \<Rightarrow>
             (if \<not> fits 30 fn then None
              else case fs fn of
                None \<Rightarrow> (if check then Some (S, inp, out @ ''Error: cannot open file '' @ fn @ ''.'' @ [nl])
                         else None)
              | Some fp \<Rightarrow> map_option (\<lambda>S. (S, inp, out)) (loop fp S))
         | _ \<Rightarrow> None)"

definition loadip :: "hw_config \<Rightarrow> (string \<Rightarrow> string option) \<Rightarrow> string \<Rightarrow> hw_state \<Rightarrow> cli_run" where
  "loadip hw = load_file True (loadip_loop hw None)"

definition loadarp :: "hw_config \<Rightarrow> (string \<Rightarrow> string option) \<Rightarrow> string \<Rightarrow> hw_state \<Rightarrow> cli_run" where
  "loadarp hw = load_file False (loadarp_loop hw)"

definition loadmac :: "(string \<Rightarrow> string option) \<Rightarrow> string \<Rightarrow> hw_state \<Rightarrow> cli_run" where
  "loadmac = load_file False loadmac_loop"

definition loadfilter :: "hw_config \<Rightarrow> (string \<Rightarrow> string option) \<Rightarrow> string \<Rightarrow> hw_state \<Rightarrow> cli_run" where
  "loadfilter hw = load_file True (loadfilter_loop hw)"

definition clear_entry :: "(u32 \<Rightarrow> hw_state \<Rightarrow> hw_state) \<Rightarrow> string \<Rightarrow> hw_state \<Rightarrow> cli_run" where
  "clear_entry clear inp S =
     (case scan_stream [SInt] inp of
        ([Num entry], inp) \<Rightarrow> Some (clear entry S, inp, ''Specify entry:'' @ [nl] @ arrow)
      | _ \<Rightarrow> None)"

definition clearip :: "hw_config \<Rightarrow> string \<Rightarrow> hw_state \<Rightarrow> cli_run" where
  "clearip hw = clear_entry (\<lambda>entry. write_indirect
     [(INDIRECTWRDATA_A_HI, 0), (INDIRECTWRDATA_B_HI, 0xffffffff), (INDIRECTWRDATA_A_LOW, 0),
      (INDIRECTWRDATA_B_LOW, 0)] (lpm_tcam_address hw OR entry))"

definition cleararp :: "hw_config \<Rightarrow> string \<Rightarrow> hw_state \<Rightarrow> cli_run" where
  "cleararp hw = clear_entry (\<lambda>entry. write_indirect
     [(INDIRECTWRDATA_B_LOW, 0), (INDIRECTWRDATA_A_HI, 0), (INDIRECTWRDATA_A_LOW, 0)]
     (arp_cam_address hw OR entry))"

definition clearfilter :: "hw_config \<Rightarrow> string \<Rightarrow> hw_state \<Rightarrow> cli_run" where
  "clearfilter hw = clear_entry (\<lambda>entry. write_indirect
     [(INDIRECTWRDATA_A_HI, 0), (INDIRECTWRDATA_B_HI, 0), (INDIRECTWRDATA_A_LOW, 0),
      (INDIRECTWRDATA_B_LOW, 0)] (dest_ip_cam_address hw OR entry))"

subsection \<open>The prompt\<close>

definition parse :: "string \<Rightarrow> int" where
  "parse word =
     (if word = ''listip'' then 0 else if word = ''listarp'' then 1
      else if word = ''setip'' then 2 else if word = ''setarp'' then 3
      else if word = ''loadip'' then 4 else if word = ''loadarp'' then 5
      else if word = ''clearip'' then 6 else if word = ''cleararp'' then 7
      else if word = ''listmac'' then 12 else if word = ''setmac'' then 13
      else if word = ''loadmac'' then 14 else if word = ''listfilter'' then 15
      else if word = ''setfilter'' then 16 else if word = ''loadfilter'' then 17
      else if word = ''clearfilter'' then 18 else if word = ''help'' then 8
      else if word = ''quit'' then 9 else -1)"

definition help_text :: string where
  "help_text = concat (map (\<lambda>l. l @ [nl])
     [''Commands:'',
      ''  listip        - Lists entries in IP routing table'',
      ''  listarp       - Lists entries in the ARP table'',
      ''  listmac       - Lists the MAC addresses of the router ports'',
      ''  listfilter    - Lists entries in Destination IP filter'',
      ''  setip         - Set an entry in the IP routing table'',
      ''  setarp        - Set an entry in the ARP table'',
      ''  setmac        - Set the MAC address of a router port'',
      ''  setfilter     - set an entry in Destination IP filter'',
      ''  loadip        - Load IP routing table entries from a file'',
      ''  loadarp       - Load ARP table entries from a file'',
      ''  loadmac       - Load MAC addresses of router ports from a file'',
      ''  loadfilter    - Load Destination IP filter from a file'',
      ''  clearip       - Clear an IP routing table entry'',
      ''  cleararp      - Clear an ARP table entry'',
      ''  clearfilter   - Clear a Destination IP filter entry'',
      ''  help          - Displays this list'',
      ''  quit          - Exit this program''])"

definition run_command ::
  "hw_config \<Rightarrow> (string \<Rightarrow> string option) \<Rightarrow> int \<Rightarrow> string \<Rightarrow> hw_state \<Rightarrow> cli_run" where
  "run_command hw fs res inp S =
     (let list = (\<lambda>(S, out). Some (S, inp, out)) in
      if res = 0 then list (listip hw S)
      else if res = 1 then list (listarp hw S)
      else if res = 2 then setip hw inp S
      else if res = 3 then setarp hw inp S
      else if res = 4 then loadip hw fs inp S
      else if res = 5 then loadarp hw fs inp S
      else if res = 6 then clearip hw inp S
      else if res = 7 then cleararp hw inp S
      else if res = 12 then list (S, listmac S)
      else if res = 13 then setmac inp S
      else if res = 14 then loadmac fs inp S
      else if res = 15 then list (listfilter hw S)
      else if res = 16 then setfilter hw inp S
      else if res = 17 then loadfilter hw fs inp S
      else if res = 18 then clearfilter hw inp S
      else if res = 8 then list (S, help_text)
      else list (S, ''Unknown command, type '' @ [CHR 0x27] @ ''help'' @ [CHR 0x27] @ '' for list of commands'' @ [nl]))"

text \<open>
  The command is read into 10 bytes. At the end of the input the last command is run again,
  for ever.
\<close>

partial_function (option) prompt ::
  "hw_config \<Rightarrow> (string \<Rightarrow> string option) \<Rightarrow> string \<Rightarrow> hw_state \<Rightarrow> (hw_state \<times> string) option" where
  "prompt hw fs inp S =
     (case scan_stream [SWord] inp of
        ([Str c], inp) \<Rightarrow>
          (if \<not> fits 10 c then None
           else if parse c = 9 then Some (S, ''> '')
           else do {
             (S, inp, out) \<leftarrow> run_command hw fs (parse c) inp S;
             (S, rest) \<leftarrow> prompt hw fs inp S;
             Some (S, ''> '' @ out @ rest)
           })
      | _ \<Rightarrow> None)"

subsection \<open>Addresses that are read and printed\<close>

lemma unat_low_byte: "unat ((w :: u32) AND 0xff) = unat (ucast w :: u8)"
proof -
  have "(w AND 0xff) = take_bit 8 w" using take_bit_eq_mask [of 8 w] by (simp add: mask_eq_exp_minus_1)
  then show ?thesis by (simp add: unsigned_ucast_eq unsigned_take_bit_eq)
qed

lemma unat_high_byte: "unat (drop_bit 24 (w :: u32)) = unat (ucast (drop_bit 24 w) :: u8)"
proof -
  have "take_bit 8 (drop_bit 24 w) = drop_bit 24 w"
    by (rule bit_word_eqI) (auto simp: bit_simps dest: bit_imp_le_length)
  then show ?thesis by (simp add: unsigned_ucast_eq unsigned_take_bit_eq [symmetric])
qed

lemma ucast_ntohl:
  "(ucast (ntohl w) :: u8) = ucast (drop_bit 24 w)"
  "(ucast (drop_bit 8 (ntohl w)) :: u8) = ucast (drop_bit 16 w)"
  "(ucast (drop_bit 16 (ntohl w)) :: u8) = ucast (drop_bit 8 w)"
  "(ucast (drop_bit 24 (ntohl w)) :: u8) = ucast w"
  by (rule bit_word_eqI; auto simp: bit_simps bit_ntohl)+

lemma show_quad_ntop: "show_quad w = inet_ntop (ntohl w)"
  by (simp add: show_quad_def inet_ntop_def word_bytes_def ucast_ntohl unat_low_byte unat_high_byte)

lemma be_word_bytes [simp]: "be_word (word_bytes w) = ntohl w"
  by (rule bit_word_eqI) (auto simp: be_word_def word_bytes_def bit_simps bit_ntohl)

lemma show_nat_no_space: "skip_space (show_nat n @ t) = show_nat n @ t"
proof -
  obtain c cs where s: "show_nat n = c # cs" by (cases "show_nat n") auto
  with show_nat_digits [of n] digit_not_space [of c] show ?thesis by (simp add: skip_space_def)
qed

lemma atoi_show [simp]: "n < 2 ^ 31 \<Longrightarrow> atoi (show_nat n) = of_nat n"
  using scan_show_nat [of "[]" n "length (show_nat n)"] show_nat_no_space [of n "[]"]
  by (simp add: atoi_def store_signed_def)

lemma show_nat_no_dot: "CHR ''.'' \<notin> set (show_nat n)"
  using show_nat_digits [of n] by (metis dot_no_digit)

lemma parseip_ntop [simp]: "parseip (inet_ntop w) = Some (word_bytes w)"
proof -
  have at: "ucast (atoi (show_nat (unat b))) = b" for b :: u8
    using unat_u8 [of b] by (simp add: unsigned_ucast_eq take_bit_word_eq_self)
  show ?thesis
    by (simp add: parseip_def inet_ntop_def word_bytes_def strtok_part show_nat_no_dot at)
qed

subsection \<open>What the lists show\<close>

lemma list_rows_spec:
  assumes "\<And>i R R'. (\<And>r. r \<in> {INDIRECTREPLY_A_HI, INDIRECTREPLY_A_LOW, INDIRECTREPLY_B_HI,
      INDIRECTREPLY_B_LOW} \<Longrightarrow> R r = R' r) \<Longrightarrow> show_row i R = show_row i R'"
  shows "snd (fst (list_rows show_row base is S)) = snd S \<and>
    snd (list_rows show_row base is S) =
      concat (map (\<lambda>i. show_row i (hw_reply (snd S (base OR of_nat i)) (\<lambda>_. 0))) is)"
proof (induction "is" arbitrary: S)
  case (Cons i "is")
  let ?S = "read_indirect (base OR of_nat i) S"
  have "show_row i (fst ?S) = show_row i (hw_reply (snd S (base OR of_nat i)) (\<lambda>_. 0))"
    by (rule assms) (auto simp: hw_reply_def)
  with Cons [of ?S] show ?case by (simp add: Let_def split_beta)
qed simp

lemma listip_out:
  "snd (fst (listip hw S)) = snd S"
  "snd (listip hw S) = concat (map2 ip_text [0..<LPM_TCAM_DEPTH]
     (lpm_table.rows (row_addrs (lpm_tcam_address hw) LPM_TCAM_DEPTH) S))"
proof -
  let ?t = "\<lambda>i R. ip_text i \<lparr>tr_ip = R INDIRECTREPLY_A_HI, tr_mask = R INDIRECTREPLY_B_HI,
       tr_next_hop = R INDIRECTREPLY_A_LOW, tr_port = R INDIRECTREPLY_B_LOW\<rparr>"
  have t: "?t i R = ?t i R'" if "\<And>r. r \<in> {INDIRECTREPLY_A_HI, INDIRECTREPLY_A_LOW, INDIRECTREPLY_B_HI,
      INDIRECTREPLY_B_LOW} \<Longrightarrow> R r = R' r" for i R R'
    using that by simp
  note s = list_rows_spec [where show_row = ?t, OF t]
  show "snd (fst (listip hw S)) = snd S" using s by (simp add: listip_def)
  show "snd (listip hw S) = concat (map2 ip_text [0..<LPM_TCAM_DEPTH]
     (lpm_table.rows (row_addrs (lpm_tcam_address hw) LPM_TCAM_DEPTH) S))"
    using s [of "lpm_tcam_address hw" "[0..<LPM_TCAM_DEPTH]" S]
    by (simp add: listip_def lpm_table.rows_def row_addrs_def hw_reply_def tcam_row_of_def
        zip_map2 zip_same_conv_map comp_def)
qed

subsection \<open>Setting a route and listing it\<close>

definition ip_table :: "hw_config \<Rightarrow> hw_state \<Rightarrow> tcam_row list" where
  "ip_table hw S = map (\<lambda>a. tcam_row_of (snd S a)) (row_addrs (lpm_tcam_address hw) LPM_TCAM_DEPTH)"

lemma ip_table_rows: "ip_table hw = lpm_table.rows (row_addrs (lpm_tcam_address hw) LPM_TCAM_DEPTH)"
  by (rule ext) (simp add: ip_table_def lpm_table.rows_def)

lemma addip_row:
  "addip hw e sn m nh port = write_lpm_row
     \<lparr>tr_ip = be_word sn, tr_mask = be_word m, tr_next_hop = be_word nh, tr_port = port\<rparr>
     (lpm_tcam_address hw OR e)"
  by (simp add: addip_def write_lpm_row_def)

lemma scan_stream_space [simp]:
  "is_space c \<Longrightarrow> scan_stream (f # fs) (c # s) = scan_stream (f # fs) s"
  by (cases f) (simp_all add: skip_space_def)

lemma parse_words [simp]: "parse ''setip'' = 2" "parse ''listip'' = 0" "parse ''quit'' = 9"
  by (simp_all add: parse_def)

lemma sint_of_nat_small: "n < 2 ^ 31 \<Longrightarrow> sint (of_nat n :: u32) = int n"
  by (simp add: signed_of_nat signed_take_bit_int_eq_self)

lemma sint_port: "0 < port \<Longrightarrow> port \<le> 255 \<Longrightarrow> 1 \<le> sint (port :: u32) \<and> sint port \<le> 255"
proof -
  assume p: "0 < port" "port \<le> 255"
  then have "unat port \<le> 255" "0 < unat port" by (simp_all add: word_le_nat_alt word_less_nat_alt)
  moreover from this have "sint port = int (unat port)"
    using sint_of_nat_small [of "unat port"] by simp
  ultimately show ?thesis by linarith
qed

text \<open>
  C31. A route that is typed in at \<^verbatim>\<open>setip\<close> is in the table of the hardware and in the listing
  of \<^verbatim>\<open>listip\<close>, at the row that was given, and nothing else in the hardware's tables has
  changed: for every row below 32, port between 1 and ff and addresses of at most 14
  characters, whatever the hardware held before.
\<close>

theorem setip_listip:
  assumes "distinct (row_addrs (lpm_tcam_address hw) LPM_TCAM_DEPTH)"
    and inp: "scan_stream [SInt, SWord, SWord, SWord, SHex] inp =
      ([Num (of_nat e), Str (inet_ntop ip), Str (inet_ntop msk), Str (inet_ntop gw), Num port], rest)"
    and "e < LPM_TCAM_DEPTH" "0 < port" "port \<le> 255"
    and "\<forall>w\<in>{ip, msk, gw}. length (inet_ntop w) \<le> 14"
    and "scan_stream [SWord] rest = ([Str ''listip''], rest1)" "scan_stream [SWord] rest1 = ([Str ''quit''], rest2)"
  shows "\<exists>S' pre. prompt hw fs (''setip '' @ inp) S =
      Some (S', pre @ concat (map2 ip_text [0..<LPM_TCAM_DEPTH] (ip_table hw S')) @ ''> '') \<and>
    ip_table hw S' = (ip_table hw S)[e := \<lparr>tr_ip = ntohl ip, tr_mask = ntohl msk,
      tr_next_hop = ntohl gw, tr_port = port\<rparr>] \<and>
    (\<forall>a. a \<noteq> lpm_tcam_address hw OR of_nat e \<longrightarrow> snd S' a = snd S a)"
proof -
  let ?row = "\<lparr>tr_ip = ntohl ip, tr_mask = ntohl msk, tr_next_hop = ntohl gw, tr_port = port\<rparr>"
  let ?S = "write_lpm_row ?row (lpm_tcam_address hw OR of_nat e) S"
  have e: "sint (of_nat e :: u32) = int e"
    using assms(3) by (intro sint_of_nat_small) (simp add: LPM_TCAM_DEPTH_def)
  have "fits 15 (inet_ntop w)" if "w \<in> {ip, msk, gw}" for w
    using assms(6) that by (auto simp: fits_def)
  then obtain pre where set: "setip hw inp S = Some (?S, rest, pre)"
    using inp e assms(3) sint_port [OF assms(4,5)]
    by (simp add: setip_def words_fit_def Let_def addip_row LPM_TCAM_DEPTH_def)
  have word: "scan_stream [SWord] (''setip '' @ inp) = ([Str ''setip''], CHR '' '' # inp)"
    by (simp add: skip_space_def is_space_def)
  have setsp: "setip hw (CHR '' '' # inp) S = setip hw inp S"
    by (simp only: setip_def scan_stream_space [OF is_space_space])
  have quit: "prompt hw fs rest1 S' = Some (S', ''> '')" for S'
    using assms(8) by (subst prompt.simps) (simp add: fits_def)
  have list: "prompt hw fs rest ?S =
      Some (fst (listip hw ?S), ''> '' @ snd (listip hw ?S) @ ''> '')"
    using assms(7) quit [of "fst (listip hw ?S)"]
    by (subst prompt.simps) (simp add: fits_def run_command_def split_beta Let_def)
  have run: "prompt hw fs (''setip '' @ inp) S = Some (fst (listip hw ?S),
      (''> '' @ pre @ ''> '') @ snd (listip hw ?S) @ ''> '')"
    by (subst prompt.simps) (simp only: word, simp add: fits_def run_command_def setsp set list)
  have mem: "snd (fst (listip hw ?S)) = snd ?S" by (rule listip_out)
  then have table: "ip_table hw (fst (listip hw ?S)) = ip_table hw ?S" by (simp add: ip_table_def)
  have upd: "ip_table hw ?S = (ip_table hw S)[e := ?row]"
    using lpm_table.rows_update [OF assms(1), of e ?row S] assms(3) by (simp add: ip_table_rows)
  have "snd ?S a = snd S a" if "a \<noteq> lpm_tcam_address hw OR of_nat e" for a
    using that by (rule lpm_table.other)
  with run mem table upd listip_out(2) [of hw ?S] show ?thesis
    unfolding ip_table_rows [symmetric] by auto
qed

text \<open>
  C39. The buffers of the register tool are too short for its own commands: a line that starts
  with listfilter, loadfilter or clearfilter writes past the ten bytes of the command, and an
  address of 15 characters, such as the mask 255.255.255.128, past those of \<^verbatim>\<open>setip\<close>.
\<close>

theorem reg_cli_overflows:
  assumes "scan_stream [SWord] inp = ([Str c], rest)"
    and "c \<in> {''listfilter'', ''loadfilter'', ''clearfilter''} \<or>
      c = ''setip'' \<and> (\<exists>e a b d p rest'. scan_stream [SInt, SWord, SWord, SWord, SHex] rest =
        ([Num e, Str a, Str b, Str d, Num p], rest') \<and> 15 \<in> length ` {a, b, d})"
  shows "prompt hw fs inp S = None"
  using assms(2)
proof
  assume "c \<in> {''listfilter'', ''loadfilter'', ''clearfilter''}"
  then have "\<not> fits 10 c" by (auto simp: fits_def)
  with assms(1) show ?thesis by (subst prompt.simps) simp
next
  assume "c = ''setip'' \<and> (\<exists>e a b d p rest'. scan_stream [SInt, SWord, SWord, SWord, SHex] rest =
        ([Num e, Str a, Str b, Str d, Num p], rest') \<and> 15 \<in> length ` {a, b, d})"
  then obtain e a b d p rest' where c: "c = ''setip''" and
      "scan_stream [SInt, SWord, SWord, SWord, SHex] rest = ([Num e, Str a, Str b, Str d, Num p], rest')"
      "15 \<in> length ` {a, b, d}"
    by blast
  then have "setip hw rest S = None" by (auto simp: setip_def words_fit_def fits_def)
  with assms(1) c show ?thesis by (subst prompt.simps) (simp add: run_command_def)
qed

lemma distinct_row_addrs_hw4: "distinct (row_addrs (lpm_tcam_address hw4) LPM_TCAM_DEPTH)"
  by (rule distinct_row_addrs) (simp_all add: hw4_def LPM_TCAM_DEPTH_def)

lemma ntop_examples:
  "inet_ntop 0x0000000a = ''10.0.0.0''" "inet_ntop 0x000000ff = ''255.0.0.0''"
  "inet_ntop 0x0100000a = ''10.0.0.1''"
  by (simp_all add: inet_ntop_def word_bytes_def show_nat.simps digit_char_def; code_simp)+

text \<open>Numbers of one digit.\<close>

lemma scan_one_digit:
  assumes "digit_val base c = Some d" "c \<notin> {CHR ''-'', CHR ''+'', CHR ''0''}"
    and "t = [] \<or> digit_val base (hd t) = None"
  shows "scan_number base (Suc w) (c # t) = Some (False, d, t)"
proof -
  have "read_digits base w t d 1 = (d, 1, t)" using assms(3) by (cases w; cases t) auto
  with assms(1,2) show ?thesis by (simp add: scan_number_def)
qed

lemma digit_val_examples:
  "digit_val 10 CHR ''1'' = Some 1" "digit_val 10 CHR ''3'' = Some 3"
  "digit_val 16 CHR ''1'' = Some 1" "digit_val 16 CHR ''4'' = Some 4" "digit_val base CHR '' '' = None"
  by (simp_all add: digit_val_def)

lemmas scan_eval = skip_space_def is_space_def int_base_def scan_one_digit digit_val_examples
  store_signed_def store_unsigned_def

theorem setip_listip_witness:
  "\<exists>S' pre. prompt hw4 (\<lambda>_. None) ''setip 3 10.0.0.0 255.0.0.0 10.0.0.1 4 listip quit'' (\<lambda>_. 0, \<lambda>_ _. 0) =
      Some (S', pre @ concat (map2 ip_text [0..<LPM_TCAM_DEPTH] (ip_table hw4 S')) @ ''> '') \<and>
    ip_table hw4 S' ! 3 = \<lparr>tr_ip = 0x0a000000, tr_mask = 0xff000000, tr_next_hop = 0x0a000001, tr_port = 4\<rparr>"
proof -
  let ?S = "(\<lambda>_. 0, \<lambda>_ _. 0) :: hw_state"
  have scan: "scan_stream [SInt, SWord, SWord, SWord, SHex] ''3 10.0.0.0 255.0.0.0 10.0.0.1 4 listip quit'' =
      ([Num (of_nat 3), Str (inet_ntop 0x0000000a), Str (inet_ntop 0x000000ff), Str (inet_ntop 0x0100000a), Num 4],
        '' listip quit'')"
    by (simp add: scan_eval ntop_examples)
  have cmds: "scan_stream [SWord] '' listip quit'' = ([Str ''listip''], '' quit'')"
      "scan_stream [SWord] '' quit'' = ([Str ''quit''], '''')"
    by (simp_all add: skip_space_def is_space_def)
  have len: "\<forall>w\<in>{0x0000000a, 0x000000ff, 0x0100000a}. length (inet_ntop w) \<le> 14"
    by (simp add: ntop_examples)
  have words: "ntohl 0x0000000a = 0x0a000000" "ntohl 0x000000ff = 0xff000000" "ntohl 0x0100000a = 0x0a000001"
    by (simp_all add: ntohl_def)
  have "3 < LPM_TCAM_DEPTH" "(0 :: u32) < 4" "(4 :: u32) \<le> 255" "length (ip_table hw4 ?S) = 32"
    by (simp_all add: LPM_TCAM_DEPTH_def ip_table_def)
  from setip_listip [OF distinct_row_addrs_hw4 scan this(1-3) len cmds, of "\<lambda>_. None" ?S] this(4)
  show ?thesis by (auto simp: words)
qed

theorem reg_cli_overflows_witness:
  "prompt hw4 (\<lambda>_. None) ''setip 1 10.0.0.0 255.255.255.128 10.0.0.1 1'' (\<lambda>_. 0, \<lambda>_ _. 0) = None"
proof (rule reg_cli_overflows)
  show "scan_stream [SWord] ''setip 1 10.0.0.0 255.255.255.128 10.0.0.1 1'' =
      ([Str ''setip''], '' 1 10.0.0.0 255.255.255.128 10.0.0.1 1'')"
    by (simp add: skip_space_def is_space_def)
  have "scan_stream [SInt, SWord, SWord, SWord, SHex] '' 1 10.0.0.0 255.255.255.128 10.0.0.1 1'' =
      ([Num 1, Str ''10.0.0.0'', Str ''255.255.255.128'', Str ''10.0.0.1'', Num 1], '''')"
    by (simp add: scan_eval)
  then show "''setip'' \<in> {''listfilter'', ''loadfilter'', ''clearfilter''} \<or>
      ''setip'' = ''setip'' \<and> (\<exists>e a b d p rest'. scan_stream [SInt, SWord, SWord, SWord, SHex]
        '' 1 10.0.0.0 255.255.255.128 10.0.0.1 1'' =
        ([Num e, Str a, Str b, Str d, Num p], rest') \<and> 15 \<in> length ` {a, b, d})"
    by simp
qed

end
