(* ===== verification/Kit_Addr.thy ===== *)
theory Kit_Addr
  imports C_Input
begin

section \<open>Addresses of the router kit (\<^verbatim>\<open>netinet++/ipaddr.hh\<close>, \<^verbatim>\<open>netinet++/ethernetaddr.hh\<close>)\<close>

text \<open>
  The value classes of the router kit. An \<open>ipaddr\<close> holds the word in network byte order; its
  operators mix the two byte orders, and are written down as they are. An \<open>ethernetaddr\<close> is
  the list of its six octets.
\<close>

subsection \<open>\<^verbatim>\<open>struct ipaddr\<close>\<close>

datatype ipaddr = Ipaddr (addr: u32)

text \<open>The default constructor, the constructor from a word and the assignment of a word.\<close>

definition ipaddr_default :: ipaddr where "ipaddr_default = Ipaddr 0"
definition ipaddr_of_word :: "u32 \<Rightarrow> ipaddr" where "ipaddr_of_word addr_in = Ipaddr (htonl addr_in)"
definition assign_word :: "u32 \<Rightarrow> ipaddr" where "assign_word w = Ipaddr w"

text \<open>
  The constructor from text. \<open>host\<close> is \<^verbatim>\<open>gethostbyname\<close>: the first address of the name, as
  the word in memory.
\<close>

definition ipaddr_of_text :: "(string \<Rightarrow> u32 option) \<Rightarrow> string \<Rightarrow> ipaddr" where
  "ipaddr_of_text host addr_in = (case host addr_in of None \<Rightarrow> Ipaddr 0 | Some a \<Rightarrow> Ipaddr a)"

definition change_byte_ordering :: "ipaddr \<Rightarrow> ipaddr" where
  "change_byte_ordering a = Ipaddr (htonl (addr a))"

definition ip_string :: "ipaddr \<Rightarrow> string" where "ip_string a = inet_ntop (addr a)"

definition ip_bool :: "ipaddr \<Rightarrow> bool" where "ip_bool a \<longleftrightarrow> \<not> addr a = 0"
definition ip_not :: "ipaddr \<Rightarrow> bool" where "ip_not a \<longleftrightarrow> addr a = 0"

definition ip_compl :: "ipaddr \<Rightarrow> ipaddr" where "ip_compl a = ipaddr_of_word (htonl (NOT (addr a)))"
definition ip_and :: "ipaddr \<Rightarrow> ipaddr \<Rightarrow> ipaddr" where
  "ip_and a b = ipaddr_of_word (htonl (addr a AND addr b))"
definition ip_and_word :: "ipaddr \<Rightarrow> u32 \<Rightarrow> ipaddr" where
  "ip_and_word a w = ipaddr_of_word (ntohl (addr a) AND w)"
definition ip_and_assign :: "ipaddr \<Rightarrow> ipaddr \<Rightarrow> ipaddr" where
  "ip_and_assign a b = Ipaddr (addr a AND addr b)"
definition ip_and_assign_word :: "ipaddr \<Rightarrow> u32 \<Rightarrow> ipaddr" where
  "ip_and_assign_word a w = Ipaddr (addr a AND w)"
definition ip_or :: "ipaddr \<Rightarrow> ipaddr \<Rightarrow> ipaddr" where
  "ip_or a b = ipaddr_of_word (htonl (addr a OR addr b))"
definition ip_or_word :: "ipaddr \<Rightarrow> u32 \<Rightarrow> ipaddr" where
  "ip_or_word a w = ipaddr_of_word (htonl (addr a OR w))"
definition ip_or_assign :: "ipaddr \<Rightarrow> ipaddr \<Rightarrow> ipaddr" where
  "ip_or_assign a b = Ipaddr (addr a OR addr b)"
definition ip_or_assign_word :: "ipaddr \<Rightarrow> u32 \<Rightarrow> ipaddr" where
  "ip_or_assign_word a w = Ipaddr (addr a OR w)"

text \<open>The new value of the object; an \<^verbatim>\<open>int\<close> argument is its two's complement word.\<close>

definition ip_incr :: "ipaddr \<Rightarrow> ipaddr" where "ip_incr a = Ipaddr (htonl (htonl (addr a) + 1))"
definition ip_decr :: "ipaddr \<Rightarrow> ipaddr" where "ip_decr a = Ipaddr (htonl (htonl (addr a) - 1))"
definition ip_add_assign :: "ipaddr \<Rightarrow> u32 \<Rightarrow> ipaddr" where
  "ip_add_assign a n = Ipaddr (htonl (htonl (addr a) + n))"
definition ip_add :: "ipaddr \<Rightarrow> u32 \<Rightarrow> ipaddr" where "ip_add a n = ipaddr_of_word (htonl (addr a) + n)"
definition ip_sub :: "ipaddr \<Rightarrow> u32 \<Rightarrow> ipaddr" where "ip_sub a n = ipaddr_of_word (htonl (addr a) - n)"
definition ip_diff :: "ipaddr \<Rightarrow> ipaddr \<Rightarrow> int" where
  "ip_diff a b = sint (htonl (addr a) - htonl (addr b))"

definition ip_eq_word :: "ipaddr \<Rightarrow> u32 \<Rightarrow> bool" where "ip_eq_word a w \<longleftrightarrow> addr a = w"
definition ip_less_word :: "ipaddr \<Rightarrow> u32 \<Rightarrow> bool" where "ip_less_word a w \<longleftrightarrow> htonl (addr a) < w"

text \<open>The comparisons of two addresses are the order of the numbers.\<close>

instantiation ipaddr :: linorder
begin

definition less_ipaddr :: "ipaddr \<Rightarrow> ipaddr \<Rightarrow> bool" where
  "less_ipaddr a b \<longleftrightarrow> htonl (addr a) < htonl (addr b)"

definition less_eq_ipaddr :: "ipaddr \<Rightarrow> ipaddr \<Rightarrow> bool" where
  "less_eq_ipaddr a b \<longleftrightarrow> htonl (addr a) \<le> htonl (addr b)"

instance
  by standard (auto simp: less_ipaddr_def less_eq_ipaddr_def less_le_not_le intro: ipaddr.expand)

end

text \<open>
  On the numbers (\<open>host_word\<close>) the arithmetic is addition and subtraction modulo \<open>2 ^ 32\<close>, and the
  binary operators on two addresses are those of the words.
\<close>

definition host_word :: "ipaddr \<Rightarrow> u32" where "host_word a = ntohl (addr a)"

lemma host_word_arith [simp]:
  "host_word (ip_add a n) = host_word a + n" "host_word (ip_sub a n) = host_word a - n"
  "host_word (ip_add_assign a n) = host_word a + n"
  "host_word (ip_incr a) = host_word a + 1" "host_word (ip_decr a) = host_word a - 1"
  "ip_diff a b = sint (host_word a - host_word b)"
  "a < b \<longleftrightarrow> host_word a < host_word b" "a \<le> b \<longleftrightarrow> host_word a \<le> host_word b"
  by (simp_all add: host_word_def ip_add_def ip_sub_def ip_add_assign_def ip_incr_def ip_decr_def
      ip_diff_def ipaddr_of_word_def less_ipaddr_def less_eq_ipaddr_def)

lemma ntohl_not: "ntohl (NOT w) = NOT (ntohl w)"
  by (rule bit_word_eqI) (auto simp: bit_ntohl bit_simps)

lemma ip_binary [simp]:
  "addr (ip_and a b) = addr a AND addr b" "addr (ip_or a b) = addr a OR addr b"
  "addr (ip_compl a) = NOT (addr a)"
  by (simp_all add: ip_and_def ip_or_def ip_compl_def ipaddr_of_word_def)

text \<open>
  The two operators that take a word disagree on its byte order: \<open>&\<close> takes the number,
  \<open>|\<close> the word in memory.
\<close>

lemma ip_word_orders:
  "host_word (ip_and_word a w) = host_word a AND w" "addr (ip_or_word a w) = addr a OR w"
  by (simp_all add: host_word_def ip_and_word_def ip_or_word_def ipaddr_of_word_def)

subsection \<open>\<^verbatim>\<open>struct ethernetaddr\<close>\<close>

type_synonym ethernetaddr = "u8 list"

definition ETHERADDR_LEN :: nat where "ETHERADDR_LEN = 6"

definition ether_zero :: ethernetaddr where "ether_zero = replicate ETHERADDR_LEN 0"

text \<open>
  \<^verbatim>\<open>ether_aton\<close> of the C library: six groups of one or two digits with colons between them. The
  number is how many groups are left.
\<close>

fun ether_aton_loop :: "nat \<Rightarrow> string \<Rightarrow> u8 list option" where
  "ether_aton_loop 0 s = Some []"
| "ether_aton_loop (Suc n) [] = None"
| "ether_aton_loop (Suc n) (c # s) =
     (case digit_val 16 c of
        None \<Rightarrow> None
      | Some h \<Rightarrow>
          (if (n \<noteq> 0 \<and> (s = [] \<or> hd s \<noteq> CHR '':'')) \<or> (n = 0 \<and> s \<noteq> [] \<and> \<not> is_space (hd s))
           then (case s of
                   [] \<Rightarrow> None
                 | d # s \<Rightarrow>
                     (case digit_val 16 d of
                        None \<Rightarrow> None
                      | Some l \<Rightarrow>
                          (if n \<noteq> 0 \<and> (s = [] \<or> hd s \<noteq> CHR '':'') then None
                           else map_option ((#) (of_nat (16 * h + l))) (ether_aton_loop n (tl s)))))
           else map_option ((#) (of_nat h)) (ether_aton_loop n (tl s))))"

definition ether_aton :: "string \<Rightarrow> u8 list option" where
  "ether_aton = ether_aton_loop 6"

definition ethernetaddr_of_text :: "string \<Rightarrow> ethernetaddr" where
  "ethernetaddr_of_text s = (case ether_aton s of None \<Rightarrow> ether_zero | Some e_addr \<Rightarrow> e_addr)"

definition ether_bool :: "ethernetaddr \<Rightarrow> bool" where
  "ether_bool octet \<longleftrightarrow> octet \<noteq> ether_zero"

text \<open>\<^verbatim>\<open>htonll\<close> on a little-endian host, and the bytes of a word of 64 bits in memory.\<close>

definition htonll :: "u64 \<Rightarrow> u64" where
  "htonll n = push_bit 32 (ucast (htonl (ucast n))) + ucast (htonl (ucast (drop_bit 32 n)))"

definition bytes64 :: "u64 \<Rightarrow> u8 list" where
  "bytes64 w = map (\<lambda>i. ucast (drop_bit (8 * i) w)) [0..<8]"

definition word64 :: "u8 list \<Rightarrow> u64" where
  "word64 bs = foldr (\<lambda>b w. push_bit 8 w OR ucast b) (take 8 bs) 0"

text \<open>The constructor from a number and the assignment of one.\<close>

definition ethernetaddr_of_word :: "u64 \<Rightarrow> ethernetaddr" where
  "ethernetaddr_of_word x = take ETHERADDR_LEN (drop 2 (bytes64 (htonll x)))"

definition ether_assign_word :: "u64 \<Rightarrow> ethernetaddr" where
  "ether_assign_word x = take ETHERADDR_LEN (bytes64 x)"

text \<open>The two bytes behind the octets are read as well, and shifted out.\<close>

definition as_long :: "u8 list \<Rightarrow> ethernetaddr \<Rightarrow> u64" where
  "as_long behind octet = drop_bit 16 (htonll (word64 (octet @ behind)))"

text \<open>\<^verbatim>\<open>memcmp(in.octet, octet, LEN) < 0\<close>: the operator compares the other way round.\<close>

definition ether_less :: "ethernetaddr \<Rightarrow> ethernetaddr \<Rightarrow> bool" where
  "ether_less octet other \<longleftrightarrow> lexordp (<) other octet"

definition is_private :: "ethernetaddr \<Rightarrow> bool" where "is_private octet \<longleftrightarrow> octet ! 0 AND 0x40 \<noteq> 0"
definition is_multicast :: "ethernetaddr \<Rightarrow> bool" where "is_multicast octet \<longleftrightarrow> octet ! 0 AND 0x80 \<noteq> 0"
definition is_broadcast :: "ethernetaddr \<Rightarrow> bool" where
  "is_broadcast octet \<longleftrightarrow> take 4 octet = replicate 4 0xff"
definition is_init :: "ethernetaddr \<Rightarrow> bool" where
  "is_init octet \<longleftrightarrow> take 4 octet \<noteq> replicate 4 0 \<and> drop 4 octet \<noteq> replicate 2 0"
definition is_zero :: "ethernetaddr \<Rightarrow> bool" where
  "is_zero octet \<longleftrightarrow> take 4 octet = replicate 4 0 \<and> drop 4 octet = replicate 2 0"

text \<open>A number of 48 bits is read back from the octets it was stored in.\<close>

lemma bit_htonll:
  "bit (htonll w) i = (i < 64 \<and> bit w (8 * (7 - i div 8) + i mod 8))"
proof -
  have "htonll w = push_bit 32 (ucast (htonl (ucast w))) OR ucast (htonl (ucast (drop_bit 32 w)))"
    unfolding htonll_def by (rule disjunctive_add) (auto simp: bit_simps bit_ntohl)
  moreover have "bit (push_bit 32 (ucast (htonl (ucast w))) OR ucast (htonl (ucast (drop_bit 32 w))) :: u64) i =
      bit w (8 * (7 - i div 8) + i mod 8)" if "i < 64" for i
  proof -
    define q r where "q = i div 8" and "r = i mod 8"
    then have i: "i = 8 * q + r" "r < 8" "q < 8" using that by simp_all
    then have "q = 0 \<or> q = 1 \<or> q = 2 \<or> q = 3 \<or> q = 4 \<or> q = 5 \<or> q = 6 \<or> q = 7" by arith
    then show ?thesis
      unfolding q_def [symmetric] r_def [symmetric] using i(2)
      by (elim disjE) (simp_all add: i(1) bit_simps bit_ntohl add.commute)
  qed
  moreover have "i < 64" if "bit (htonll w) i" using bit_imp_le_length [OF that] by simp
  ultimately show ?thesis by metis
qed

lemma bit_word64:
  assumes "length bs = 8"
  shows "bit (word64 bs) i \<longleftrightarrow> i < 64 \<and> bit (bs ! (i div 8)) (i mod 8)"
proof -
  obtain a b c d e f g h where bs: "bs = [a, b, c, d, e, f, g, h]"
    using assms by (auto simp: length_Suc_conv numeral_eq_Suc)
  show ?thesis
  proof (cases "i < 64")
    case True
    define q r where "q = i div 8" and "r = i mod 8"
    then have i: "i = 8 * q + r" "r < 8" "q < 8" using True by simp_all
    then have "q = 0 \<or> q = 1 \<or> q = 2 \<or> q = 3 \<or> q = 4 \<or> q = 5 \<or> q = 6 \<or> q = 7" by arith
    then show ?thesis
      unfolding q_def [symmetric] r_def [symmetric] using i(2)
      by (elim disjE) (auto simp: i(1) bs word64_def bit_simps dest: bit_imp_le_length)
  qed (auto dest: bit_imp_le_length)
qed

lemma as_long_of_word:
  assumes "length behind = 2"
  shows "as_long behind (ethernetaddr_of_word x) = take_bit 48 x"
proof (rule bit_word_eqI)
  fix i
  assume i: "i < LENGTH(64)"
  let ?o = "ethernetaddr_of_word x"
  have len: "length (?o @ behind) = 8"
    using assms by (simp add: ethernetaddr_of_word_def bytes64_def ETHERADDR_LEN_def)
  show "bit (as_long behind ?o) i = bit (take_bit 48 x) i"
  proof (cases "i < 48")
    case True
    define j where "j = 5 - i div 8"
    have j: "j < 6" "7 - (i + 16) div 8 = j" "7 - (j + 2) = i div 8"
      using True unfolding j_def by simp_all
    have r: "(i + 16) mod 8 = i mod 8" by presburger
    have "(?o @ behind) ! j = ucast (drop_bit (8 * (j + 2)) (htonll x))"
      using j(1) assms
      by (simp add: nth_append ethernetaddr_of_word_def bytes64_def ETHERADDR_LEN_def)
    then have "bit ((?o @ behind) ! j) (i mod 8) = bit (htonll x) (8 * (j + 2) + i mod 8)"
      by (simp add: bit_simps)
    also have "\<dots> = bit x (8 * (7 - (j + 2)) + i mod 8)"
    proof -
      have "(8 * (j + 2) + i mod 8) div 8 = j + 2" "(8 * (j + 2) + i mod 8) mod 8 = i mod 8"
        "8 * (j + 2) + i mod 8 < 64" using j(1) by presburger+
      then show ?thesis by (simp only: bit_htonll simp_thms)
    qed
    also have "\<dots> = bit x i" by (simp only: j(3) mult_div_mod_eq)
    finally have o: "bit ((?o @ behind) ! j) (i mod 8) = bit x i" .
    have "bit (as_long behind ?o) i = bit (word64 (?o @ behind)) (8 * j + i mod 8)"
      using True by (simp add: as_long_def bit_simps bit_htonll r j(2) add.commute [of 16])
    also have "\<dots> = bit ((?o @ behind) ! j) (i mod 8)"
    proof -
      have "(8 * j + i mod 8) div 8 = j" "(8 * j + i mod 8) mod 8 = i mod 8" "8 * j + i mod 8 < 64"
        using j(1) by presburger+
      then show ?thesis by (simp only: bit_word64 [OF len] simp_thms)
    qed
    finally show ?thesis using o True by (simp add: bit_simps)
  qed (use i in \<open>auto simp: as_long_def bit_simps bit_htonll\<close>)
qed

end
