(* ===== verification/Kit_Tables.thy ===== *)
theory Kit_Tables
  imports Kit_Addr
begin

section \<open>The tables of the router kit (\<^verbatim>\<open>rtable.hh\<close>, \<^verbatim>\<open>arptable.hh\<close>, \<^verbatim>\<open>iflist.hh\<close>, \<^verbatim>\<open>linux_proc_net.cc\<close>)\<close>

text \<open>
  The routing table, ARP table and interface list that the daemon reads from Linux. A table is
  the vector of its entries; two tables are compared entry by entry. None as a result is a
  read that writes past an array or adds an entry of variables that were never written.
\<close>

subsection \<open>Entries\<close>

record ipv4_entry =
  ie_dest :: ipaddr
  ie_gw :: ipaddr
  ie_mask :: ipaddr
  ie_dev :: string

record arp_entry =
  ae_ip :: ipaddr
  ae_etha :: ethernetaddr
  ae_dev :: string

record ifentry =
  ife_ip :: ipaddr
  ife_etha :: ethernetaddr
  ife_name :: string

fun rtable_contains :: "ipv4_entry list \<Rightarrow> ipv4_entry \<Rightarrow> bool" where
  "rtable_contains [] entry = False"
| "rtable_contains (e # table) entry = (if e = entry then True else rtable_contains table entry)"

fun arptable_contains :: "arp_entry list \<Rightarrow> arp_entry \<Rightarrow> bool" where
  "arptable_contains [] entry = False"
| "arptable_contains (e # table) entry = (if e = entry then True else arptable_contains table entry)"

lemma contains_set [simp]:
  "rtable_contains rt e \<longleftrightarrow> e \<in> set rt" "arptable_contains at a \<longleftrightarrow> a \<in> set at"
  by (induction rt; auto) (induction at; auto)

subsection \<open>\<^verbatim>\<open>/proc/net/route\<close>\<close>

definition BUFSIZ :: nat where "BUFSIZ = 8192"

definition route_fmt :: "sfmt list" where
  "route_fmt = [SWord, SHex, SHex, SDec, SDec, SDec, SDec, SHex, SDec, SDec, SDec]"

text \<open>
  The variables of the loop, None while they are not initialised. A conversion that fails
  leaves its variable as the line before set it.
\<close>

type_synonym route_vars = "string option \<times> u32 option \<times> u32 option \<times> u32 option"

definition num_at :: "nat \<Rightarrow> scanned list \<Rightarrow> u32 option \<Rightarrow> u32 option" where
  "num_at i vs old = (if i < length vs then (case vs ! i of Num n \<Rightarrow> Some n | Str _ \<Rightarrow> old) else old)"

definition scan_route :: "route_vars \<Rightarrow> string \<Rightarrow> route_vars option" where
  "scan_route vars buf =
     (case (fst (scan_stream route_fmt buf), vars) of
        (Str dev # vs, (_, dest, gw, msk)) \<Rightarrow>
          (if fits 16 dev then Some (Some dev, num_at 0 vs dest, num_at 1 vs gw, num_at 6 vs msk) else None)
      | _ \<Rightarrow> Some vars)"

fun route_loop :: "route_vars \<Rightarrow> string list \<Rightarrow> ipv4_entry list option" where
  "route_loop vars [] = Some []"
| "route_loop vars (buf # bufs) = do {
     vars \<leftarrow> scan_route vars buf;
     e \<leftarrow> (case vars of
           (Some dev, Some dest, Some gw, Some msk) \<Rightarrow>
             Some \<lparr>ie_dest = assign_word dest, ie_gw = assign_word gw, ie_mask = assign_word msk,
               ie_dev = dev\<rparr>
         | _ \<Rightarrow> None);
     rt \<leftarrow> route_loop vars bufs;
     Some (e # rt)
   }"

definition linux_proc_net_load_rtable :: "string \<Rightarrow> ipv4_entry list option" where
  "linux_proc_net_load_rtable proc_route =
     route_loop (None, None, None, None) (drop 1 (read_lines BUFSIZ proc_route))"

subsection \<open>\<^verbatim>\<open>/proc/net/arp\<close>\<close>

definition arp_fmt :: "sfmt list" where "arp_fmt = replicate 6 SWord"

type_synonym arp_vars = "string option \<times> string option \<times> string option"

definition str_at :: "nat \<Rightarrow> scanned list \<Rightarrow> string option \<Rightarrow> string option" where
  "str_at i vs old = (if i < length vs then (case vs ! i of Str s \<Rightarrow> Some s | Num _ \<Rightarrow> old) else old)"

definition scan_arp :: "arp_vars \<Rightarrow> string \<Rightarrow> arp_vars option" where
  "scan_arp vars buf =
     (let vs = fst (scan_stream arp_fmt buf)
      in if \<forall>i\<in>{0..<length vs}. (case vs ! i of Str w \<Rightarrow> fits (if i = 5 then 16 else 32) w | _ \<Rightarrow> True)
         then (case vars of (ip, mac, dev) \<Rightarrow> Some (str_at 0 vs ip, str_at 3 vs mac, str_at 5 vs dev))
         else None)"

fun arp_loop :: "(string \<Rightarrow> u32 option) \<Rightarrow> arp_vars \<Rightarrow> string list \<Rightarrow> arp_entry list option" where
  "arp_loop host vars [] = Some []"
| "arp_loop host vars (buf # bufs) = do {
     vars \<leftarrow> scan_arp vars buf;
     es \<leftarrow> (case vars of
           (ip, Some mac, dev) \<Rightarrow>
             (if ether_bool (ethernetaddr_of_text mac)
              then (case (ip, dev) of
                      (Some ip, Some dev) \<Rightarrow>
                        Some [\<lparr>ae_ip = ipaddr_of_text host ip, ae_etha = ethernetaddr_of_text mac, ae_dev = dev\<rparr>]
                    | _ \<Rightarrow> None)
              else Some [])
         | _ \<Rightarrow> None);
     at \<leftarrow> arp_loop host vars bufs;
     Some (es @ at)
   }"

definition linux_proc_net_load_arptable ::
  "(string \<Rightarrow> u32 option) \<Rightarrow> string \<Rightarrow> arp_entry list option" where
  "linux_proc_net_load_arptable host proc_arp =
     arp_loop host (None, None, None) (drop 1 (read_lines BUFSIZ proc_arp))"

subsection \<open>The interfaces\<close>

text \<open>
  What \<^verbatim>\<open>SIOCGIFCONF\<close> lists: the address, the MAC address unless \<^verbatim>\<open>SIOCGIFHWADDR\<close> fails, and
  the name. The loop starts at the second interface.
\<close>

type_synonym ifreq = "u32 \<times> u8 list option \<times> string"

definition fill_iflist :: "ifreq list \<Rightarrow> ifentry list" where
  "fill_iflist ifaces =
     map (\<lambda>(ip, hwaddr, name). \<lparr>ife_ip = Ipaddr ip,
       ife_etha = (case hwaddr of None \<Rightarrow> ether_zero | Some octet \<Rightarrow> octet), ife_name = name\<rparr>) (drop 1 ifaces)"

subsection \<open>Reading back what Linux prints\<close>

text \<open>\<^verbatim>\<open>%02x:%02x:%02x:%02x:%02x:%02x\<close>\<close>

definition hex2 :: "u8 \<Rightarrow> string" where
  "hex2 b = [xdigit (unat b div 16), xdigit (unat b mod 16)]"

definition show_ether :: "ethernetaddr \<Rightarrow> string" where
  "show_ether m = hex2 (m ! 0) @ '':'' @ hex2 (m ! 1) @ '':'' @ hex2 (m ! 2) @ '':'' @
     hex2 (m ! 3) @ '':'' @ hex2 (m ! 4) @ '':'' @ hex2 (m ! 5)"

definition tab :: char where "tab = CHR 0x09"

text \<open>
  A line of \<^verbatim>\<open>/proc/net/route\<close>: flags, reference count, use and metric stand before the mask,
  MTU, window and round trip time behind it.
\<close>

definition proc_route_line :: "string list \<Rightarrow> ipv4_entry \<Rightarrow> string" where
  "proc_route_line cols e = ie_dev e @ tab # hex8 (addr (ie_dest e)) @ tab # hex8 (addr (ie_gw e)) @
     tab # cols ! 0 @ tab # cols ! 1 @ tab # cols ! 2 @ tab # cols ! 3 @ tab # hex8 (addr (ie_mask e)) @
     tab # cols ! 4 @ tab # cols ! 5 @ tab # cols ! 6 @ [nl]"

definition proc_arp_line :: "arp_entry \<Rightarrow> string" where
  "proc_arp_line a = inet_ntop (addr (ae_ip a)) @ ''  0x1 0x2 '' @ show_ether (ae_etha a) @ '' * '' @
     ae_dev a @ [nl]"

lemma tab_space [simp]: "is_space tab" "tab \<noteq> nl"
  by (simp_all add: tab_def is_space_def nl_def)

definition route_line_ok :: "string list \<Rightarrow> ipv4_entry \<Rightarrow> bool" where
  "route_line_ok cols e \<longleftrightarrow> plain_word (ie_dev e) \<and> length (ie_dev e) < 16 \<and> length cols = 7 \<and>
     (\<forall>c\<in>set cols. decimal c \<and> length c \<le> 20)"

lemma scan_route_line:
  assumes "route_line_ok cols e"
  shows "scan_route vars (proc_route_line cols e) =
    Some (Some (ie_dev e), Some (addr (ie_dest e)), Some (addr (ie_gw e)), Some (addr (ie_mask e)))"
proof -
  from assms have dev: "plain_word (ie_dev e)" "length (ie_dev e) < 16"
    and cols: "\<And>i. i < 7 \<Longrightarrow> decimal (cols ! i)"
    by (simp_all add: route_line_ok_def)
  have word: "scan_stream (SWord # fs) (ie_dev e @ tab # t) =
      (Str (ie_dev e) # fst (scan_stream fs (tab # t)), snd (scan_stream fs (tab # t)))" for fs t
    using scan_stream_word [OF dev(1) tab_space(1), of "[]"] by (simp del: scan_stream.simps)
  note hex = scan_stream_hex8 [OF tab_space(1) tab_space(1)]
  note dec = scan_stream_decimal [OF cols tab_space(1) tab_space(1)]
    scan_stream_decimal [OF cols tab_space(1) nl_space]
  define f where "f i = store_signed False (value_of 10 (cols ! i) 0)" for i
  have "fst (scan_stream route_fmt (proc_route_line cols e)) =
      [Str (ie_dev e), Num (addr (ie_dest e)), Num (addr (ie_gw e)), Num (f 0), Num (f 1), Num (f 2),
        Num (f 3), Num (addr (ie_mask e)), Num (f 4), Num (f 5), Num (f 6)]"
    unfolding route_fmt_def proc_route_line_def f_def
    by (simp add: word hex dec del: scan_stream.simps(2-))
  then show ?thesis
    using dev(2) by (cases vars) (simp add: scan_route_def num_at_def fits_def)
qed

lemma route_loop_lines:
  assumes "\<forall>(cols, e)\<in>set rows. route_line_ok cols e"
  shows "route_loop vars (map (\<lambda>(cols, e). proc_route_line cols e) rows) = Some (map snd rows)"
  using assms
proof (induction rows arbitrary: vars)
  case (Cons r rows)
  then show ?case by (cases r) (simp add: scan_route_line assign_word_def)
qed simp

lemma not_nl: "\<not> is_space c \<Longrightarrow> c \<noteq> nl"
  using nl_space by auto

lemma digit_not_nl: "digit_val base c \<noteq> None \<Longrightarrow> c \<noteq> nl"
  using digit_val_space [OF nl_space, of base] by auto

lemma proc_route_line_ends:
  assumes "route_line_ok cols e"
  shows "\<exists>w. proc_route_line cols e = w @ [nl] \<and> nl \<notin> set w \<and> length w + 1 < BUFSIZ"
proof -
  let ?w = "ie_dev e @ tab # hex8 (addr (ie_dest e)) @ tab # hex8 (addr (ie_gw e)) @
     tab # cols ! 0 @ tab # cols ! 1 @ tab # cols ! 2 @ tab # cols ! 3 @ tab # hex8 (addr (ie_mask e)) @
     tab # cols ! 4 @ tab # cols ! 5 @ tab # cols ! 6"
  from assms have dev: "plain_word (ie_dev e)" "length (ie_dev e) < 16"
    and cols: "\<And>i. i < 7 \<Longrightarrow> decimal (cols ! i)" "\<And>i. i < 7 \<Longrightarrow> length (cols ! i) \<le> 20"
    by (simp_all add: route_line_ok_def)
  have "nl \<notin> set (ie_dev e)" using dev(1) not_nl by (auto simp: plain_word_def)
  moreover have "nl \<notin> set (hex8 w)" for w using hex8_digits(2) [of w] digit_not_nl by blast
  moreover have "nl \<notin> set (cols ! i)" if "i < 7" for i
    using cols(1) [OF that] digit_not_nl unfolding decimal_def by blast
  ultimately have "nl \<notin> set ?w" by (simp add: tab_space(2) [symmetric])
  moreover have "length ?w + 1 < BUFSIZ"
    using dev(2) cols(2) [of 0] cols(2) [of 1] cols(2) [of 2] cols(2) [of 3] cols(2) [of 4]
      cols(2) [of 5] cols(2) [of 6]
    by (simp add: hex8_digits(3) BUFSIZ_def)
  ultimately show ?thesis by (intro exI [of _ ?w]) (simp add: proc_route_line_def)
qed

text \<open>The first line of both files is their heading.\<close>

definition heading_ok :: "string \<Rightarrow> bool" where
  "heading_ok h \<longleftrightarrow> nl \<notin> set h \<and> length h < BUFSIZ - 1"

lemma load_rtable_proc:
  assumes "heading_ok h" "\<forall>(cols, e)\<in>set rows. route_line_ok cols e"
  shows "linux_proc_net_load_rtable (h @ nl # concat (map (\<lambda>(cols, e). proc_route_line cols e) rows)) =
    Some (map snd rows)"
proof -
  have "read_lines BUFSIZ (concat ((h @ [nl]) # map (\<lambda>(cols, e). proc_route_line cols e) rows)) =
      (h @ [nl]) # map (\<lambda>(cols, e). proc_route_line cols e) rows"
    by (rule read_lines_concat)
      (use assms proc_route_line_ends in \<open>auto simp: heading_ok_def BUFSIZ_def\<close>)
  then show ?thesis
    using route_loop_lines [OF assms(2)] by (simp add: linux_proc_net_load_rtable_def)
qed

lemma hex2_digits:
  obtains h l where "hex2 b = [xdigit h, xdigit l]" "h < 16" "l < 16" "of_nat (16 * h + l) = b"
proof (rule that)
  show "unat b div 16 < 16" using unat_u8_le [of b] by (simp add: div_less_iff_less_mult)
  show "unat b mod 16 < 16" by simp
  show "of_nat (16 * (unat b div 16) + unat b mod 16) = b"
    unfolding mult_div_mod_eq by simp
qed (simp add: hex2_def)

lemma ether_aton_step:
  "ether_aton_loop (Suc (Suc n)) (hex2 b @ CHR '':'' # s) = map_option ((#) b) (ether_aton_loop (Suc n) s)"
  "ether_aton_loop (Suc 0) (hex2 b) = Some [b]"
  by (rule hex2_digits [of b]; simp add: xdigit_facts)+

lemma ether_aton_show:
  assumes "length m = 6"
  shows "ether_aton (show_ether m) = Some m"
proof -
  obtain a b c d e f where m: "m = [a, b, c, d, e, f]"
    using assms by (auto simp: length_Suc_conv numeral_eq_Suc)
  have six: "(6 :: nat) = Suc (Suc (Suc (Suc (Suc (Suc 0)))))" by simp
  show ?thesis
    unfolding ether_aton_def six m show_ether_def
    by (simp add: ether_aton_step del: ether_aton_loop.simps)
qed

definition arp_line_ok :: "arp_entry \<Rightarrow> bool" where
  "arp_line_ok a \<longleftrightarrow> length (ae_etha a) = 6 \<and> plain_word (ae_dev a) \<and> length (ae_dev a) < 16"

lemma show_ether_plain: "plain_word (show_ether m)" "length (show_ether m) = 17"
proof -
  have "\<forall>c\<in>set (hex2 b). \<not> is_space c" "length (hex2 b) = 2" "hex2 b \<noteq> []" for b
    by (rule hex2_digits [of b]; simp add: xdigit_facts)+
  then show "plain_word (show_ether m)" "length (show_ether m) = 17"
    by (simp_all add: show_ether_def plain_word_def is_space_def ball_Un)
qed

lemma scan_arp_line:
  assumes "arp_line_ok a"
  shows "scan_arp vars (proc_arp_line a) =
    Some (Some (inet_ntop (addr (ae_ip a))), Some (show_ether (ae_etha a)), Some (ae_dev a))"
proof -
  from assms have dev: "plain_word (ae_dev a)" "length (ae_dev a) < 16" by (simp_all add: arp_line_ok_def)
  have ip: "scan_stream (SWord # fs) (inet_ntop w @ CHR '' '' # t) =
      (Str (inet_ntop w) # fst (scan_stream fs (CHR '' '' # t)), snd (scan_stream fs (CHR '' '' # t)))" for fs w t
    using scan_stream_word [OF plain_word_ntop is_space_space, of "[]"] by (simp del: scan_stream.simps)
  have word: "scan_stream (SWord # fs) (CHR '' '' # w @ z # t) =
      (Str w # fst (scan_stream fs (z # t)), snd (scan_stream fs (z # t)))"
    if "plain_word w" "is_space z" for fs w z t
    using scan_stream_word [OF that, of "[CHR '' '']"] by (simp del: scan_stream.simps)
  have twice: "scan_stream (SWord # fs) (CHR '' '' # CHR '' '' # t) = scan_stream (SWord # fs) (CHR '' '' # t)" for fs t
    by (simp add: skip_space_def)
  have stars: "plain_word ''0x1''" "plain_word ''0x2''" "plain_word ''*''"
    by (simp_all add: plain_word_def is_space_def)
  have line: "proc_arp_line a = inet_ntop (addr (ae_ip a)) @ CHR '' '' # CHR '' '' # ''0x1'' @ CHR '' '' #
      ''0x2'' @ CHR '' '' # show_ether (ae_etha a) @ CHR '' '' # ''*'' @ CHR '' '' # ae_dev a @ nl # []"
    by (simp add: proc_arp_line_def)
  have fmt: "arp_fmt = [SWord, SWord, SWord, SWord, SWord, SWord]"
    by (simp add: arp_fmt_def numeral_eq_Suc)
  have vs: "fst (scan_stream arp_fmt (proc_arp_line a)) = map Str [inet_ntop (addr (ae_ip a)), ''0x1'', ''0x2'',
      show_ether (ae_etha a), ''*'', ae_dev a]"
    unfolding fmt line ip twice word [OF stars(1) is_space_space] word [OF stars(2) is_space_space]
      word [OF show_ether_plain(1) is_space_space] word [OF stars(3) is_space_space] word [OF dev(1) nl_space]
    by simp
  have "length (inet_ntop w) < 32" for w using length_inet_ntop [of w] by simp
  then show ?thesis
    using dev(2) vs
    by (cases vars) (simp add: scan_arp_def Let_def fits_def str_at_def show_ether_plain(2)
        atLeast0LessThan lessThan_Suc)
qed

lemma arp_loop_lines:
  assumes "\<forall>a\<in>set rows. arp_line_ok a" "\<And>w. host (inet_ntop w) = Some w"
  shows "arp_loop host vars (map proc_arp_line rows) = Some (filter (\<lambda>a. ether_bool (ae_etha a)) rows)"
  using assms(1)
proof (induction rows arbitrary: vars)
  case (Cons a rows)
  then have "ethernetaddr_of_text (show_ether (ae_etha a)) = ae_etha a"
    by (simp add: ethernetaddr_of_text_def ether_aton_show arp_line_ok_def)
  with Cons show ?case by (simp add: scan_arp_line ipaddr_of_text_def assms(2))
qed simp

lemma proc_arp_line_ends:
  assumes "arp_line_ok a"
  shows "\<exists>w. proc_arp_line a = w @ [nl] \<and> nl \<notin> set w \<and> length w + 1 < BUFSIZ"
proof -
  let ?w = "inet_ntop (addr (ae_ip a)) @ ''  0x1 0x2 '' @ show_ether (ae_etha a) @ '' * '' @ ae_dev a"
  have "nl \<notin> set v" if "plain_word v" for v using that not_nl by (auto simp: plain_word_def)
  then have "nl \<notin> set ?w"
    using assms show_ether_plain(1) plain_word_ntop by (simp add: arp_line_ok_def nl_def)
  moreover have "length ?w + 1 < BUFSIZ"
    using assms show_ether_plain(2) [of "ae_etha a"] length_inet_ntop [of "addr (ae_ip a)"]
    by (simp add: arp_line_ok_def BUFSIZ_def)
  ultimately show ?thesis by (intro exI [of _ ?w]) (simp add: proc_arp_line_def)
qed

lemma load_arptable_proc:
  assumes "heading_ok h" "\<forall>a\<in>set rows. arp_line_ok a" "\<And>w. host (inet_ntop w) = Some w"
  shows "linux_proc_net_load_arptable host (h @ nl # concat (map proc_arp_line rows)) =
    Some (filter (\<lambda>a. ether_bool (ae_etha a)) rows)"
proof -
  have "read_lines BUFSIZ (concat ((h @ [nl]) # map proc_arp_line rows)) = (h @ [nl]) # map proc_arp_line rows"
    by (rule read_lines_concat)
      (use assms(1,2) proc_arp_line_ends in \<open>auto simp: heading_ok_def BUFSIZ_def\<close>)
  then show ?thesis
    using arp_loop_lines [OF assms(2,3)] by (simp add: linux_proc_net_load_arptable_def)
qed

end
