(* ===== verification/Router_Kit.thy ===== *)
theory Router_Kit
  imports Kit_Tables Hw_Access
begin

section \<open>The router kit: Linux tables in the hardware (\<^verbatim>\<open>sume_mon.cc\<close>, \<^verbatim>\<open>rkd.cc\<close>)\<close>

text \<open>
  The daemon polls the routing table, the ARP table and the interfaces of Linux and copies those
  of the router's ports into the hardware. \<open>sume_mon\<close> is the object that holds the copies; a
  poll is one round of the loop of \<^verbatim>\<open>main\<close>. Accesses to the registers succeed; waiting between
  the rounds and becoming a daemon are left out.
\<close>

subsection \<open>Rows\<close>

definition FIXME_RT_MAX :: nat where "FIXME_RT_MAX = 32"
definition FIXME_ARP_MAX :: nat where "FIXME_ARP_MAX = 32"
definition FIXME_DST_FILTER_MAX :: nat where "FIXME_DST_FILTER_MAX = 32"

type_synonym ports = "string \<Rightarrow> u32 option"

text \<open>\<^verbatim>\<open>devtoport[dev]\<close> makes an entry with port 0 when there is none.\<close>

definition port_of :: "ports \<Rightarrow> string \<Rightarrow> u32" where
  "port_of devtoport dev = (case devtoport dev of None \<Rightarrow> 0 | Some p \<Rightarrow> p)"

definition clear_route :: "hw_config \<Rightarrow> nat \<Rightarrow> hw_state \<Rightarrow> hw_state" where
  "clear_route hw i = write_indirect
     [(INDIRECTWRDATA_A_HI, 0), (INDIRECTWRDATA_B_HI, 0xffffffff), (INDIRECTWRDATA_A_LOW, 0),
      (INDIRECTWRDATA_B_LOW, 0)] (lpm_tcam_address hw OR of_nat i)"

definition clear_arp :: "hw_config \<Rightarrow> nat \<Rightarrow> hw_state \<Rightarrow> hw_state" where
  "clear_arp hw i = write_indirect
     [(INDIRECTWRDATA_B_LOW, 0), (INDIRECTWRDATA_A_HI, 0), (INDIRECTWRDATA_A_LOW, 0)]
     (arp_cam_address hw OR of_nat i)"

definition write_dst_filter :: "hw_config \<Rightarrow> nat \<Rightarrow> u32 \<Rightarrow> hw_state \<Rightarrow> hw_state" where
  "write_dst_filter hw i ip = write_indirect [(INDIRECTWRDATA_B_LOW, ip)] (dest_ip_cam_address hw OR of_nat i)"

definition clear_hw_rtable :: "hw_config \<Rightarrow> hw_state \<Rightarrow> hw_state" where
  "clear_hw_rtable hw = fold (clear_route hw) [0..<FIXME_RT_MAX]"

definition clear_hw_arptable :: "hw_config \<Rightarrow> hw_state \<Rightarrow> hw_state" where
  "clear_hw_arptable hw = fold (clear_arp hw) [0..<FIXME_ARP_MAX]"

definition clear_dst_filter_rtable :: "hw_config \<Rightarrow> hw_state \<Rightarrow> hw_state" where
  "clear_dst_filter_rtable hw = fold (\<lambda>i. write_dst_filter hw i 0) [0..<FIXME_DST_FILTER_MAX]"

text \<open>The two words of a MAC address, as both loops and \<^verbatim>\<open>nf_set_mac\<close> compute them.\<close>

definition ether_hi :: "ethernetaddr \<Rightarrow> u32" where
  "ether_hi octet = push_bit 8 (ucast (octet ! 0)) OR ucast (octet ! 1)"

definition ether_lo :: "ethernetaddr \<Rightarrow> u32" where
  "ether_lo octet = push_bit 24 (ucast (octet ! 2)) OR push_bit 16 (ucast (octet ! 3)) OR
     push_bit 8 (ucast (octet ! 4)) OR ucast (octet ! 5)"

definition nf_set_mac :: "ethernetaddr \<Rightarrow> nat \<Rightarrow> hw_state \<Rightarrow> hw_state" where
  "nf_set_mac m index S =
     (if index < 4 then hw_replay [(MAC_HI index, ether_hi m), (MAC_LOW index, ether_lo m)] S else S)"

subsection \<open>The monitor\<close>

record sume_mon =
  sm_hw :: hw_state
  sm_devtoport :: ports
  sm_rt :: "ipv4_entry list"
  sm_at :: "arp_entry list"
  sm_ifl :: "ifentry list"

definition update_routing_table :: "hw_config \<Rightarrow> ipv4_entry list \<Rightarrow> sume_mon \<Rightarrow> sume_mon" where
  "update_routing_table hw newrt m =
     (let S = fold (clear_route hw) [0..<length (sm_rt m)] (sm_hw m);
          S = fold (\<lambda>i. write_indirect
                [(INDIRECTWRDATA_A_HI, htonl (addr (ie_dest (newrt ! i)))),
                 (INDIRECTWRDATA_B_HI, htonl (addr (ie_mask (newrt ! i)))),
                 (INDIRECTWRDATA_A_LOW, htonl (addr (ie_gw (newrt ! i)))),
                 (INDIRECTWRDATA_B_LOW, port_of (sm_devtoport m) (ie_dev (newrt ! i)))]
                (lpm_tcam_address hw OR of_nat i)) [0..<length newrt] S
      in m\<lparr>sm_hw := S\<rparr>)"

definition update_arp_table :: "hw_config \<Rightarrow> arp_entry list \<Rightarrow> sume_mon \<Rightarrow> sume_mon" where
  "update_arp_table hw newat m =
     (let S = fold (clear_arp hw) [0..<length (sm_at m)] (sm_hw m);
          S = fold (\<lambda>i. write_indirect
                [(INDIRECTWRDATA_B_LOW, ntohl (addr (ae_ip (newat ! i)))),
                 (INDIRECTWRDATA_A_HI, ether_hi (ae_etha (newat ! i))),
                 (INDIRECTWRDATA_A_LOW, ether_lo (ae_etha (newat ! i)))]
                (arp_cam_address hw OR of_nat i)) [0..<length newat] S
      in m\<lparr>sm_hw := S\<rparr>)"

definition OSPF_ADDRESS :: string where "OSPF_ADDRESS = ''224.0.0.5''"

definition update_interface_table ::
  "hw_config \<Rightarrow> (string \<Rightarrow> u32 option) \<Rightarrow> ifentry list \<Rightarrow> sume_mon \<Rightarrow> sume_mon" where
  "update_interface_table hw host newlist m =
     (let S = fold (\<lambda>i. write_dst_filter hw i 0) [0..<length (sm_ifl m)] (sm_hw m);
          S = fold (\<lambda>i S. nf_set_mac (ife_etha (newlist ! i)) i
                (write_dst_filter hw i (htonl (addr (ife_ip (newlist ! i)))) S)) [0..<length newlist] S;
          ospf = ipaddr_of_text host OSPF_ADDRESS;
          S = write_dst_filter hw (length newlist) (htonl (addr ospf)) S
      in m\<lparr>sm_hw := S\<rparr>)"

definition rtable_update :: "hw_config \<Rightarrow> ipv4_entry list \<Rightarrow> sume_mon \<Rightarrow> sume_mon" where
  "rtable_update hw rt1 m =
     (let local = filter (\<lambda>e. sm_devtoport m (ie_dev e) \<noteq> None) rt1;
          m = (if sm_rt m \<noteq> local then update_routing_table hw local m else m)
      in m\<lparr>sm_rt := local\<rparr>)"

definition arptable_update :: "hw_config \<Rightarrow> arp_entry list \<Rightarrow> sume_mon \<Rightarrow> sume_mon" where
  "arptable_update hw at1 m =
     (let local = filter (\<lambda>a. sm_devtoport m (ae_dev a) \<noteq> None) at1;
          m = (if sm_at m \<noteq> local then update_arp_table hw local m else m)
      in m\<lparr>sm_at := local\<rparr>)"

definition interface_update ::
  "hw_config \<Rightarrow> (string \<Rightarrow> u32 option) \<Rightarrow> ifentry list \<Rightarrow> sume_mon \<Rightarrow> sume_mon" where
  "interface_update hw host ifl1 m =
     (let local = filter (\<lambda>f. sm_devtoport m (ife_name f) \<noteq> None) ifl1;
          m = (if \<not> sm_ifl m = local then update_interface_table hw host local m else m)
      in m\<lparr>sm_ifl := local\<rparr>)"

text \<open>
  The constructor. \<open>base\<close> is \<^verbatim>\<open>atoi\<close> of the array \<^verbatim>\<open>interface\<close>, to which nothing is ever
  assigned; \<open>S\<close> is the state in which the hardware is found.
\<close>

definition nf_name :: "int \<Rightarrow> string" where "nf_name n = ''nf'' @ show_int n"

definition devtoport_of :: "int \<Rightarrow> ports" where
  "devtoport_of base = [nf_name base \<mapsto> 1, nf_name (base + 1) \<mapsto> 4, nf_name (base + 2) \<mapsto> 16,
     nf_name (base + 3) \<mapsto> 64]"

definition new_sume_mon :: "hw_config \<Rightarrow> int \<Rightarrow> hw_state \<Rightarrow> sume_mon" where
  "new_sume_mon hw base S =
     \<lparr>sm_hw = clear_dst_filter_rtable hw (clear_hw_arptable hw (clear_hw_rtable hw S)),
      sm_devtoport = devtoport_of base, sm_rt = [], sm_at = [], sm_ifl = []\<rparr>"

subsection \<open>The daemon\<close>

text \<open>What Linux shows at a poll: the two files and the list of interfaces.\<close>

record kernel =
  proc_route :: string
  proc_arp :: string
  ifconf :: "ifreq list"

record rkd =
  rtcur :: "ipv4_entry list"
  arpcur :: "arp_entry list"
  ifcur :: "ifentry list"
  eh_mon :: sume_mon

definition rkd_start :: "hw_config \<Rightarrow> int \<Rightarrow> hw_state \<Rightarrow> rkd" where
  "rkd_start hw base S = \<lparr>rtcur = [], arpcur = [], ifcur = [], eh_mon = new_sume_mon hw base S\<rparr>"

definition rkd_poll :: "hw_config \<Rightarrow> (string \<Rightarrow> u32 option) \<Rightarrow> kernel \<Rightarrow> rkd \<Rightarrow> rkd option" where
  "rkd_poll hw host k d = do {
     rtcheck \<leftarrow> linux_proc_net_load_rtable (proc_route k);
     let d = (if rtcheck \<noteq> rtcur d
              then d\<lparr>eh_mon := rtable_update hw rtcheck (eh_mon d), rtcur := rtcheck\<rparr> else d);
     arpcheck \<leftarrow> linux_proc_net_load_arptable host (proc_arp k);
     let d = (if arpcheck \<noteq> arpcur d
              then d\<lparr>arpcur := arpcheck, eh_mon := arptable_update hw arpcheck (eh_mon d)\<rparr> else d);
     let ifcheck = fill_iflist (ifconf k);
     Some (if ifcheck \<noteq> ifcur d
           then d\<lparr>eh_mon := interface_update hw host ifcheck (eh_mon d), ifcur := ifcheck\<rparr> else d)
   }"

fun rkd_loop :: "hw_config \<Rightarrow> (string \<Rightarrow> u32 option) \<Rightarrow> kernel list \<Rightarrow> rkd \<Rightarrow> rkd option" where
  "rkd_loop hw host [] d = Some d"
| "rkd_loop hw host (k # ks) d = do { d \<leftarrow> rkd_poll hw host k d; rkd_loop hw host ks d }"

subsection \<open>The tables of the hardware\<close>

definition lpm_rows_at :: "hw_config \<Rightarrow> hw_state \<Rightarrow> tcam_row list" where
  "lpm_rows_at hw S = map (\<lambda>a. tcam_row_of (snd S a)) (row_addrs (lpm_tcam_address hw) 32)"

definition arp_rows_at :: "hw_config \<Rightarrow> hw_state \<Rightarrow> (u32 \<times> u32 \<times> u32) list" where
  "arp_rows_at hw S = map (\<lambda>a. arp_row_of (snd S a)) (row_addrs (arp_cam_address hw) 32)"

definition filter_rows_at :: "hw_config \<Rightarrow> hw_state \<Rightarrow> u32 list" where
  "filter_rows_at hw S = map (\<lambda>a. snd S a INDIRECTWRDATA_B_LOW) (row_addrs (dest_ip_cam_address hw) 32)"

definition write_filter_at :: "u32 \<Rightarrow> u32 \<Rightarrow> hw_state \<Rightarrow> hw_state" where
  "write_filter_at ip a = write_indirect [(INDIRECTWRDATA_B_LOW, ip)] a"

interpretation dst_table: indirect_table write_filter_at "\<lambda>R. R INDIRECTWRDATA_B_LOW"
  by unfold_locales (auto simp: write_filter_at_def write_indirect_eq Let_def)

definition route_row :: "ports \<Rightarrow> ipv4_entry \<Rightarrow> tcam_row" where
  "route_row devtoport e = \<lparr>tr_ip = ntohl (addr (ie_dest e)), tr_mask = ntohl (addr (ie_mask e)),
     tr_next_hop = ntohl (addr (ie_gw e)), tr_port = port_of devtoport (ie_dev e)\<rparr>"

definition no_route_row :: tcam_row where
  "no_route_row = \<lparr>tr_ip = 0, tr_mask = 0xffffffff, tr_next_hop = 0, tr_port = 0\<rparr>"

definition arp_entry_row :: "arp_entry \<Rightarrow> u32 \<times> u32 \<times> u32" where
  "arp_entry_row a = (ether_hi (ae_etha a), ether_lo (ae_etha a), ntohl (addr (ae_ip a)))"

text \<open>The rows of the three tables have addresses of their own.\<close>

definition tables_apart :: "hw_config \<Rightarrow> bool" where
  "tables_apart hw \<longleftrightarrow> distinct (row_addrs (lpm_tcam_address hw) 32 @ row_addrs (arp_cam_address hw) 32 @
     row_addrs (dest_ip_cam_address hw) 32)"

subsection \<open>One update\<close>

definition mac_of :: "hw_state \<Rightarrow> nat \<Rightarrow> u32 \<times> u32" where
  "mac_of S i = (fst S (MAC_HI i), fst S (MAC_LOW i))"

text \<open>An operation that changes only rows at addresses of \<open>as\<close>.\<close>

definition keeps_rows :: "u32 list \<Rightarrow> hw_state \<Rightarrow> hw_state \<Rightarrow> bool" where
  "keeps_rows as S S' \<longleftrightarrow> (\<forall>b. b \<notin> set as \<longrightarrow> snd S' b = snd S b) \<and> mac_of S' = mac_of S"

lemma keeps_rows_refl [simp]: "keeps_rows as S S"
  by (simp add: keeps_rows_def)

lemma keeps_rows_trans: "keeps_rows as S S' \<Longrightarrow> keeps_rows as S' S'' \<Longrightarrow> keeps_rows as S S''"
  by (simp add: keeps_rows_def)

lemma keeps_rows_fold:
  assumes "\<And>i S. i \<in> set is \<Longrightarrow> keeps_rows as S (f i S)"
  shows "keeps_rows as S (fold f is S)"
  using assms
proof (induction "is" arbitrary: S)
  case (Cons i "is")
  then show ?case using keeps_rows_trans [of as S "f i S"] by simp
qed simp

lemma keeps_rows_indirect:
  assumes "data_writes ws" "\<forall>w\<in>set ws. \<forall>i. fst w \<noteq> MAC_HI i \<and> fst w \<noteq> MAC_LOW i" "a \<in> set as"
  shows "keeps_rows as S (write_indirect ws a S)"
proof -
  have "fold reg_load ws R (MAC_HI i) = R (MAC_HI i) \<and> fold reg_load ws R (MAC_LOW i) = R (MAC_LOW i)" for R i
    using assms(2)
  proof (induction ws arbitrary: R)
    case (Cons w ws)
    then show ?case by (cases w) auto
  qed simp
  then show ?thesis
    using assms(3) by (auto simp: keeps_rows_def write_indirect_eq [OF assms(1)] Let_def mac_of_def)
qed

abbreviation lpm_addrs :: "hw_config \<Rightarrow> u32 list" where
  "lpm_addrs hw \<equiv> row_addrs (lpm_tcam_address hw) 32"
abbreviation arp_addrs :: "hw_config \<Rightarrow> u32 list" where
  "arp_addrs hw \<equiv> row_addrs (arp_cam_address hw) 32"
abbreviation filter_addrs :: "hw_config \<Rightarrow> u32 list" where
  "filter_addrs hw \<equiv> row_addrs (dest_ip_cam_address hw) 32"

lemma row_addr_in [simp]: "i < 32 \<Longrightarrow> base OR of_nat i \<in> set (row_addrs base 32)"
  by (auto simp: row_addrs_def)

lemma rows_at:
  "lpm_rows_at hw = lpm_table.rows (lpm_addrs hw)" "arp_rows_at hw = mac_table.rows (arp_addrs hw)"
  "filter_rows_at hw = dst_table.rows (filter_addrs hw)"
  by (rule ext; simp add: lpm_rows_at_def arp_rows_at_def filter_rows_at_def lpm_table.rows_def
      mac_table.rows_def dst_table.rows_def)+

lemma length_rows_at [simp]:
  "length (lpm_rows_at hw S) = 32" "length (arp_rows_at hw S) = 32" "length (filter_rows_at hw S) = 32"
  by (simp_all add: lpm_rows_at_def arp_rows_at_def filter_rows_at_def)

text \<open>The loops of the code as loops over the rows of a table.\<close>

lemma fold_ext:
  assumes "\<And>i. i \<in> set is \<Longrightarrow> f i = g i"
  shows "fold f is = fold g is"
  using assms by (induction "is") simp_all

lemma map_index: "map (\<lambda>i. f (xs ! i)) [0..<length xs] = map f xs"
  by (rule nth_equalityI) simp_all

lemma loop_write_rows:
  assumes "n \<le> 32"
  shows "fold (clear_route hw) [0..<n] = lpm_table.write_rows (\<lambda>_ S. S) (\<lambda>_. no_route_row) (lpm_addrs hw) n"
    and "fold (clear_arp hw) [0..<n] = mac_table.write_rows (\<lambda>_ S. S) (\<lambda>_. (0, 0, 0)) (arp_addrs hw) n"
    and "fold (\<lambda>i. write_dst_filter hw i 0) [0..<n] =
      dst_table.write_rows (\<lambda>_ S. S) (\<lambda>_. 0) (filter_addrs hw) n"
proof -
  show "fold (clear_route hw) [0..<n] = lpm_table.write_rows (\<lambda>_ S. S) (\<lambda>_. no_route_row) (lpm_addrs hw) n"
    unfolding lpm_table.write_rows_def
    by (rule fold_ext, rule ext) (use assms in \<open>simp add: clear_route_def write_lpm_row_def no_route_row_def\<close>)
  show "fold (clear_arp hw) [0..<n] = mac_table.write_rows (\<lambda>_ S. S) (\<lambda>_. (0, 0, 0)) (arp_addrs hw) n"
    unfolding mac_table.write_rows_def
    by (rule fold_ext, rule ext) (use assms in \<open>simp add: clear_arp_def write_mac_row_def\<close>)
  show "fold (\<lambda>i. write_dst_filter hw i 0) [0..<n] =
      dst_table.write_rows (\<lambda>_ S. S) (\<lambda>_. 0) (filter_addrs hw) n"
    unfolding dst_table.write_rows_def
    by (rule fold_ext, rule ext) (use assms in \<open>simp add: write_dst_filter_def write_filter_at_def\<close>)
qed

lemma clear_keeps:
  "i < 32 \<Longrightarrow> keeps_rows (lpm_addrs hw) S (clear_route hw i S)"
  "i < 32 \<Longrightarrow> keeps_rows (arp_addrs hw) S (clear_arp hw i S)"
  "i < 32 \<Longrightarrow> keeps_rows (filter_addrs hw) S (write_dst_filter hw i ip S)"
  unfolding clear_route_def clear_arp_def write_dst_filter_def
  by (rule keeps_rows_indirect; simp)+

lemma update_routing_table_rows:
  assumes "distinct (lpm_addrs hw)" "length (sm_rt m) \<le> 32" "length rt \<le> 32"
    and "drop (length (sm_rt m)) (lpm_rows_at hw (sm_hw m)) = replicate (32 - length (sm_rt m)) no_route_row"
  shows "lpm_rows_at hw (sm_hw (update_routing_table hw rt m)) =
      map (route_row (sm_devtoport m)) rt @ replicate (32 - length rt) no_route_row"
    and "keeps_rows (lpm_addrs hw) (sm_hw m) (sm_hw (update_routing_table hw rt m))"
proof -
  let ?w = "\<lambda>i. write_indirect
      [(INDIRECTWRDATA_A_HI, htonl (addr (ie_dest (rt ! i)))), (INDIRECTWRDATA_B_HI, htonl (addr (ie_mask (rt ! i)))),
       (INDIRECTWRDATA_A_LOW, htonl (addr (ie_gw (rt ! i)))),
       (INDIRECTWRDATA_B_LOW, port_of (sm_devtoport m) (ie_dev (rt ! i)))] (lpm_tcam_address hw OR of_nat i)"
  have w: "fold ?w [0..<length rt] = lpm_table.write_rows (\<lambda>_ S. S)
      (\<lambda>i. route_row (sm_devtoport m) (rt ! i)) (lpm_addrs hw) (length rt)"
    unfolding lpm_table.write_rows_def
    by (rule fold_ext) (use assms(3) in \<open>simp add: write_lpm_row_def route_row_def\<close>)
  have S: "sm_hw (update_routing_table hw rt m) =
      fold ?w [0..<length rt] (fold (clear_route hw) [0..<length (sm_rt m)] (sm_hw m))"
    by (simp add: update_routing_table_def Let_def)
  show "lpm_rows_at hw (sm_hw (update_routing_table hw rt m)) =
      map (route_row (sm_devtoport m)) rt @ replicate (32 - length rt) no_route_row"
    unfolding S w loop_write_rows(1) [OF assms(2)]
    using lpm_table.rows_replace [where g = "\<lambda>_ S. S" and h = "\<lambda>_ S. S" and as = "lpm_addrs hw" and
        n = "length (sm_rt m)" and m = "length rt" and S = "sm_hw m" and c = no_route_row and
        f = "\<lambda>i. route_row (sm_devtoport m) (rt ! i)"] assms
    by (simp add: rows_at map_index)
  show "keeps_rows (lpm_addrs hw) (sm_hw m) (sm_hw (update_routing_table hw rt m))"
    unfolding S
    by (rule keeps_rows_trans; rule keeps_rows_fold)
      (use assms(2,3) in \<open>auto intro!: clear_keeps(1) keeps_rows_indirect\<close>)
qed

lemma update_arp_table_rows:
  assumes "distinct (arp_addrs hw)" "length (sm_at m) \<le> 32" "length at \<le> 32"
    and "drop (length (sm_at m)) (arp_rows_at hw (sm_hw m)) = replicate (32 - length (sm_at m)) (0, 0, 0)"
  shows "arp_rows_at hw (sm_hw (update_arp_table hw at m)) =
      map arp_entry_row at @ replicate (32 - length at) (0, 0, 0)"
    and "keeps_rows (arp_addrs hw) (sm_hw m) (sm_hw (update_arp_table hw at m))"
proof -
  let ?w = "\<lambda>i. write_indirect
      [(INDIRECTWRDATA_B_LOW, ntohl (addr (ae_ip (at ! i)))), (INDIRECTWRDATA_A_HI, ether_hi (ae_etha (at ! i))),
       (INDIRECTWRDATA_A_LOW, ether_lo (ae_etha (at ! i)))] (arp_cam_address hw OR of_nat i)"
  have w: "fold ?w [0..<length at] = mac_table.write_rows (\<lambda>_ S. S) (\<lambda>i. arp_entry_row (at ! i)) (arp_addrs hw) (length at)"
    unfolding mac_table.write_rows_def
    by (rule fold_ext) (use assms(3) in \<open>simp add: write_mac_row_def arp_entry_row_def\<close>)
  have S: "sm_hw (update_arp_table hw at m) =
      fold ?w [0..<length at] (fold (clear_arp hw) [0..<length (sm_at m)] (sm_hw m))"
    by (simp add: update_arp_table_def Let_def)
  show "arp_rows_at hw (sm_hw (update_arp_table hw at m)) = map arp_entry_row at @ replicate (32 - length at) (0, 0, 0)"
    unfolding S w loop_write_rows(2) [OF assms(2)]
    using mac_table.rows_replace [where g = "\<lambda>_ S. S" and h = "\<lambda>_ S. S" and as = "arp_addrs hw" and
        n = "length (sm_at m)" and m = "length at" and S = "sm_hw m" and c = "(0, 0, 0)" and
        f = "\<lambda>i. arp_entry_row (at ! i)"] assms
    by (simp add: rows_at map_index)
  show "keeps_rows (arp_addrs hw) (sm_hw m) (sm_hw (update_arp_table hw at m))"
    unfolding S
    by (rule keeps_rows_trans; rule keeps_rows_fold)
      (use assms(2,3) in \<open>auto intro!: clear_keeps(2) keeps_rows_indirect\<close>)
qed

lemma nf_set_mac_mem [simp]: "snd (nf_set_mac e i S) = snd S"
  by (cases S) (simp add: nf_set_mac_def)

lemma mac_of_set [simp]:
  "mac_of (nf_set_mac e i S) = (mac_of S)(i := if i < 4 then (ether_hi e, ether_lo e) else mac_of S i)"
  by (cases S; rule ext) (auto simp: nf_set_mac_def mac_of_def)

lemma mac_of_loop:
  "n \<le> 32 \<Longrightarrow> mac_of (fold (\<lambda>i S. nf_set_mac (e i) i (write_dst_filter hw i (ip i) S)) [0..<n] S) j =
     (if j < 4 \<and> j < n then (ether_hi (e j), ether_lo (e j)) else mac_of S j)"
proof (induction n)
  case (Suc n)
  then have "mac_of (write_dst_filter hw n (ip n) S') = mac_of S'" for S'
    using clear_keeps(3) [of n hw S' "ip n"] by (simp add: keeps_rows_def)
  with Suc show ?case by auto
qed simp

definition ospf_word :: "(string \<Rightarrow> u32 option) \<Rightarrow> u32" where
  "ospf_word host = ntohl (addr (ipaddr_of_text host OSPF_ADDRESS))"

text \<open>What the filter table and the port addresses show of an interface list.\<close>

definition filters_shown :: "hw_config \<Rightarrow> (string \<Rightarrow> u32 option) \<Rightarrow> hw_state \<Rightarrow> ifentry list \<Rightarrow> bool" where
  "filters_shown hw host S ifl \<longleftrightarrow> length ifl < 32 \<and>
     take (length ifl) (filter_rows_at hw S) = map (\<lambda>f. ntohl (addr (ife_ip f))) ifl \<and>
     set (drop (length ifl) (filter_rows_at hw S)) \<subseteq> {0, ospf_word host} \<and>
     (ifl \<noteq> [] \<longrightarrow> filter_rows_at hw S ! length ifl = ospf_word host) \<and>
     (\<forall>i<min 4 (length ifl). mac_of S i = (ether_hi (ife_etha (ifl ! i)), ether_lo (ife_etha (ifl ! i))))"

lemma update_interface_table_rows:
  assumes "distinct (filter_addrs hw)" "length (sm_ifl m) \<le> 32" "length ifl < 32"
    and "set (drop (length (sm_ifl m)) (filter_rows_at hw (sm_hw m))) \<subseteq> {0, ospf_word host}"
  shows "filters_shown hw host (sm_hw (update_interface_table hw host ifl m)) ifl"
    and "b \<notin> set (filter_addrs hw) \<Longrightarrow> snd (sm_hw (update_interface_table hw host ifl m)) b = snd (sm_hw m) b"
proof -
  let ?ip = "\<lambda>f. ntohl (addr (ife_ip f))" and ?as = "filter_addrs hw" and ?n = "length (sm_ifl m)"
  let ?m = "length ifl"
  let ?body = "\<lambda>i S. nf_set_mac (ife_etha (ifl ! i)) i (write_dst_filter hw i (?ip (ifl ! i)) S)"
  let ?g = "\<lambda>i. nf_set_mac (ife_etha (ifl ! i)) i"
  define S1 where "S1 = fold (\<lambda>i. write_dst_filter hw i 0) [0..<?n] (sm_hw m)"
  define S2 where "S2 = fold ?body [0..<?m] S1"
  have S3: "sm_hw (update_interface_table hw host ifl m) = write_filter_at (ospf_word host) (?as ! ?m) S2"
    using assms(3)
    by (simp add: update_interface_table_def Let_def S1_def S2_def write_dst_filter_def write_filter_at_def ospf_word_def)
  have w1: "S1 = dst_table.write_rows (\<lambda>_ S. S) (\<lambda>_. 0) ?as ?n (sm_hw m)"
    unfolding S1_def loop_write_rows(3) [OF assms(2)] ..
  have "fold ?body [0..<?m] = dst_table.write_rows ?g (\<lambda>i. ?ip (ifl ! i)) ?as ?m"
    unfolding dst_table.write_rows_def
    by (rule fold_ext, rule ext) (use assms(3) in \<open>simp add: write_dst_filter_def write_filter_at_def\<close>)
  then have w2: "S2 = dst_table.write_rows ?g (\<lambda>i. ?ip (ifl ! i)) ?as ?m S1" by (simp add: S2_def)
  have r1: "filter_rows_at hw S1 = replicate ?n 0 @ drop ?n (filter_rows_at hw (sm_hw m))"
    using dst_table.rows_write_rows [where g = "\<lambda>_ S. S" and as = ?as and n = ?n and f = "\<lambda>_. 0" and S = "sm_hw m"]
      assms(1,2) by (simp add: w1 rows_at map_replicate_const)
  have r2: "filter_rows_at hw S2 = map ?ip ifl @ drop ?m (filter_rows_at hw S1)"
    using dst_table.rows_write_rows [where g = ?g and as = ?as and n = ?m and f = "\<lambda>i. ?ip (ifl ! i)" and S = S1]
      assms(1,3) map_index [of ?ip ifl] by (simp add: w2 rows_at)
  have r3: "filter_rows_at hw (sm_hw (update_interface_table hw host ifl m)) =
      (filter_rows_at hw S2)[?m := ospf_word host]"
    unfolding S3 rows_at using dst_table.rows_update [of ?as ?m "ospf_word host" S2] assms(1,3) by simp
  have zero: "set (drop ?m (filter_rows_at hw S1)) \<subseteq> {0, ospf_word host}"
    using assms(4) set_drop_subset [of ?m "filter_rows_at hw S1"] unfolding r1
    by (auto split: if_splits)
  have "mac_of (write_filter_at ip (?as ! ?m) S2) = mac_of S2" for ip
    using clear_keeps(3) [of ?m hw S2 ip] assms(3)
    by (simp add: keeps_rows_def write_dst_filter_def write_filter_at_def)
  moreover have "mac_of S2 i = (ether_hi (ife_etha (ifl ! i)), ether_lo (ife_etha (ifl ! i)))"
    if "i < min 4 ?m" for i
    using mac_of_loop [of ?m "\<lambda>i. ife_etha (ifl ! i)" hw "\<lambda>i. ?ip (ifl ! i)" S1 i] that assms(3)
    by (simp add: S2_def)
  moreover have "length (filter_rows_at hw S2) = 32" by simp
  ultimately show "filters_shown hw host (sm_hw (update_interface_table hw host ifl m)) ifl"
    using zero assms(3) set_update_subset_insert [of "drop ?m (filter_rows_at hw S1)" 0 "ospf_word host"]
    unfolding filters_shown_def r3 unfolding S3
    by (auto simp: r2 list_update_append nth_append)
  show "snd (sm_hw (update_interface_table hw host ifl m)) b = snd (sm_hw m) b" if "b \<notin> set ?as"
  proof -
    have "snd (write_filter_at (ospf_word host) (?as ! ?m) S2) b = snd S2 b"
      by (rule dst_table.other) (use that assms(3) in auto)
    also have "snd S2 b = snd S1 b"
      unfolding w2 by (rule dst_table.write_rows_other) (use that assms(3) in auto)
    also have "snd S1 b = snd (sm_hw m) b"
      unfolding w1 by (rule dst_table.write_rows_other) (use that assms(2) in auto)
    finally show ?thesis unfolding S3 .
  qed
qed

subsection \<open>The invariant of the daemon\<close>

text \<open>The entries that belong to a port of the router.\<close>

definition on_ports :: "ports \<Rightarrow> ('e \<Rightarrow> string) \<Rightarrow> 'e list \<Rightarrow> 'e list" where
  "on_ports devtoport dev = filter (\<lambda>e. devtoport (dev e) \<noteq> None)"

text \<open>What the hardware shows of three tables.\<close>

definition hw_shows :: "hw_config \<Rightarrow> (string \<Rightarrow> u32 option) \<Rightarrow> ports \<Rightarrow> ipv4_entry list \<Rightarrow> arp_entry list \<Rightarrow>
    ifentry list \<Rightarrow> hw_state \<Rightarrow> bool" where
  "hw_shows hw host devtoport rt at ifl S \<longleftrightarrow>
     length rt \<le> 32 \<and> lpm_rows_at hw S = map (route_row devtoport) rt @ replicate (32 - length rt) no_route_row \<and>
     length at \<le> 32 \<and> arp_rows_at hw S = map arp_entry_row at @ replicate (32 - length at) (0, 0, 0) \<and>
     filters_shown hw host S ifl"

definition mon_ok :: "hw_config \<Rightarrow> (string \<Rightarrow> u32 option) \<Rightarrow> sume_mon \<Rightarrow> bool" where
  "mon_ok hw host m \<longleftrightarrow> hw_shows hw host (sm_devtoport m) (sm_rt m) (sm_at m) (sm_ifl m) (sm_hw m)"

lemma rows_cong:
  assumes "\<And>b. b \<in> set (lpm_addrs hw) \<Longrightarrow> snd S' b = snd S b"
  shows "lpm_rows_at hw S' = lpm_rows_at hw S"
  using assms by (simp add: lpm_rows_at_def)

lemma arp_rows_cong:
  assumes "\<And>b. b \<in> set (arp_addrs hw) \<Longrightarrow> snd S' b = snd S b"
  shows "arp_rows_at hw S' = arp_rows_at hw S"
  using assms by (simp add: arp_rows_at_def)

lemma filter_rows_cong:
  assumes "\<And>b. b \<in> set (filter_addrs hw) \<Longrightarrow> snd S' b = snd S b"
  shows "filter_rows_at hw S' = filter_rows_at hw S"
  using assms by (simp add: filter_rows_at_def)

lemma tables_apartD:
  assumes "tables_apart hw"
  shows "distinct (lpm_addrs hw)" "distinct (arp_addrs hw)" "distinct (filter_addrs hw)"
    and "b \<in> set (lpm_addrs hw) \<Longrightarrow> b \<notin> set (arp_addrs hw) \<and> b \<notin> set (filter_addrs hw)"
    and "b \<in> set (arp_addrs hw) \<Longrightarrow> b \<notin> set (lpm_addrs hw) \<and> b \<notin> set (filter_addrs hw)"
    and "b \<in> set (filter_addrs hw) \<Longrightarrow> b \<notin> set (lpm_addrs hw) \<and> b \<notin> set (arp_addrs hw)"
  using assms unfolding tables_apart_def distinct_append set_append by blast+

lemma keeps_rows_tables:
  assumes "tables_apart hw"
  shows "keeps_rows (lpm_addrs hw) S S' \<Longrightarrow>
      arp_rows_at hw S' = arp_rows_at hw S \<and> filters_shown hw host S' ifl = filters_shown hw host S ifl"
    and "keeps_rows (arp_addrs hw) S S' \<Longrightarrow>
      lpm_rows_at hw S' = lpm_rows_at hw S \<and> filters_shown hw host S' ifl = filters_shown hw host S ifl"
proof -
  assume keep: "keeps_rows (lpm_addrs hw) S S'"
  have "arp_rows_at hw S' = arp_rows_at hw S"
    by (rule arp_rows_cong) (use keep tables_apartD(5) [OF assms] in \<open>simp add: keeps_rows_def\<close>)
  moreover have "filter_rows_at hw S' = filter_rows_at hw S"
    by (rule filter_rows_cong) (use keep tables_apartD(6) [OF assms] in \<open>simp add: keeps_rows_def\<close>)
  moreover have "mac_of S' = mac_of S" using keep by (simp add: keeps_rows_def)
  ultimately show "arp_rows_at hw S' = arp_rows_at hw S \<and> filters_shown hw host S' ifl = filters_shown hw host S ifl"
    by (simp add: filters_shown_def)
next
  assume keep: "keeps_rows (arp_addrs hw) S S'"
  have "lpm_rows_at hw S' = lpm_rows_at hw S"
    by (rule rows_cong) (use keep tables_apartD(4) [OF assms] in \<open>simp add: keeps_rows_def\<close>)
  moreover have "filter_rows_at hw S' = filter_rows_at hw S"
    by (rule filter_rows_cong) (use keep tables_apartD(6) [OF assms] in \<open>simp add: keeps_rows_def\<close>)
  moreover have "mac_of S' = mac_of S" using keep by (simp add: keeps_rows_def)
  ultimately show "lpm_rows_at hw S' = lpm_rows_at hw S \<and> filters_shown hw host S' ifl = filters_shown hw host S ifl"
    by (simp add: filters_shown_def)
qed

lemma rtable_update_ok:
  assumes "tables_apart hw" "mon_ok hw host m" "length (on_ports (sm_devtoport m) ie_dev rt) \<le> 32"
  shows "mon_ok hw host (rtable_update hw rt m)"
    and "sm_rt (rtable_update hw rt m) = on_ports (sm_devtoport m) ie_dev rt"
    and "sm_at (rtable_update hw rt m) = sm_at m" "sm_ifl (rtable_update hw rt m) = sm_ifl m"
    and "sm_devtoport (rtable_update hw rt m) = sm_devtoport m"
proof -
  let ?local = "on_ports (sm_devtoport m) ie_dev rt"
  have old: "drop (length (sm_rt m)) (lpm_rows_at hw (sm_hw m)) = replicate (32 - length (sm_rt m)) no_route_row"
    "length (sm_rt m) \<le> 32"
    using assms(2) by (simp_all add: mon_ok_def hw_shows_def)
  note new = update_routing_table_rows [OF tables_apartD(1) [OF assms(1)] old(2) assms(3) old(1)]
  note keep = keeps_rows_tables(1) [OF assms(1) new(2), of host "sm_ifl m"]
  have fields: "update_routing_table hw rt' m = m\<lparr>sm_hw := sm_hw (update_routing_table hw rt' m)\<rparr>" for rt'
    by (simp add: update_routing_table_def Let_def)
  have upd: "rtable_update hw rt m =
      m\<lparr>sm_hw := (if sm_rt m \<noteq> ?local then sm_hw (update_routing_table hw ?local m) else sm_hw m), sm_rt := ?local\<rparr>"
    using fields [of ?local] by (auto simp: rtable_update_def on_ports_def Let_def)
  show "mon_ok hw host (rtable_update hw rt m)"
    using assms(2,3) new(1) keep unfolding upd by (simp add: mon_ok_def hw_shows_def)
qed (auto simp: rtable_update_def on_ports_def update_routing_table_def Let_def)

lemma arptable_update_ok:
  assumes "tables_apart hw" "mon_ok hw host m" "length (on_ports (sm_devtoport m) ae_dev at) \<le> 32"
  shows "mon_ok hw host (arptable_update hw at m)"
    and "sm_at (arptable_update hw at m) = on_ports (sm_devtoport m) ae_dev at"
    and "sm_rt (arptable_update hw at m) = sm_rt m" "sm_ifl (arptable_update hw at m) = sm_ifl m"
    and "sm_devtoport (arptable_update hw at m) = sm_devtoport m"
proof -
  let ?local = "on_ports (sm_devtoport m) ae_dev at"
  have old: "drop (length (sm_at m)) (arp_rows_at hw (sm_hw m)) = replicate (32 - length (sm_at m)) (0, 0, 0)"
    "length (sm_at m) \<le> 32"
    using assms(2) by (simp_all add: mon_ok_def hw_shows_def)
  note new = update_arp_table_rows [OF tables_apartD(2) [OF assms(1)] old(2) assms(3) old(1)]
  note keep = keeps_rows_tables(2) [OF assms(1) new(2), of host "sm_ifl m"]
  have fields: "update_arp_table hw at' m = m\<lparr>sm_hw := sm_hw (update_arp_table hw at' m)\<rparr>" for at'
    by (simp add: update_arp_table_def Let_def)
  have upd: "arptable_update hw at m =
      m\<lparr>sm_hw := (if sm_at m \<noteq> ?local then sm_hw (update_arp_table hw ?local m) else sm_hw m), sm_at := ?local\<rparr>"
    using fields [of ?local] by (auto simp: arptable_update_def on_ports_def Let_def)
  show "mon_ok hw host (arptable_update hw at m)"
    using assms(2,3) new(1) keep unfolding upd by (simp add: mon_ok_def hw_shows_def)
qed (auto simp: arptable_update_def on_ports_def update_arp_table_def Let_def)

lemma interface_update_ok:
  assumes "tables_apart hw" "mon_ok hw host m" "length (on_ports (sm_devtoport m) ife_name ifl) < 32"
  shows "mon_ok hw host (interface_update hw host ifl m)"
    and "sm_ifl (interface_update hw host ifl m) = on_ports (sm_devtoport m) ife_name ifl"
    and "sm_rt (interface_update hw host ifl m) = sm_rt m" "sm_at (interface_update hw host ifl m) = sm_at m"
    and "sm_devtoport (interface_update hw host ifl m) = sm_devtoport m"
proof -
  let ?local = "on_ports (sm_devtoport m) ife_name ifl"
  let ?S = "sm_hw (update_interface_table hw host ?local m)"
  have old: "set (drop (length (sm_ifl m)) (filter_rows_at hw (sm_hw m))) \<subseteq> {0, ospf_word host}"
    "length (sm_ifl m) \<le> 32"
    using assms(2) by (simp_all add: mon_ok_def hw_shows_def filters_shown_def)
  note new = update_interface_table_rows [OF tables_apartD(3) [OF assms(1)] old(2) assms(3) old(1)]
  have keep: "lpm_rows_at hw ?S = lpm_rows_at hw (sm_hw m)" "arp_rows_at hw ?S = arp_rows_at hw (sm_hw m)"
    using new(2) tables_apartD(4,5) [OF assms(1)] by (auto intro!: rows_cong arp_rows_cong)
  have fields: "update_interface_table hw host ifl' m = m\<lparr>sm_hw := sm_hw (update_interface_table hw host ifl' m)\<rparr>" for ifl'
    by (simp add: update_interface_table_def Let_def)
  have upd: "interface_update hw host ifl m =
      m\<lparr>sm_hw := (if sm_ifl m \<noteq> ?local then ?S else sm_hw m), sm_ifl := ?local\<rparr>"
    using fields [of ?local] by (auto simp: interface_update_def on_ports_def Let_def)
  show "mon_ok hw host (interface_update hw host ifl m)"
    using assms(2,3) new(1) keep unfolding upd
    by (cases "sm_ifl m = ?local") (simp_all add: mon_ok_def hw_shows_def)
qed (auto simp: interface_update_def on_ports_def update_interface_table_def Let_def)

lemma new_sume_mon_ok:
  assumes "tables_apart hw"
  shows "mon_ok hw host (new_sume_mon hw base S)"
proof -
  define S1 where "S1 = clear_hw_rtable hw S"
  define S2 where "S2 = clear_hw_arptable hw S1"
  define S3 where "S3 = clear_dst_filter_rtable hw S2"
  have k2: "keeps_rows (arp_addrs hw) S1 S2" and k3: "keeps_rows (filter_addrs hw) S2 S3"
    unfolding S2_def S3_def clear_hw_arptable_def clear_dst_filter_rtable_def
    by (rule keeps_rows_fold; simp add: clear_keeps FIXME_ARP_MAX_def FIXME_DST_FILTER_MAX_def)+
  have "lpm_rows_at hw S1 = replicate 32 no_route_row"
    using lpm_table.rows_write_rows [where g = "\<lambda>_ S. S" and as = "lpm_addrs hw" and n = 32 and
        f = "\<lambda>_. no_route_row" and S = S] tables_apartD(1) [OF assms]
    by (simp add: S1_def clear_hw_rtable_def FIXME_RT_MAX_def loop_write_rows rows_at map_replicate_const)
  moreover have "lpm_rows_at hw S3 = lpm_rows_at hw S1"
  proof (rule rows_cong)
    fix b assume "b \<in> set (lpm_addrs hw)"
    from tables_apartD(4) [OF assms this] k2 k3 show "snd S3 b = snd S1 b" by (simp add: keeps_rows_def)
  qed
  moreover have "arp_rows_at hw S2 = replicate 32 (0, 0, 0)"
    using mac_table.rows_write_rows [where g = "\<lambda>_ S. S" and as = "arp_addrs hw" and n = 32 and
        f = "\<lambda>_. (0, 0, 0)" and S = S1] tables_apartD(2) [OF assms]
    by (simp add: S2_def clear_hw_arptable_def FIXME_ARP_MAX_def loop_write_rows rows_at map_replicate_const)
  moreover have "arp_rows_at hw S3 = arp_rows_at hw S2"
  proof (rule arp_rows_cong)
    fix b assume "b \<in> set (arp_addrs hw)"
    from tables_apartD(5) [OF assms this] k3 show "snd S3 b = snd S2 b" by (simp add: keeps_rows_def)
  qed
  moreover have "filter_rows_at hw S3 = replicate 32 0"
    using dst_table.rows_write_rows [where g = "\<lambda>_ S. S" and as = "filter_addrs hw" and n = 32 and
        f = "\<lambda>_. 0" and S = S2] tables_apartD(3) [OF assms]
    by (simp add: S3_def clear_dst_filter_rtable_def FIXME_DST_FILTER_MAX_def loop_write_rows rows_at
        map_replicate_const)
  ultimately show ?thesis
    by (simp add: new_sume_mon_def mon_ok_def hw_shows_def filters_shown_def S1_def S2_def S3_def)
qed

text \<open>A poll finds three tables; the daemon and the monitor then hold them.\<close>

definition polled :: "(string \<Rightarrow> u32 option) \<Rightarrow> kernel \<Rightarrow> ipv4_entry list \<Rightarrow> arp_entry list \<Rightarrow> ifentry list \<Rightarrow> bool"
  where "polled host k rt at ifl \<longleftrightarrow> linux_proc_net_load_rtable (proc_route k) = Some rt \<and>
    linux_proc_net_load_arptable host (proc_arp k) = Some at \<and> fill_iflist (ifconf k) = ifl"

definition rkd_ok :: "hw_config \<Rightarrow> (string \<Rightarrow> u32 option) \<Rightarrow> ports \<Rightarrow> rkd \<Rightarrow> bool" where
  "rkd_ok hw host devtoport d \<longleftrightarrow> mon_ok hw host (eh_mon d) \<and> sm_devtoport (eh_mon d) = devtoport \<and>
     sm_rt (eh_mon d) = on_ports devtoport ie_dev (rtcur d) \<and>
     sm_at (eh_mon d) = on_ports devtoport ae_dev (arpcur d) \<and>
     sm_ifl (eh_mon d) = on_ports devtoport ife_name (ifcur d)"

definition tables_fit :: "ports \<Rightarrow> ipv4_entry list \<Rightarrow> arp_entry list \<Rightarrow> ifentry list \<Rightarrow> bool" where
  "tables_fit devtoport rt at ifl \<longleftrightarrow> length (on_ports devtoport ie_dev rt) \<le> 32 \<and>
     length (on_ports devtoport ae_dev at) \<le> 32 \<and> length (on_ports devtoport ife_name ifl) < 32"

lemma rkd_poll_ok:
  assumes "tables_apart hw" "rkd_ok hw host P d" "polled host k rt at ifl" "tables_fit P rt at ifl"
  shows "\<exists>d'. rkd_poll hw host k d = Some d' \<and> rkd_ok hw host P d' \<and>
    rtcur d' = rt \<and> arpcur d' = at \<and> ifcur d' = ifl"
proof -
  define d1 where "d1 = (if rt \<noteq> rtcur d
    then d\<lparr>eh_mon := rtable_update hw rt (eh_mon d), rtcur := rt\<rparr> else d)"
  define d2 where "d2 = (if at \<noteq> arpcur d1
    then d1\<lparr>arpcur := at, eh_mon := arptable_update hw at (eh_mon d1)\<rparr> else d1)"
  define d3 where "d3 = (if ifl \<noteq> ifcur d2
    then d2\<lparr>eh_mon := interface_update hw host ifl (eh_mon d2), ifcur := ifl\<rparr> else d2)"
  have poll: "rkd_poll hw host k d = Some d3"
    using assms(3) by (simp add: polled_def rkd_poll_def d1_def d2_def d3_def Let_def)
  have fit: "length (on_ports P ie_dev rt) \<le> 32" "length (on_ports P ae_dev at) \<le> 32"
    "length (on_ports P ife_name ifl) < 32" using assms(4) by (simp_all add: tables_fit_def)
  have 1: "rkd_ok hw host P d1 \<and> rtcur d1 = rt"
    using assms(2) rtable_update_ok [OF assms(1), of host "eh_mon d" rt] fit(1)
    by (simp add: d1_def rkd_ok_def)
  have 2: "rkd_ok hw host P d2 \<and> rtcur d2 = rt \<and> arpcur d2 = at"
    using 1 arptable_update_ok [OF assms(1), of host "eh_mon d1" at] fit(2)
    by (simp add: d2_def rkd_ok_def)
  have "rkd_ok hw host P d3 \<and> rtcur d3 = rt \<and> arpcur d3 = at \<and> ifcur d3 = ifl"
    using 2 interface_update_ok [OF assms(1), of host "eh_mon d2" ifl] fit(3)
    by (simp add: d3_def rkd_ok_def)
  with poll show ?thesis by blast
qed

lemma rkd_loop_ok:
  assumes "tables_apart hw" "rkd_ok hw host P d"
    and "\<forall>(k, rt, at, ifl)\<in>set (ks @ [(k, rt, at, ifl)]). polled host k rt at ifl \<and> tables_fit P rt at ifl"
  shows "\<exists>d'. rkd_loop hw host (map fst ks @ [k]) d = Some d' \<and> rkd_ok hw host P d' \<and>
    rtcur d' = rt \<and> arpcur d' = at \<and> ifcur d' = ifl"
  using assms(2,3)
proof (induction ks arbitrary: d)
  case Nil
  then show ?case using rkd_poll_ok [OF assms(1) Nil.prems(1), of k rt at ifl] by auto
next
  case (Cons x ks)
  obtain k' rt' at' ifl' where x: "x = (k', rt', at', ifl')" by (cases x)
  from Cons.prems(2) x have "polled host k' rt' at' ifl'" "tables_fit P rt' at' ifl'" by auto
  from rkd_poll_ok [OF assms(1) Cons.prems(1) this] obtain d1
    where d1: "rkd_poll hw host k' d = Some d1" "rkd_ok hw host P d1" by auto
  from Cons.IH [OF d1(2)] Cons.prems(2) show ?case by (simp add: x d1(1))
qed

lemma rkd_start_ok: "tables_apart hw \<Longrightarrow> rkd_ok hw host (devtoport_of base) (rkd_start hw base S)"
  using new_sume_mon_ok [of hw host base S]
  by (simp add: rkd_ok_def rkd_start_def new_sume_mon_def on_ports_def)

text \<open>Linux shows two tables and the interfaces as text.\<close>

type_synonym shown_route = "string list \<times> ipv4_entry"

definition linux_shows :: "string \<Rightarrow> shown_route list \<Rightarrow> string \<Rightarrow> arp_entry list \<Rightarrow> ifreq list \<Rightarrow> kernel" where
  "linux_shows h rows h' at ifs =
     \<lparr>proc_route = h @ nl # concat (map (\<lambda>(cols, e). proc_route_line cols e) rows),
      proc_arp = h' @ nl # concat (map proc_arp_line at), ifconf = ifs\<rparr>"

definition lines_ok :: "string \<Rightarrow> shown_route list \<Rightarrow> string \<Rightarrow> arp_entry list \<Rightarrow> bool" where
  "lines_ok h rows h' at \<longleftrightarrow> heading_ok h \<and> list_all (\<lambda>(cols, e). route_line_ok cols e) rows \<and>
     heading_ok h' \<and> list_all arp_line_ok at"

lemma polled_linux:
  assumes "lines_ok h rows h' at" "\<And>w. host (inet_ntop w) = Some w"
  shows "polled host (linux_shows h rows h' at ifs) (map snd rows) (filter (\<lambda>a. ether_bool (ae_etha a)) at)
    (fill_iflist ifs)"
  using load_rtable_proc [of h rows] load_arptable_proc [of h' at host] assms
  by (auto simp: polled_def linux_shows_def lines_ok_def list_all_iff)

type_synonym snapshot = "string \<times> shown_route list \<times> string \<times> arp_entry list \<times> ifreq list"

fun kernel_of :: "snapshot \<Rightarrow> kernel" where
  "kernel_of (h, rows, h', at, ifs) = linux_shows h rows h' at ifs"

fun snapshot_ok :: "ports \<Rightarrow> snapshot \<Rightarrow> bool" where
  "snapshot_ok devtoport (h, rows, h', at, ifs) \<longleftrightarrow> lines_ok h rows h' at \<and>
     tables_fit devtoport (map snd rows) (filter (\<lambda>a. ether_bool (ae_etha a)) at) (fill_iflist ifs)"

lemma rkd_linux:
  assumes "tables_apart hw" "\<And>w. host (inet_ntop w) = Some w"
    and "list_all (snapshot_ok (devtoport_of base)) (ss @ [(h, rows, h', at, ifs)])"
  shows "\<exists>d. rkd_loop hw host (map kernel_of (ss @ [(h, rows, h', at, ifs)])) (rkd_start hw base S) = Some d \<and>
    rkd_ok hw host (devtoport_of base) d \<and> rtcur d = map snd rows \<and>
    arpcur d = filter (\<lambda>a. ether_bool (ae_etha a)) at \<and> ifcur d = fill_iflist ifs"
proof -
  let ?P = "devtoport_of base"
  let ?t = "\<lambda>s. case s of (h, rows, h', at, ifs) \<Rightarrow>
    (kernel_of s, map snd rows, filter (\<lambda>a. ether_bool (ae_etha a)) at, fill_iflist ifs)"
  have "polled host (kernel_of s) (map snd rows) (filter (\<lambda>a. ether_bool (ae_etha a)) at) (fill_iflist ifs) \<and>
      tables_fit ?P (map snd rows) (filter (\<lambda>a. ether_bool (ae_etha a)) at) (fill_iflist ifs)"
    if "snapshot_ok ?P s" "s = (h, rows, h', at, ifs)" for s h rows h' at ifs
    using that polled_linux [OF _ assms(2), of h rows h' at ifs] by simp
  then have "\<forall>(k, rt, at, ifl)\<in>set (map ?t ss @ [?t (h, rows, h', at, ifs)]).
      polled host k rt at ifl \<and> tables_fit ?P rt at ifl"
    using assms(3) by (fastforce simp: list_all_iff split: prod.splits)
  from rkd_loop_ok [OF assms(1) rkd_start_ok [OF assms(1)] this [simplified prod.case]]
  show ?thesis by (simp add: comp_def split_beta)
qed


text \<open>
  C36. The hardware searches its routing table from the first row, and the daemon writes the
  routes in the order of \<^verbatim>\<open>/proc/net/route\<close>. When the first route of a router port there is the
  default route, the hardware answers every destination with it: no route behind it, however
  long its prefix, is ever used.
\<close>

theorem default_route_shadows:
  assumes "tables_apart hw" "\<And>w. host (inet_ntop w) = Some w"
    and "list_all (snapshot_ok (devtoport_of base)) (ss @ [(h, rows, h', at, ifs)])"
    and "filter (\<lambda>e. devtoport_of base (ie_dev e) \<noteq> None) (map snd rows) = e # es" "addr (ie_mask e) = 0"
    and "addr (ie_gw e) \<noteq> 0"
  shows "\<exists>d. rkd_loop hw host (map kernel_of (ss @ [(h, rows, h', at, ifs)])) (rkd_start hw base S) = Some d \<and>
    (\<forall>dst. tcam_lookup (lpm_rows_at hw (sm_hw (eh_mon d))) dst =
      Some (ntohl (addr (ie_gw e)), port_of (devtoport_of base) (ie_dev e)))"
proof -
  from rkd_linux [OF assms(1-3), of S] obtain d where
    d: "rkd_loop hw host (map kernel_of (ss @ [(h, rows, h', at, ifs)])) (rkd_start hw base S) = Some d"
    and ok: "rkd_ok hw host (devtoport_of base) d" "rtcur d = map snd rows" by blast
  from ok assms(4) obtain rs where "lpm_rows_at hw (sm_hw (eh_mon d)) = route_row (devtoport_of base) e # rs"
    by (auto simp: rkd_ok_def mon_ok_def hw_shows_def on_ports_def)
  moreover have "ntohl (addr (ie_gw e)) \<noteq> 0" using assms(6) by simp
  ultimately show ?thesis
    using d assms(5) by (auto simp: tcam_lookup_def tcam_match_def route_row_def)
qed

text \<open>The register map of the tests, and one snapshot: two routes, one of them of another device.\<close>

lemma tables_apart_hw4: "tables_apart hw4"
proof -
  have small: "\<not> bit (of_nat i :: u32) k" if "i < 32" "5 \<le> k" for i k
  proof -
    have "(of_nat i :: u32) = take_bit 5 (of_nat i)"
      using that(1) by (simp only: take_bit_of_nat) (simp add: take_bit_eq_mod)
    then show ?thesis using that(2) by (metis bit_take_bit_iff not_less)
  qed
  have top: "bit a k = bit base k" if "a \<in> set (row_addrs base 32)" "5 \<le> k" for a base k
    using that small by (auto simp: row_addrs_def bit_simps)
  have apart: "set (row_addrs a 32) \<inter> set (row_addrs b 32) = {}" if "bit a k \<noteq> bit b k" "5 \<le> k" for a b k
    using top [OF _ that(2)] that(1) by blast
  let ?L = "0 :: u32" and ?A = "0x10000000 :: u32" and ?D = "0x20000000 :: u32"
  have "set (row_addrs ?L 32) \<inter> set (row_addrs ?A 32) = {}" by (rule apart [where k = 28]) simp_all
  moreover have "set (row_addrs ?L 32) \<inter> set (row_addrs ?D 32) = {}" by (rule apart [where k = 29]) simp_all
  moreover have "set (row_addrs ?A 32) \<inter> set (row_addrs ?D 32) = {}" by (rule apart [where k = 29]) simp_all
  moreover have "distinct (row_addrs ?L 32)" "distinct (row_addrs ?A 32)" "distinct (row_addrs ?D 32)"
    by (rule distinct_row_addrs; auto simp: less_Suc_eq numeral_eq_Suc)+
  ultimately show ?thesis
    unfolding tables_apart_def distinct_append set_append hw4_def hw_config.simps by blast
qed

definition kit_route :: "u32 \<Rightarrow> u32 \<Rightarrow> u32 \<Rightarrow> string \<Rightarrow> shown_route" where
  "kit_route dest gw msk dev =
     (replicate 7 ''0'', \<lparr>ie_dest = Ipaddr dest, ie_gw = Ipaddr gw, ie_mask = Ipaddr msk, ie_dev = dev\<rparr>)"

definition kit_arp :: arp_entry where
  "kit_arp = \<lparr>ae_ip = Ipaddr 0x0200000a, ae_etha = [0, 1, 2, 3, 4, 5], ae_dev = ''nf0''\<rparr>"

definition kit_snapshot :: snapshot where
  "kit_snapshot = (''Iface'', [kit_route 0 0x0100a8c0 0 ''eth0'', kit_route 0 0x0100000a 0 ''nf0'',
       kit_route 0x0000010a 0 0x0000ffff ''nf1''], ''IP address'', [kit_arp],
     [(0x0100007f, None, ''lo''), (0x0300000a, Some [0, 1, 2, 3, 4, 6], ''nf0'')])"

lemma devtoport_0:
  "devtoport_of 0 ''nf0'' = Some 1" "devtoport_of 0 ''nf1'' = Some 4" "devtoport_of 0 ''eth0'' = None"
  "devtoport_of 0 ''lo'' = None"
proof -
  have "digit_char 0 = CHR ''0''" "digit_char 1 = CHR ''1''" "digit_char 2 = CHR ''2''" "digit_char 3 = CHR ''3''"
    by (simp_all add: digit_char_def char_of_eq_iff)
  then have "nf_name 0 = ''nf0''" "nf_name 1 = ''nf1''" "nf_name 2 = ''nf2''" "nf_name 3 = ''nf3''"
    by (simp_all add: nf_name_def show_int_def show_nat.simps)
  then show "devtoport_of 0 ''nf0'' = Some 1" "devtoport_of 0 ''nf1'' = Some 4" "devtoport_of 0 ''eth0'' = None"
    "devtoport_of 0 ''lo'' = None"
    by (simp_all add: devtoport_of_def)
qed

lemma kit_snapshot_ok: "snapshot_ok (devtoport_of 0) kit_snapshot"
proof -
  have zero: "decimal ''0''" by (simp add: decimal_def digit_val_def)
  show ?thesis
    by (simp add: kit_snapshot_def lines_ok_def tables_fit_def heading_ok_def nl_def BUFSIZ_def kit_route_def
        kit_arp_def route_line_ok_def arp_line_ok_def plain_word_def is_space_def on_ports_def fill_iflist_def
        zero devtoport_0 ether_bool_def)
qed

lemma kit_tables:
  "filter (\<lambda>e. devtoport_of 0 (ie_dev e) \<noteq> None) (map snd [kit_route 0 0x0100a8c0 0 ''eth0'',
      kit_route 0 0x0100000a 0 ''nf0'', kit_route 0x0000010a 0 0x0000ffff ''nf1'']) =
    [snd (kit_route 0 0x0100000a 0 ''nf0''), snd (kit_route 0x0000010a 0 0x0000ffff ''nf1'')]"
  "filter (\<lambda>a. devtoport_of 0 (ae_dev a) \<noteq> None) (filter (\<lambda>a. ether_bool (ae_etha a)) [kit_arp]) = [kit_arp]"
  "filter (\<lambda>f. devtoport_of 0 (ife_name f) \<noteq> None)
      (fill_iflist [(0x0100007f, None, ''lo''), (0x0300000a, Some [0, 1, 2, 3, 4, 6], ''nf0'')]) =
    [\<lparr>ife_ip = Ipaddr 0x0300000a, ife_etha = [0, 1, 2, 3, 4, 6], ife_name = ''nf0''\<rparr>]"
  by (simp_all add: kit_route_def kit_arp_def devtoport_0 fill_iflist_def ether_bool_def ether_zero_def
      ETHERADDR_LEN_def numeral_eq_Suc)


theorem default_route_shadows_witness:
  "\<exists>d. rkd_loop hw4 inet_pton (map kernel_of [kit_snapshot]) (rkd_start hw4 0 (\<lambda>_. 7, \<lambda>_ _. 7)) = Some d \<and>
    tcam_lookup (lpm_rows_at hw4 (sm_hw (eh_mon d))) 0x0a010005 = Some (0x0a000001, 1)"
proof -
  have "list_all (snapshot_ok (devtoport_of 0)) ([] @ [kit_snapshot])" using kit_snapshot_ok by simp
  from default_route_shadows [OF tables_apart_hw4 inet_pton_ntop this [unfolded kit_snapshot_def] kit_tables(1),
      of "(\<lambda>_. 7, \<lambda>_ _. 7)"]
  show ?thesis by (auto simp: kit_snapshot_def kit_route_def port_of_def devtoport_0 ntohl_def)
qed

end
