(* ===== verification/Spec2Isabelle.thy ===== *)
theory Spec2Isabelle
  imports Node_List Or_Rtable Checksum Or_Arp_Queue Cli_Dispatch Or_Www Router_System Reg_Cli Router_Kit
begin

text \<open>
  Verification of the software of the NetFPGA reference router
  (\<^verbatim>\<open>src/hw/projects/reference_router/sw\<close>): SCONE, the control plane of the router (\<^verbatim>\<open>scone/\<close>,
  with \<^verbatim>\<open>common/nfplus_util.c\<close>), the register tool (\<^verbatim>\<open>cli/cli.c\<close>) and the router kit, a daemon that
  copies the tables of Linux into the hardware (\<^verbatim>\<open>router_kit/\<close>).

  \<^bold>\<open>The program.\<close> SCONE receives frames (\<^verbatim>\<open>sr_integration.c\<close>, \<^verbatim>\<open>process_packet\<close>) and answers or
  forwards them: ARP, ICMP, IP with longest prefix lookup, NAT, and the link state protocol PWOSPF.
  Threads send hellos and link state updates, time out neighbours, retry ARP requests and
  recompute the routes. Clients type commands. The tables live in one \<^verbatim>\<open>router_state\<close> and are
  copied by register writes into the TCAM and the CAMs of the hardware whenever they change. The
  two other programs change the same tables of the hardware by the same registers.

  \<^bold>\<open>The model.\<close> A function of the code is a function from \<open>router_state\<close> (and packet, time, text)
  to the new state. The result None is a run that leaves the defined behaviour of C (null or
  freed pointer, copy past the end of a buffer, failed assertion, value that was never written), exits, or
  never returns. Frames sent and register writes are logged in the state (\<open>rs_sent\<close>, \<open>rs_regs\<close>);
  what the hardware holds is the replay of the writes (\<open>hw_replay\<close>). Packets are byte lists and
  header fields are offsets in them; words keep their width and their byte order (\<open>htonl\<close> and
  \<open>ntohl\<close> are those of a little-endian host). Doubly linked lists are modelled once with their heap
  (\<open>Node_List\<close>), where the loops that remove nodes are shown to be list filters or to fault;
  elsewhere they are lists.

  \<^bold>\<open>Theories, files and lemmas.\<close>
  \<^item> \<open>Prelude\<close>: byte order, packets, lists and the collections of simplification rules;
    \<open>Data_Types\<close>: \<^verbatim>\<open>or_data_types.h\<close>, header offsets and the router state; \<open>Keyed_Table\<close>: the
    interface of a table with a key (locale \<open>keyed_table\<close>), interpreted for the ARP cache.
  \<^item> \<open>Node_List\<close>: \<^verbatim>\<open>or_utils.c\<close>, lists in a heap. \<open>Bubble_Sort\<close>: the sort loop of routes, filters and
    commands; it stops with the stable sort when the swap test is a strict order by a key (locale \<open>swap_order\<close>).
  \<^item> \<open>Or_Netfpga\<close>, \<open>Or_Rtable\<close>: ports, registers, filters and the routing table (\<^verbatim>\<open>or_netfpga.c\<close>,
    \<^verbatim>\<open>or_rtable.c\<close>). The lookup is a longest prefix match, and the TCAM answers as the software
    (locale \<open>hw_table\<close> for the rows). \<open>Or_Hw_Output\<close>: the commands that show the hardware; they
    print the rows that the software wrote.
  \<^item> \<open>Checksum\<close>, \<open>Or_Utils\<close>, \<open>C_Strings\<close>, \<open>C_Input\<close>: checksums, header writers, and the parts of
    the C library the programs use (scanf, snprintf, \<^verbatim>\<open>inet_pton\<close>, \<^verbatim>\<open>fgets\<close>) with their round trips.
  \<^item> \<open>Or_Iface\<close>, \<open>Or_Arp\<close>, \<open>Or_Arp_Queue\<close>, \<open>Or_Icmp\<close>, \<open>Or_Nat\<close>, \<open>Or_Ip\<close>, \<open>Packet_Safety\<close>: the packet
    path. The cache refines a map, a packet waits for its next hop at most five rounds,
    forwarding keeps the checksum, pings are answered, and every packet is processed to the end.
  \<^item> \<open>Hop_Distance\<close>, \<open>Or_Dijkstra\<close>: the route computation of \<^verbatim>\<open>or_dijkstra.c\<close> refines hop distances
    in the graph of active links.
  \<^item> \<open>Or_Pwospf\<close>, \<open>Pwospf_Links\<close>, \<open>Pwospf_Invariant\<close>, \<open>Pwospf_Lsu\<close>, \<open>Pwospf_Hello\<close>: \<^verbatim>\<open>or_pwospf.c\<close>,
    the database, updates and hellos.
  \<^item> \<open>Or_Output\<close>, \<open>Or_Cli\<close>, \<open>Cli_Dispatch\<close>: the text of the tables, the commands and the dispatch of a
    line (\<^verbatim>\<open>or_output.c\<close>, \<^verbatim>\<open>or_cli.c\<close>, \<^verbatim>\<open>or_main.c\<close>, \<^verbatim>\<open>or_sping.c\<close>). \<open>Or_Www\<close>: the web server
    (\<^verbatim>\<open>or_www.c\<close>), whose commands act as those of a client.
  \<^item> \<open>Or_Init\<close>, \<open>Router_System\<close>: the start from the two files, and the whole router as a step
    relation over frames, threads, command lines and web requests. The properties of this theory hold in
    every state that a started router reaches.
  \<^item> \<open>Hw_Access\<close>: the accesses to the hardware tables that the two other programs share, and the
    interface of such a table (locale \<open>indirect_table\<close>), interpreted for the routing table, the
    ARP table and the filters. \<open>Reg_Cli\<close>: \<^verbatim>\<open>cli/cli.c\<close>, from standard input to standard output.
    \<open>Kit_Addr\<close>, \<open>Kit_Tables\<close>, \<open>Router_Kit\<close>: the address types, the readers of \<^verbatim>\<open>/proc\<close> and the
    daemon; after any polls the hardware mirrors the tables of Linux.

  \<^bold>\<open>Bounds and fuel.\<close> Recursion is structural or has a measure; loops that may not end are
  \<open>partial_function\<close> with None for not ending, and the properties state that they do return. The
  searches of the route computation run on at most as many rounds as there are routers. The
  hardware tables have 32 rows, as in \<^verbatim>\<open>output_port_lookup_regs_defines.h\<close>; the properties state
  when a table fits.

  \<^bold>\<open>Conventions.\<close> Time is an argument \<open>now\<close> in whole seconds; random ports are a stream; buffers
  from \<^verbatim>\<open>malloc\<close> whose old content matters are arguments. The addresses of the generated
  \<^verbatim>\<open>reg_defines.h\<close> are the record \<open>hw_config\<close>, with the hypothesis that the rows of a table have
  addresses of their own. \<^verbatim>\<open>strcmp\<close> is a parameter where its exact result matters, and so is the
  name resolution of the router kit, which is assumed to read printed addresses. The \<^verbatim>\<open>a\<close> of
  \<^verbatim>\<open>%as\<close> is the allocation modifier of the GNU library. Register accesses succeed, and a command
  to a table is complete before the next access. Each event of \<open>Router_System\<close> is atomic.

  \<^bold>\<open>Not modelled.\<close> Locks and interleavings inside a critical section; sockets, raw input and output and the
  logging of packets; dumps of packets to standard output and the help texts; the threads
  that accept connections; the client of the simulation server; averages in floating point, and with them the maintenance
  thread of the NAT, whose start is commented out; options and daemons; the lwIP stack, the
  OpenNIC driver and other third-party code; single register programs; the Verilog designs, of
  which the contract of the indirect registers (\<^verbatim>\<open>output_port_lookup_cpu_regs.v\<close>) and the first match of
  the TCAM are stated. Row numbers outside a table, which address another one, are left as the
  addresses they are; the hardware keeps only 8 bits of a port.
\<close>

text \<open>
  C4. Whatever frames arrive, whatever the TCP stack sends, whenever the threads run and whatever
  clients type or ask the web server for: in every state that a router started from its files reaches, the link state
  database has one entry per router identifier and one for our own, the ARP cache has one
  entry per address, the ARP queue has one entry per next hop with one to five requests
  sent, and the router has the interfaces and the identifier it started with.
\<close>

theorem router_invariant:
  assumes "\<And>a b. 0 < strcmp a b \<Longrightarrow> b < a"
    and "\<forall>i\<in>set ifs. vns_ok i" "\<forall>re\<in>set routes. static_route re"
    and "running strcmp now hw ifs routes rs"
  shows "routers_inv rs \<and> arp_cache_ok rs \<and> requests_ok rs \<and> rs_router_id rs = own_id ifs 0 \<and>
    map if_name (rs_if_list rs) = map vns_name ifs"
proof -
  have "strcmp_result strcmp" by unfold_locales (rule assms(1))
  from running_ok [OF this assms(2-4)] show ?thesis .
qed

text \<open>A router started from its files, after a hello round.\<close>

lemma running_example: "\<exists>rs. running strcmp_sign 0 hw4 hw_ifs default_routes rs"
  using sr_init_printed [OF strcmp_sign.strcmp_result_axioms hw_ifs_ok, of 0 hw4] by (auto simp: running_def)

theorem router_invariant_witness:
  "\<exists>rs. running strcmp_sign 0 hw4 hw_ifs default_routes rs \<and> routers_inv rs \<and>
    map if_name (rs_if_list rs) = [''eth0'', ''eth1'']"
proof -
  from running_example obtain rs where run: "running strcmp_sign 0 hw4 hw_ifs default_routes rs" by blast
  have "map vns_name hw_ifs = [''eth0'', ''eth1'']" by (simp add: hw_ifs_def)
  with router_invariant [where strcmp = strcmp_sign, OF strcmp_sign.pos hw_ifs_ok run] run show ?thesis by auto
qed



end
